(* ===== verification/Wisp_Prelude.thy ===== *)
theory Wisp_Prelude
  imports
    Main
    "HOL-Library.Word"
    "HOL-Library.Char_ord"
    "HOL-Library.List_Lexorder"
    "HOL-Library.AList"
    "HOL-Library.Multiset"
begin

text \<open>
  Shared vocabulary of the development: the types that stand for the C++ ones, the standard
  library operations several components use (associative containers, \<^verbatim>\<open>std::find_if\<close>, the
  swap-with-last erase, \<^verbatim>\<open>std::string::find\<close>, decimal conversion), and the generic lemmas on
  them.

  A \<^verbatim>\<open>std::string\<close> is a \<^typ>\<open>string\<close>: a list of 8-bit characters, ordered as
  \<^verbatim>\<open>std::string::operator<\<close> orders it (lexicographically on unsigned bytes).  A
  \<^verbatim>\<open>std::unordered_map\<close> is an association list in its iteration order, with distinct keys; no
  theorem depends on where a new key lands in that order.  A \<^verbatim>\<open>std::map\<close> or \<^verbatim>\<open>std::set\<close> is a
  list kept sorted by key.  Times are integers in nanoseconds.
\<close>

section \<open>Types\<close>

type_synonym u8 = "8 word"
type_synonym u16 = "16 word"
type_synonym u32 = "32 word"
type_synonym u64 = "64 word"

type_synonym time = int

type_synonym ('k, 'v) umap = "('k \<times> 'v) list"
type_synonym ('k, 'v) omap = "('k \<times> 'v) list"

text \<open>The lemma collections the component proofs run on.\<close>

named_theorems umap_simps "lookup, insertion and erasure in association lists"
named_theorems omap_simps "lookup, insertion and erasure in sorted association lists"
named_theorems byte_simps "characters against 8-bit words"
named_theorems queue_simps "the state a queue operation leaves"
named_theorems frame_simps "fields an operation does not touch"

section \<open>Bytes\<close>

text \<open>A \<^verbatim>\<open>char\<close> of a string against the \<^verbatim>\<open>std::uint8_t\<close> (or wider) value the code casts it to.\<close>

lemma of_char_of_nat_word: "(of_char c :: 'a::len word) = of_nat (of_char c)"
  by (simp add: of_nat_of_char)

lemma of_char_char_of_unat [byte_simps]: "(of_char (char_of (unat (w :: u8))) :: u8) = w"
proof -
  have "unat w < 256" using unsigned_less[of w, where 'a = nat] by simp
  then show ?thesis
    unfolding of_char_of_nat_word by simp
qed

lemma char_of_unat_of_char [byte_simps]: "char_of (unat (of_char c :: u8)) = c"
  unfolding of_char_of_nat_word by (simp add: unat_of_nat)

lemma unat_of_char_u8 [byte_simps]: "unat (of_char c :: u8) = of_char c"
  unfolding of_char_of_nat_word by (simp add: unat_of_nat)

lemma of_char_inj_u8: "(of_char c :: u8) = of_char d \<longleftrightarrow> c = d"
  by (metis char_of_unat_of_char)

section \<open>Unordered maps\<close>

definition umap_ok :: "('k, 'v) umap \<Rightarrow> bool" where
  "umap_ok m \<longleftrightarrow> distinct (map fst m)"

lemma map_of_update [umap_simps]: "map_of (AList.update k v m) = (map_of m)(k \<mapsto> v)"
  by (simp add: update_conv')

lemma map_of_delete [umap_simps]: "map_of (AList.delete k m) = (map_of m)(k := None)"
  by (simp add: delete_conv')

lemma umap_ok_Nil [simp, intro]: "umap_ok []"
  by (simp add: umap_ok_def)

lemma umap_ok_update [simp, intro]: "umap_ok m \<Longrightarrow> umap_ok (AList.update k v m)"
  by (simp add: umap_ok_def distinct_update)

lemma umap_ok_delete [simp, intro]: "umap_ok m \<Longrightarrow> umap_ok (AList.delete k m)"
  by (simp add: umap_ok_def distinct_delete)

lemma umap_ok_filter [simp, intro]: "umap_ok m \<Longrightarrow> umap_ok (filter P m)"
  by (simp add: umap_ok_def distinct_map_filter)

lemma umap_mem_iff: "umap_ok m \<Longrightarrow> (k, v) \<in> set m \<longleftrightarrow> map_of m k = Some v"
  by (simp add: umap_ok_def)

lemma umap_keys_eq_dom: "set (map fst m) = dom (map_of m)"
  by (simp add: dom_map_of_conv_image_fst)

lemma map_of_eq_None_iff_keys: "map_of m k = None \<longleftrightarrow> k \<notin> set (map fst m)"
  by (simp add: map_of_eq_None_iff)

section \<open>Ordered maps and sets\<close>

text \<open>\<^verbatim>\<open>std::map\<close>: a list sorted by key.  \<open>omap_put\<close> is \<^verbatim>\<open>m[k] = v\<close>.\<close>

fun omap_put :: "'k::linorder \<Rightarrow> 'v \<Rightarrow> ('k, 'v) omap \<Rightarrow> ('k, 'v) omap" where
  "omap_put k v [] = [(k, v)]"
| "omap_put k v ((a, b) # m) =
     (if k < a then (k, v) # (a, b) # m
      else if k = a then (a, v) # m
      else (a, b) # omap_put k v m)"

definition omap_ok :: "('k::linorder, 'v) omap \<Rightarrow> bool" where
  "omap_ok m \<longleftrightarrow> sorted_wrt (<) (map fst m)"

lemma omap_ok_Nil [simp, intro]: "omap_ok []"
  by (simp add: omap_ok_def)

lemma map_of_omap_put [omap_simps]: "map_of (omap_put k v m) = (map_of m)(k \<mapsto> v)"
  by (induction m) auto

lemma keys_omap_put: "set (map fst (omap_put k v m)) = insert k (set (map fst m))"
  unfolding umap_keys_eq_dom by (simp add: omap_simps)

lemma omap_ok_put [simp, intro]: "omap_ok m \<Longrightarrow> omap_ok (omap_put k v m)"
proof (induction m)
  case Nil
  then show ?case by (simp add: omap_ok_def)
next
  case (Cons ab m)
  then show ?case
    using keys_omap_put[of k v m] by (cases ab) (auto simp: omap_ok_def simp del: set_map)
qed

lemma omap_ok_delete [simp, intro]: "omap_ok m \<Longrightarrow> omap_ok (AList.delete k m)"
  by (simp add: omap_ok_def delete_keys removeAll_filter_not_eq sorted_wrt_filter)

lemma omap_ok_distinct: "omap_ok m \<Longrightarrow> distinct (map fst m)"
  by (simp add: omap_ok_def strict_sorted_iff)

lemma length_omap_put:
  "omap_ok m \<Longrightarrow> length (omap_put k v m) = (if map_of m k = None then Suc (length m) else length m)"
proof (induction m)
  case (Cons ab m)
  obtain a b where ab: "ab = (a, b)" by (cases ab)
  have "k \<notin> set (map fst m)" if "k < a"
    using that Cons.prems by (auto simp: omap_ok_def ab)
  then show ?case
    using Cons by (auto simp: ab omap_ok_def map_of_eq_None_iff)
qed simp

text \<open>\<^verbatim>\<open>std::set\<close>: insertion keeps the list sorted and reports whether the element is new.\<close>

definition oset_ok :: "'k::linorder list \<Rightarrow> bool" where
  "oset_ok s \<longleftrightarrow> sorted_wrt (<) s"

definition oset_insert :: "'k::linorder \<Rightarrow> 'k list \<Rightarrow> 'k list" where
  "oset_insert k s = insort_insert k s"

definition oset_erase :: "'k::linorder \<Rightarrow> 'k list \<Rightarrow> 'k list" where
  "oset_erase k s = remove1 k s"

lemma oset_ok_Nil [simp, intro]: "oset_ok []"
  by (simp add: oset_ok_def)

lemma set_oset_insert [simp]: "set (oset_insert k s) = insert k (set s)"
  by (simp add: oset_insert_def set_insort_insert)

lemma set_oset_erase [simp]: "oset_ok s \<Longrightarrow> set (oset_erase k s) = set s - {k}"
  by (simp add: oset_erase_def oset_ok_def strict_sorted_iff)

lemma oset_ok_insert [simp, intro]: "oset_ok s \<Longrightarrow> oset_ok (oset_insert k s)"
  by (simp add: oset_insert_def oset_ok_def strict_sorted_iff sorted_insort_insert
      distinct_insort_insert)

lemma oset_ok_erase [simp, intro]: "oset_ok s \<Longrightarrow> oset_ok (oset_erase k s)"
  by (simp add: oset_erase_def oset_ok_def strict_sorted_iff sorted_remove1)

lemma length_oset_insert:
  "length (oset_insert k s) = (if k \<in> set s then length s else Suc (length s))"
  by (simp add: oset_insert_def insort_insert_key_def)

section \<open>Vectors: \<^verbatim>\<open>std::find_if\<close> and the swap-with-last erase\<close>

primrec find_index :: "('a \<Rightarrow> bool) \<Rightarrow> 'a list \<Rightarrow> nat option" where
  "find_index P [] = None"
| "find_index P (x # xs) = (if P x then Some 0 else map_option Suc (find_index P xs))"

lemma find_index_None_iff: "find_index P xs = None \<longleftrightarrow> (\<forall>x \<in> set xs. \<not> P x)"
  by (induction xs) auto

lemma find_index_SomeD: "find_index P xs = Some i \<Longrightarrow> i < length xs \<and> P (xs ! i)"
  by (induction xs arbitrary: i) (auto split: if_splits)

text \<open>\<^verbatim>\<open>*pos = v.back(); v.pop_back();\<close>\<close>

definition swap_remove :: "nat \<Rightarrow> 'a list \<Rightarrow> 'a list" where
  "swap_remove i xs = butlast (xs[i := last xs])"

lemma mset_swap_remove:
  assumes "i < length xs"
  shows "mset (swap_remove i xs) = mset xs - {#xs ! i#}"
proof -
  let ?ys = "xs[i := last xs]"
  have ne: "?ys \<noteq> []" using assms by auto
  have last: "last ?ys = last xs"
    using assms by (cases xs rule: rev_cases) (auto simp: nth_append list_update_append nth_list_update split: nat.splits)
  have "mset ?ys = mset (butlast ?ys) + {#last ?ys#}"
    using ne by (metis append_butlast_last_id mset_append mset_single_iff_right)
  moreover have "mset ?ys = add_mset (last xs) (mset xs - {#xs ! i#})"
    using assms by (simp add: mset_update)
  ultimately show ?thesis
    by (simp add: swap_remove_def last)
qed

lemma length_swap_remove: "length (swap_remove i xs) = length xs - 1"
  by (simp add: swap_remove_def)

end
