(* ===== verification/Message_Keys.thy ===== *)
theory Message_Keys
  imports Wisp_Prelude
begin

unbundle bit_operations_syntax

text \<open>
  The vocabulary of the protocol: \<^verbatim>\<open>common/messagekeys.h\<close> (subscription scopes and control
  keys), the limits of \<^verbatim>\<open>common/config.h\<close>, and the envelope of \<^verbatim>\<open>common/wireframe.h\<close>.

  \<^verbatim>\<open>Origin\<close> is an enumeration over \<^verbatim>\<open>std::uint8_t\<close> that the code builds and combines with
  bitwise operations (and starts from the value 0, which is no enumerator), so it is kept as the
  8-bit word it is.
\<close>

section \<open>Subscription scopes\<close>

type_synonym origin = u8

definition Origin_Local :: origin where "Origin_Local = 1"
definition Origin_Mesh :: origin where "Origin_Mesh = 2"
definition Origin_Any :: origin where "Origin_Any = 3"

lemmas origin_defs = Origin_Local_def Origin_Mesh_def Origin_Any_def

definition scopeAccepts :: "origin \<Rightarrow> bool \<Rightarrow> bool" where
  "scopeAccepts scp isLocal =
     (let wanted = (if isLocal then Origin_Local else Origin_Mesh) in scp AND wanted \<noteq> 0)"

definition widen :: "origin \<Rightarrow> origin \<Rightarrow> origin" where
  "widen l r = l OR r"

definition encodeSubscribeScope :: "origin \<Rightarrow> string" where
  "encodeSubscribeScope scp = (if scp = Origin_Any then '''' else [char_of (unat scp)])"

definition decodeSubscribeScope :: "string \<Rightarrow> origin" where
  "decodeSubscribeScope data =
     (case data of
        [] \<Rightarrow> Origin_Any
      | c # _ \<Rightarrow> (let bits = of_char c AND Origin_Any in if bits = 0 then Origin_Any else bits))"

text \<open>The three values a scope that came off the wire can have.\<close>

definition valid_scope :: "origin \<Rightarrow> bool" where
  "valid_scope scp \<longleftrightarrow> scp = Origin_Local \<or> scp = Origin_Mesh \<or> scp = Origin_Any"

lemma and_3_cases: "(w :: u8) AND 3 = 0 \<or> w AND 3 = 1 \<or> w AND 3 = 2 \<or> w AND 3 = 3"
proof -
  have "w AND 3 = take_bit 2 w"
    by (simp add: take_bit_eq_mask mask_eq_exp_minus_1)
  then have "unat (w AND 3) < 4"
    using take_bit_nat_less_exp[of 2 "unat w"] by (simp only: unsigned_take_bit_eq) simp
  then have "unat (w AND 3) \<in> {0, 1, 2, 3}" by auto
  then show ?thesis
    by (auto simp: word_unat_eq_iff)
qed

lemma scopeAccepts_widen [simp]:
  "scopeAccepts (widen l r) isLocal \<longleftrightarrow> scopeAccepts l isLocal \<or> scopeAccepts r isLocal"
proof -
  have eq: "(l OR r) AND w = (l AND w) OR (r AND w)" for w :: u8
    by (simp add: bit.conj_disj_distrib2)
  show ?thesis
    unfolding scopeAccepts_def widen_def Let_def eq
    by (cases isLocal) (auto simp: or_eq_0_iff)
qed

lemma scopeAccepts_Any [simp]: "scopeAccepts Origin_Any isLocal"
  by (cases isLocal) (simp_all add: scopeAccepts_def origin_defs)

lemma scopeAccepts_Local [simp]: "scopeAccepts Origin_Local isLocal \<longleftrightarrow> isLocal"
  by (cases isLocal) (simp_all add: scopeAccepts_def origin_defs)

lemma scopeAccepts_Mesh [simp]: "scopeAccepts Origin_Mesh isLocal \<longleftrightarrow> \<not> isLocal"
  by (cases isLocal) (simp_all add: scopeAccepts_def origin_defs)

lemma scopeAccepts_zero [simp]: "\<not> scopeAccepts 0 isLocal"
  by (simp add: scopeAccepts_def)

lemma valid_scope_decode [simp, intro]: "valid_scope (decodeSubscribeScope data)"
proof (cases data)
  case (Cons c cs)
  then show ?thesis
    using and_3_cases[of "of_char c"]
    by (auto simp: decodeSubscribeScope_def valid_scope_def origin_defs Let_def)
qed (simp add: decodeSubscribeScope_def valid_scope_def)

lemma valid_scope_accepts: "valid_scope scp \<Longrightarrow> scopeAccepts scp True \<or> scopeAccepts scp False"
  by (auto simp: valid_scope_def)

section \<open>Control keys\<close>

definition CONNECT :: string where "CONNECT = ''__CONNECT__''"
definition DISCONNECT :: string where "DISCONNECT = ''__DISCONNECT__''"
definition RESET :: string where "RESET = ''__RESET__''"
definition HEARTBEAT :: string where "HEARTBEAT = ''__HEARTBEAT__''"
definition HEARTBEAT_ACK :: string where "HEARTBEAT_ACK = ''__HEARTBEAT_ACK__''"
definition SUBSCRIBE :: string where "SUBSCRIBE = ''__SUBSCRIBE__''"
definition UNSUBSCRIBE :: string where "UNSUBSCRIBE = ''__UNSUBSCRIBE__''"
definition SYS_STATS :: string where "SYS_STATS = ''__SYS_STATS__''"
definition UNLINK :: string where "UNLINK = ''__UNLINK__''"
definition SET_CLUSTER :: string where "SET_CLUSTER = ''__SET_CLUSTER__''"
definition WILDCARD_TOPIC :: string where "WILDCARD_TOPIC = ''*''"

lemmas key_defs = CONNECT_def DISCONNECT_def RESET_def HEARTBEAT_def HEARTBEAT_ACK_def
  SUBSCRIBE_def UNSUBSCRIBE_def SYS_STATS_def UNLINK_def SET_CLUSTER_def WILDCARD_TOPIC_def

definition isReservedKey :: "string \<Rightarrow> bool" where
  "isReservedKey k \<longleftrightarrow> length k \<ge> 2 \<and> k ! 0 = CHR ''_'' \<and> k ! 1 = CHR ''_''"

definition isSystemPacket :: "string \<Rightarrow> bool" where
  "isSystemPacket k \<longleftrightarrow>
     k = HEARTBEAT \<or> k = HEARTBEAT_ACK \<or> k = CONNECT \<or> k = DISCONNECT \<or> k = RESET"

definition isControlMessage :: "string \<Rightarrow> bool" where
  "isControlMessage k \<longleftrightarrow>
     isSystemPacket k \<or> k = SUBSCRIBE \<or> k = UNSUBSCRIBE \<or> k = SET_CLUSTER"

lemma distinct_keys:
  "distinct [CONNECT, DISCONNECT, RESET, HEARTBEAT, HEARTBEAT_ACK, SUBSCRIBE, UNSUBSCRIBE,
     SYS_STATS, UNLINK, SET_CLUSTER, WILDCARD_TOPIC]"
  by (simp add: key_defs)

lemma distinct_keys_rev:
  "distinct [WILDCARD_TOPIC, SET_CLUSTER, UNLINK, SYS_STATS, UNSUBSCRIBE, SUBSCRIBE, HEARTBEAT_ACK, HEARTBEAT,
     RESET, DISCONNECT, CONNECT]"
  by (simp add: key_defs)

lemmas key_neqs [simp] = distinct_keys [simplified] distinct_keys_rev [simplified]

lemma isReservedKey_keys [simp]:
  "isReservedKey CONNECT" "isReservedKey DISCONNECT" "isReservedKey RESET"
  "isReservedKey HEARTBEAT" "isReservedKey HEARTBEAT_ACK" "isReservedKey SUBSCRIBE"
  "isReservedKey UNSUBSCRIBE" "isReservedKey SYS_STATS" "isReservedKey UNLINK"
  "isReservedKey SET_CLUSTER" "\<not> isReservedKey WILDCARD_TOPIC"
  by (simp_all add: isReservedKey_def key_defs)

lemma isControlMessage_reserved: "isControlMessage k \<Longrightarrow> isReservedKey k"
  by (auto simp: isControlMessage_def isSystemPacket_def)

section \<open>Limits\<close>

definition MAX_MESSAGE_SIZE_BYTES :: nat where "MAX_MESSAGE_SIZE_BYTES = 16 * 1024 * 1024"
definition MAX_TOPIC_LENGTH_BYTES :: nat where "MAX_TOPIC_LENGTH_BYTES = 512"
definition MAX_SUBSCRIPTIONS_PER_CLIENT :: nat where "MAX_SUBSCRIPTIONS_PER_CLIENT = 10000"

section \<open>Headers and envelopes\<close>

text \<open>The fields of \<^verbatim>\<open>broker.MessageHeader\<close>, in field-number order.\<close>

record message_header =
  handler_key :: string
  sender_id :: string
  topic :: string
  origin_broker_id :: string
  message_uuid :: string
  reply_topic :: string

record envelope =
  header :: message_header
  payload :: string

definition empty_header :: message_header where
  "empty_header = \<lparr>handler_key = '''', sender_id = '''', topic = '''', origin_broker_id = '''',
     message_uuid = '''', reply_topic = ''''\<rparr>"

definition makeControlHeader :: "string \<Rightarrow> string \<Rightarrow> string \<Rightarrow> message_header" where
  "makeControlHeader k sid t = empty_header\<lparr>handler_key := k, sender_id := sid, topic := t\<rparr>"

definition makeControl :: "string \<Rightarrow> string \<Rightarrow> string \<Rightarrow> envelope" where
  "makeControl k sid t = \<lparr>header = makeControlHeader k sid t, payload = ''''\<rparr>"

lemma makeControlHeader_sel [simp]:
  "handler_key (makeControlHeader k sid t) = k"
  "sender_id (makeControlHeader k sid t) = sid"
  "topic (makeControlHeader k sid t) = t"
  "message_uuid (makeControlHeader k sid t) = ''''"
  "origin_broker_id (makeControlHeader k sid t) = ''''"
  "reply_topic (makeControlHeader k sid t) = ''''"
  by (simp_all add: makeControlHeader_def empty_header_def)

lemma makeControl_sel [simp]:
  "header (makeControl k sid t) = makeControlHeader k sid t"
  "payload (makeControl k sid t) = ''''"
  by (simp_all add: makeControl_def)

section \<open>Scopes on the wire\<close>

text \<open>A scope survives the trip through a SUBSCRIBE payload: decoding what
  \<^verbatim>\<open>encodeSubscribeScope\<close> wrote gives back the scope, for each of the three scopes.\<close>

lemma scope_roundtrip:
  assumes "valid_scope scp"
  shows "decodeSubscribeScope (encodeSubscribeScope scp) = scp"
  using assms
  by (auto simp: valid_scope_def decodeSubscribeScope_def encodeSubscribeScope_def origin_defs
      byte_simps Let_def)

text \<open>How unrecognised scope bytes decode: an absent payload and a byte with
  none of the two known bits widen to \<^verbatim>\<open>Any\<close>; a byte with unknown bits beside exactly one known
  bit is narrowed to that bit.\<close>

lemma scope_unknown_bits:
  "decodeSubscribeScope '''' = Origin_Any \<and>
   ((of_char c :: u8) AND Origin_Any = 0 \<longrightarrow> decodeSubscribeScope (c # rest) = Origin_Any) \<and>
   ((of_char c :: u8) AND Origin_Any = Origin_Local \<longrightarrow>
      decodeSubscribeScope (c # rest) = Origin_Local)"
  by (auto simp: decodeSubscribeScope_def Let_def origin_defs)

end
