(* ===== verification/Subscription_Registry.thy ===== *)
theory Subscription_Registry
  imports Message_Keys
begin

text \<open>
  \<^verbatim>\<open>server/subscriptionregistry.h\<close>: the two maps client \<open>\<rightarrow>\<close> topics and topic \<open>\<rightarrow>\<close> subscribers,
  and the operations that keep them in step.

  The contract is the locale \<open>subscription_store\<close>: the registry behaves as one partial function
  from (client, topic) to a scope.  The invariant \<open>registry_ok\<close> says that both maps describe that
  function, and every operation is shown to keep it and to act on the function as its name says.
\<close>

section \<open>The data structure\<close>

record subscriber =
  clientId :: string
  scope :: origin

record registry =
  m_clientTopics :: "(string, (string, origin) omap) umap"
  m_topicSubscribers :: "(string, subscriber list) umap"

definition empty_registry :: registry where
  "empty_registry = \<lparr>m_clientTopics = [], m_topicSubscribers = []\<rparr>"

definition subscribersOf :: "registry \<Rightarrow> string \<Rightarrow> subscriber list option" where
  "subscribersOf r t = map_of (m_topicSubscribers r) t"

definition subscriptionsOf :: "registry \<Rightarrow> string \<Rightarrow> (string, origin) omap option" where
  "subscriptionsOf r c = map_of (m_clientTopics r) c"

definition findSubscriber :: "registry \<Rightarrow> string \<Rightarrow> string \<Rightarrow> nat option" where
  "findSubscriber r t c =
     (case map_of (m_topicSubscribers r) t of
        None \<Rightarrow> None
      | Some subs \<Rightarrow> find_index (\<lambda>s. clientId s = c) subs)"

definition dropSubscriber :: "registry \<Rightarrow> string \<Rightarrow> string \<Rightarrow> registry" where
  "dropSubscriber r t c =
     (case map_of (m_topicSubscribers r) t of
        None \<Rightarrow> r
      | Some subs \<Rightarrow>
          (let subs' = (case find_index (\<lambda>s. clientId s = c) subs of
                          None \<Rightarrow> subs
                        | Some pos \<Rightarrow> swap_remove pos subs)
           in if subs' = []
              then r\<lparr>m_topicSubscribers := AList.delete t (m_topicSubscribers r)\<rparr>
              else r\<lparr>m_topicSubscribers := AList.update t subs' (m_topicSubscribers r)\<rparr>))"

text \<open>\<^verbatim>\<open>m_clientTopics[clientId]\<close> and \<^verbatim>\<open>m_topicSubscribers[topic]\<close> create an empty entry when there is
  none; \<open>held_topics\<close> and \<open>subs_at\<close> are what they refer to.\<close>

definition held_topics :: "registry \<Rightarrow> string \<Rightarrow> (string, origin) omap" where
  "held_topics r c = (case map_of (m_clientTopics r) c of None \<Rightarrow> [] | Some m \<Rightarrow> m)"

definition subs_at :: "registry \<Rightarrow> string \<Rightarrow> subscriber list" where
  "subs_at r t = (case map_of (m_topicSubscribers r) t of None \<Rightarrow> [] | Some subs \<Rightarrow> subs)"

definition subscribe :: "registry \<Rightarrow> string \<Rightarrow> string \<Rightarrow> origin \<Rightarrow> bool \<times> registry" where
  "subscribe r c t s =
     (case map_of (held_topics r c) t of
        None \<Rightarrow>
          (True, r\<lparr>m_clientTopics := AList.update c (omap_put t s (held_topics r c)) (m_clientTopics r),
                   m_topicSubscribers :=
                     AList.update t (subs_at r t @ [\<lparr>clientId = c, scope = s\<rparr>])
                       (m_topicSubscribers r)\<rparr>)
      | Some held \<Rightarrow>
          if held = s then (False, r)
          else
            (let r' = r\<lparr>m_clientTopics :=
                          AList.update c (omap_put t s (held_topics r c)) (m_clientTopics r)\<rparr>
             in (True,
                 case findSubscriber r' t c of
                   None \<Rightarrow> r'
                 | Some pos \<Rightarrow>
                     r'\<lparr>m_topicSubscribers :=
                          AList.update t ((subs_at r' t)[pos := (subs_at r' t ! pos)\<lparr>scope := s\<rparr>])
                            (m_topicSubscribers r')\<rparr>)))"

definition unsubscribe :: "registry \<Rightarrow> string \<Rightarrow> string \<Rightarrow> bool \<times> registry" where
  "unsubscribe r c t =
     (case map_of (m_clientTopics r) c of
        None \<Rightarrow> (False, r)
      | Some topics \<Rightarrow>
          if map_of topics t = None then (False, r)
          else
            (let topics' = AList.delete t topics;
                 r' = (if topics' = []
                       then r\<lparr>m_clientTopics := AList.delete c (m_clientTopics r)\<rparr>
                       else r\<lparr>m_clientTopics := AList.update c topics' (m_clientTopics r)\<rparr>)
             in (True, dropSubscriber r' t c)))"

text \<open>\<^verbatim>\<open>SubscriptionRegistry::removeClient\<close>.\<close>

definition reg_removeClient :: "registry \<Rightarrow> string \<Rightarrow> registry" where
  "reg_removeClient r c =
     (case map_of (m_clientTopics r) c of
        None \<Rightarrow> r
      | Some topics \<Rightarrow>
          (let r' = fold (\<lambda>entry q. dropSubscriber q (fst entry) c) topics r
           in r'\<lparr>m_clientTopics := AList.delete c (m_clientTopics r')\<rparr>))"

definition hasMeshSubscriber :: "registry \<Rightarrow> string \<Rightarrow> bool" where
  "hasMeshSubscriber r t =
     (case subscribersOf r t of
        None \<Rightarrow> False
      | Some subs \<Rightarrow> list_ex (\<lambda>s. scopeAccepts (scope s) False) subs)"

section \<open>Invariant and abstraction\<close>

definition reg_abs :: "registry \<Rightarrow> string \<times> string \<Rightarrow> origin option" where
  "reg_abs r ct = map_of (held_topics r (fst ct)) (snd ct)"

text \<open>A vector of subscribers against the clients and scopes it stands for.\<close>

definition subs_describe :: "subscriber list \<Rightarrow> (string \<Rightarrow> origin option) \<Rightarrow> bool" where
  "subs_describe subs f \<longleftrightarrow>
     distinct (map clientId subs) \<and>
     (\<forall>c s. \<lparr>clientId = c, scope = s\<rparr> \<in> set subs \<longleftrightarrow> f c = Some s)"

text \<open>The two sides of the registry, each on its own: the client side is well formed, and the topic
  side describes a given partial function.\<close>

definition client_side :: "registry \<Rightarrow> bool" where
  "client_side r \<longleftrightarrow>
     umap_ok (m_clientTopics r) \<and>
     (\<forall>c m. map_of (m_clientTopics r) c = Some m \<longrightarrow> m \<noteq> [] \<and> omap_ok m)"

definition topic_side :: "registry \<Rightarrow> (string \<times> string \<Rightarrow> origin option) \<Rightarrow> bool" where
  "topic_side r F \<longleftrightarrow>
     umap_ok (m_topicSubscribers r) \<and>
     (\<forall>t subs. map_of (m_topicSubscribers r) t = Some subs \<longrightarrow> subs \<noteq> []) \<and>
     (\<forall>t. subs_describe (subs_at r t) (\<lambda>c. F (c, t)))"

definition registry_ok :: "registry \<Rightarrow> bool" where
  "registry_ok r \<longleftrightarrow> client_side r \<and> topic_side r (reg_abs r)"

lemma registry_okD:
  assumes "registry_ok r"
  shows "umap_ok (m_clientTopics r)" "umap_ok (m_topicSubscribers r)"
    "\<And>c m. map_of (m_clientTopics r) c = Some m \<Longrightarrow> m \<noteq> [] \<and> omap_ok m"
    "\<And>t subs. map_of (m_topicSubscribers r) t = Some subs \<Longrightarrow> subs \<noteq> []"
    "\<And>t. subs_describe (subs_at r t) (\<lambda>c. reg_abs r (c, t))"
  using assms by (auto simp: registry_ok_def client_side_def topic_side_def)

lemma omap_ok_held [simp]: "registry_ok r \<Longrightarrow> omap_ok (held_topics r c)"
  by (auto simp: held_topics_def dest: registry_okD(3) split: option.splits)

lemma subscribersOf_eq: "registry_ok r \<Longrightarrow>
    subscribersOf r t = (if subs_at r t = [] then None else Some (subs_at r t))"
  by (auto simp: subscribersOf_def subs_at_def dest: registry_okD(4) split: option.splits)

lemma subscriptionsOf_eq: "registry_ok r \<Longrightarrow>
    subscriptionsOf r c = (if held_topics r c = [] then None else Some (held_topics r c))"
  by (auto simp: subscriptionsOf_def held_topics_def dest: registry_okD(3) split: option.splits)

subsection \<open>Vectors that describe a partial function\<close>

lemma subs_describe_cong: "(\<And>c. f c = g c) \<Longrightarrow> subs_describe subs f = subs_describe subs g"
  by (simp add: subs_describe_def)

lemma subs_describe_append:
  "subs_describe subs f \<Longrightarrow> f c = None \<Longrightarrow>
   subs_describe (subs @ [\<lparr>clientId = c, scope = s\<rparr>]) (f(c \<mapsto> s))"
  unfolding subs_describe_def
  by (auto simp: image_iff) (metis option.distinct(1) subscriber.surjective old.unit.exhaust)+

lemma subs_describe_find:
  assumes "subs_describe subs f"
  shows "find_index (\<lambda>x. clientId x = c) subs = None \<longleftrightarrow> f c = None"
    and "find_index (\<lambda>x. clientId x = c) subs = Some i \<Longrightarrow>
           i < length subs \<and> clientId (subs ! i) = c \<and> f c = Some (scope (subs ! i))"
proof -
  have mem: "x \<in> set subs \<Longrightarrow> f (clientId x) = Some (scope x)" for x
    using assms unfolding subs_describe_def by (metis subscriber.surjective old.unit.exhaust)
  show "find_index (\<lambda>x. clientId x = c) subs = None \<longleftrightarrow> f c = None"
    using assms mem unfolding find_index_None_iff subs_describe_def
    by (metis not_None_eq subscriber.select_convs(1))
  assume "find_index (\<lambda>x. clientId x = c) subs = Some i"
  then show "i < length subs \<and> clientId (subs ! i) = c \<and> f c = Some (scope (subs ! i))"
    using mem[of "subs ! i"] by (auto dest: find_index_SomeD)
qed

lemma subs_unique:
  "distinct (map clientId subs) \<Longrightarrow> i < length subs \<Longrightarrow> x \<in> set subs \<Longrightarrow>
   clientId x = clientId (subs ! i) \<longleftrightarrow> x = subs ! i"
  by (metis distinct_map inj_onD nth_mem)

lemma subs_describe_set_scope:
  assumes d: "subs_describe subs f" and i: "i < length subs" "clientId (subs ! i) = c"
  shows "subs_describe (subs[i := (subs ! i)\<lparr>scope := s\<rparr>]) (f(c \<mapsto> s))"
proof -
  have clients: "map clientId (subs[i := (subs ! i)\<lparr>scope := s\<rparr>]) = map clientId subs"
    using i by (simp add: map_update) (metis length_map list_update_id nth_map)
  have dist: "distinct (map clientId subs)" using d by (simp add: subs_describe_def)
  then have "distinct subs" by (simp add: distinct_map)
  then have sets: "set (subs[i := (subs ! i)\<lparr>scope := s\<rparr>]) =
      insert \<lparr>clientId = c, scope = s\<rparr> (set subs - {subs ! i})"
    using i by (simp add: set_update_distinct) (metis subscriber.surjective subscriber.update_convs(2) old.unit.exhaust)
  have "\<lparr>clientId = c', scope = s'\<rparr> \<in> set subs - {subs ! i} \<longleftrightarrow>
      c' \<noteq> c \<and> \<lparr>clientId = c', scope = s'\<rparr> \<in> set subs" for c' s'
    using subs_unique[OF dist i(1), of "\<lparr>clientId = c', scope = s'\<rparr>"] i by auto
  then show ?thesis
    using d clients dist unfolding subs_describe_def sets by auto
qed

lemma subs_describe_swap_remove:
  assumes d: "subs_describe subs f" and i: "i < length subs" "clientId (subs ! i) = c"
  shows "subs_describe (swap_remove i subs) (f(c := None))"
proof -
  let ?ys = "swap_remove i subs"
  have m: "mset ?ys = mset subs - {#subs ! i#}" by (rule mset_swap_remove[OF i(1)])
  have dist: "distinct (map clientId subs)" using d by (simp add: subs_describe_def)
  then have ds: "distinct subs" by (simp add: distinct_map)
  have "mset (map clientId ?ys) = mset (map clientId subs) - {#c#}"
    using i by (simp add: m image_mset_Diff)
  then have dist': "distinct (map clientId ?ys)"
    using dist by (metis mset_remove1 distinct_remove1 mset_eq_imp_distinct_iff)
  have sets: "set ?ys = set subs - {subs ! i}"
    using m ds by (metis mset_remove1 set_mset_mset set_remove1_eq)
  have "\<lparr>clientId = c', scope = s'\<rparr> \<in> set subs - {subs ! i} \<longleftrightarrow>
      c' \<noteq> c \<and> \<lparr>clientId = c', scope = s'\<rparr> \<in> set subs" for c' s'
    using subs_unique[OF dist i(1), of "\<lparr>clientId = c', scope = s'\<rparr>"] i by auto
  then show ?thesis
    using d dist' unfolding subs_describe_def sets by auto
qed

section \<open>What the operations do\<close>

lemma topic_side_update:
  assumes F: "topic_side r F" "subs \<noteq> []" "subs_describe subs (\<lambda>c. G (c, t))"
    and G: "\<And>c t'. t' \<noteq> t \<Longrightarrow> G (c, t') = F (c, t')"
    and r': "m_topicSubscribers r' = AList.update t subs (m_topicSubscribers r)"
  shows "topic_side r' G"
proof -
  have "subs_at r' t' = (if t' = t then subs else subs_at r t')" for t'
    by (simp add: subs_at_def r' umap_simps)
  moreover have "t' \<noteq> t \<Longrightarrow> (\<lambda>c. G (c, t')) = (\<lambda>c. F (c, t'))" for t'
    using G by blast
  ultimately show ?thesis
    using F unfolding topic_side_def by (auto simp: r' umap_simps split: if_splits)
qed

lemma topic_side_delete:
  assumes F: "topic_side r F" and t: "\<And>c. G (c, t) = None"
    and G: "\<And>c t'. t' \<noteq> t \<Longrightarrow> G (c, t') = F (c, t')"
    and r': "m_topicSubscribers r' = AList.delete t (m_topicSubscribers r)"
  shows "topic_side r' G"
proof -
  have "subs_at r' t' = (if t' = t then [] else subs_at r t')" for t'
    by (simp add: subs_at_def r' umap_simps)
  moreover have "t' \<noteq> t \<Longrightarrow> (\<lambda>c. G (c, t')) = (\<lambda>c. F (c, t'))" for t'
    using G by blast
  moreover have "subs_describe [] (\<lambda>c. G (c, t))"
    using t by (simp add: subs_describe_def)
  ultimately show ?thesis
    using F unfolding topic_side_def by (auto simp: r' umap_simps split: if_splits)
qed

lemma dropSubscriber_client_side [simp, frame_simps]:
  "m_clientTopics (dropSubscriber r t c) = m_clientTopics r"
  by (auto simp: dropSubscriber_def Let_def split: option.splits)

lemma dropSubscriber_topic_side:
  assumes F: "topic_side r F"
  shows "topic_side (dropSubscriber r t c) (F((c, t) := None))"
proof (cases "map_of (m_topicSubscribers r) t")
  case None
  then have "subs_describe [] (\<lambda>c. F (c, t))"
    using F unfolding topic_side_def subs_at_def by (metis option.simps(4))
  then have "F (c', t) = None" for c'
    by (cases "F (c', t)") (auto simp: subs_describe_def)
  then have "F((c, t) := None) = F" by auto
  with F None show ?thesis by (simp add: dropSubscriber_def)
next
  case (Some subs)
  have d: "subs_describe subs (\<lambda>c. F (c, t))"
    using F Some unfolding topic_side_def subs_at_def by (metis option.simps(5))
  define subs' where "subs' = (case find_index (\<lambda>s. clientId s = c) subs of
      None \<Rightarrow> subs | Some pos \<Rightarrow> swap_remove pos subs)"
  have "subs_describe subs' ((\<lambda>c. F (c, t))(c := None))"
  proof (cases "find_index (\<lambda>s. clientId s = c) subs")
    case None
    then have "F (c, t) = None" using subs_describe_find(1)[OF d] by simp
    then have "(\<lambda>c. F (c, t))(c := None) = (\<lambda>c. F (c, t))" by auto
    with d None show ?thesis by (simp add: subs'_def)
  next
    case (Some pos)
    then show ?thesis
      using subs_describe_swap_remove[OF d] subs_describe_find(2)[OF d Some] by (simp add: subs'_def)
  qed
  then have d': "subs_describe subs' (\<lambda>c'. (F((c, t) := None)) (c', t))"
    by (rule subs_describe_cong[THEN iffD1, rotated]) auto
  show ?thesis
  proof (cases "subs' = []")
    case True
    with Some have "dropSubscriber r t c =
        r\<lparr>m_topicSubscribers := AList.delete t (m_topicSubscribers r)\<rparr>"
      by (simp add: dropSubscriber_def subs'_def)
    moreover have "(F((c, t) := None)) (c', t) = None" for c'
      using d' True by (simp add: subs_describe_def)
    ultimately show ?thesis
      by (intro topic_side_delete[OF F]) auto
  next
    case False
    with Some have "dropSubscriber r t c =
        r\<lparr>m_topicSubscribers := AList.update t subs' (m_topicSubscribers r)\<rparr>"
      by (simp add: dropSubscriber_def subs'_def)
    then show ?thesis
      by (intro topic_side_update[OF F False d']) auto
  qed
qed

lemma fold_drop_client_side [simp, frame_simps]:
  "m_clientTopics (fold (\<lambda>entry q. dropSubscriber q (fst entry) c) topics r) = m_clientTopics r"
  by (induction topics arbitrary: r) auto

lemma fold_drop_topic_side:
  "topic_side r F \<Longrightarrow>
   topic_side (fold (\<lambda>entry q. dropSubscriber q (fst entry) c) topics r)
     (\<lambda>(c', t). if c' = c \<and> t \<in> fst ` set topics then None else F (c', t))"
proof (induction topics arbitrary: r F)
  case Nil
  then show ?case by simp
next
  case (Cons e topics)
  have "(\<lambda>(c', t). if c' = c \<and> t \<in> fst ` set topics then None else (F((c, fst e) := None)) (c', t)) =
      (\<lambda>(c', t). if c' = c \<and> t \<in> fst ` set (e # topics) then None else F (c', t))"
    by (auto simp: fun_eq_iff)
  then show ?case
    using Cons.IH[OF dropSubscriber_topic_side[OF Cons.prems, of "fst e" c]] by simp
qed

lemma reg_abs_client_topics: "m_clientTopics r' = m_clientTopics r \<Longrightarrow> reg_abs r' = reg_abs r"
  by (simp add: fun_eq_iff reg_abs_def held_topics_def)

lemma reg_abs_update:
  "m_clientTopics r' = AList.update c m (m_clientTopics r) \<Longrightarrow>
   reg_abs r' = (\<lambda>(c', t). if c' = c then map_of m t else reg_abs r (c', t))"
  by (auto simp: fun_eq_iff reg_abs_def held_topics_def umap_simps)

lemma reg_abs_delete:
  "m_clientTopics r' = AList.delete c (m_clientTopics r) \<Longrightarrow>
   reg_abs r' = (\<lambda>(c', t). if c' = c then None else reg_abs r (c', t))"
  by (auto simp: fun_eq_iff reg_abs_def held_topics_def umap_simps)

lemma client_side_update:
  "client_side r \<Longrightarrow> omap_ok m \<Longrightarrow> m \<noteq> [] \<Longrightarrow>
   m_clientTopics r' = AList.update c m (m_clientTopics r) \<Longrightarrow> client_side r'"
  by (auto simp: client_side_def umap_simps split: if_splits)

lemma client_side_delete:
  "client_side r \<Longrightarrow> m_clientTopics r' = AList.delete c (m_clientTopics r) \<Longrightarrow> client_side r'"
  by (auto simp: client_side_def umap_simps split: if_splits)

lemma omap_put_nonempty [simp]: "omap_put k v m \<noteq> []"
  by (cases m) (auto split: if_splits)

lemma registry_ok_empty [simp]: "registry_ok empty_registry" "reg_abs empty_registry ct = None"
  by (auto simp: registry_ok_def client_side_def topic_side_def reg_abs_def held_topics_def subs_at_def
      subs_describe_def empty_registry_def umap_ok_def fun_eq_iff)

lemma subscribe_result: "fst (subscribe r c t s) \<longleftrightarrow> reg_abs r (c, t) \<noteq> Some s"
  by (auto simp: subscribe_def reg_abs_def Let_def split: option.splits)

lemma subscribe_same: "reg_abs r (c, t) = Some s \<Longrightarrow> subscribe r c t s = (False, r)"
  by (simp add: subscribe_def reg_abs_def)

lemma subscribe_clientTopics:
  "reg_abs r (c, t) \<noteq> Some s \<Longrightarrow> m_clientTopics (snd (subscribe r c t s)) =
     AList.update c (omap_put t s (held_topics r c)) (m_clientTopics r)"
  by (auto simp: subscribe_def reg_abs_def Let_def split: option.splits)

lemma subscribe_abs: "registry_ok r \<Longrightarrow> reg_abs (snd (subscribe r c t s)) = (reg_abs r)((c, t) \<mapsto> s)"
proof (cases "reg_abs r (c, t) = Some s")
  case True
  then show ?thesis by (simp add: subscribe_same fun_upd_idem)
next
  case False
  assume "registry_ok r"
  then show ?thesis
    unfolding reg_abs_update[OF subscribe_clientTopics[OF False]]
    by (auto simp: fun_eq_iff map_of_omap_put reg_abs_def)
qed

lemma subscribe_topicSubscribers:
  assumes "registry_ok r" "reg_abs r (c, t) \<noteq> Some s"
  obtains subs where "m_topicSubscribers (snd (subscribe r c t s)) =
      AList.update t subs (m_topicSubscribers r)" "subs \<noteq> []"
    "subs_describe subs ((\<lambda>c. reg_abs r (c, t))(c \<mapsto> s))"
proof (cases "reg_abs r (c, t)")
  case None
  then show ?thesis
    using subs_describe_append[OF registry_okD(5)[OF assms(1), of t], of c s]
    by (intro that[of "subs_at r t @ [\<lparr>clientId = c, scope = s\<rparr>]"]) (auto simp: subscribe_def reg_abs_def)
next
  case (Some s')
  let ?r = "r\<lparr>m_clientTopics := AList.update c (omap_put t s (held_topics r c)) (m_clientTopics r)\<rparr>"
  have at: "subs_at ?r t = subs_at r t" by (simp add: subs_at_def)
  have d: "subs_describe (subs_at r t) (\<lambda>c. reg_abs r (c, t))" by (rule registry_okD(5)[OF assms(1)])
  obtain pos where pos: "find_index (\<lambda>x. clientId x = c) (subs_at r t) = Some pos"
    using subs_describe_find(1)[OF d, of c] Some by (cases "find_index (\<lambda>x. clientId x = c) (subs_at r t)") auto
  have p: "pos < length (subs_at r t)" "clientId (subs_at r t ! pos) = c"
    using subs_describe_find(2)[OF d pos] by auto
  have "findSubscriber ?r t c = Some pos"
    using pos p by (auto simp: findSubscriber_def subs_at_def split: option.splits)
  then show ?thesis
    using Some assms(2) p at subs_describe_set_scope[OF d p, of s]
    by (intro that[of "(subs_at r t)[pos := (subs_at r t ! pos)\<lparr>scope := s\<rparr>]"])
      (auto simp: subscribe_def reg_abs_def)
qed

lemma subscribe_ok [intro]:
  assumes r: "registry_ok r"
  shows "registry_ok (snd (subscribe r c t s))"
proof (cases "reg_abs r (c, t) = Some s")
  case True
  then show ?thesis using r by (simp add: subscribe_same)
next
  case False
  obtain subs where subs: "m_topicSubscribers (snd (subscribe r c t s)) =
      AList.update t subs (m_topicSubscribers r)" "subs \<noteq> []"
    "subs_describe subs ((\<lambda>c. reg_abs r (c, t))(c \<mapsto> s))"
    by (rule subscribe_topicSubscribers[OF r False])
  have f: "(\<lambda>c'. ((reg_abs r)((c, t) \<mapsto> s)) (c', t)) = (\<lambda>c. reg_abs r (c, t))(c \<mapsto> s)" by auto
  have "topic_side (snd (subscribe r c t s)) ((reg_abs r)((c, t) \<mapsto> s))"
    by (rule topic_side_update[OF _ subs(2) _ _ subs(1)]) (use r subs(3) f in \<open>auto simp: registry_ok_def\<close>)
  moreover have "client_side (snd (subscribe r c t s))"
    using r by (intro client_side_update[OF _ _ _ subscribe_clientTopics[OF False]])
      (auto simp: registry_ok_def intro: omap_ok_put omap_ok_held)
  ultimately show ?thesis by (simp add: registry_ok_def subscribe_abs[OF r])
qed

lemma unsubscribe_result: "fst (unsubscribe r c t) \<longleftrightarrow> reg_abs r (c, t) \<noteq> None"
  by (auto simp: unsubscribe_def reg_abs_def held_topics_def Let_def split: option.splits)

lemma unsubscribe_miss: "reg_abs r (c, t) = None \<Longrightarrow> unsubscribe r c t = (False, r)"
  by (auto simp: unsubscribe_def reg_abs_def held_topics_def split: option.splits)

text \<open>The registry \<^const>\<open>unsubscribe\<close> hands to \<^const>\<open>dropSubscriber\<close>.\<close>

lemma unsubscribe_hit:
  assumes r: "registry_ok r" and hit: "reg_abs r (c, t) \<noteq> None"
  obtains r' where "unsubscribe r c t = (True, dropSubscriber r' t c)"
    "reg_abs r' = (reg_abs r)((c, t) := None)" "client_side r'"
    "m_topicSubscribers r' = m_topicSubscribers r"
proof -
  obtain m where m: "map_of (m_clientTopics r) c = Some m" "map_of m t \<noteq> None"
    using hit by (auto simp: reg_abs_def held_topics_def split: option.splits)
  let ?m = "AList.delete t m"
  let ?r' = "if ?m = [] then r\<lparr>m_clientTopics := AList.delete c (m_clientTopics r)\<rparr>
             else r\<lparr>m_clientTopics := AList.update c ?m (m_clientTopics r)\<rparr>"
  have abs: "reg_abs r (c, t') = map_of m t'" for t'
    using m by (simp add: reg_abs_def held_topics_def)
  have del: "map_of ?m t' = (if t' = t then None else map_of m t')" for t'
    by (simp add: umap_simps)
  have c: "client_side r" using r by (simp add: registry_ok_def)
  have cs: "client_side ?r'"
    using c registry_okD(3)[OF r m(1)] client_side_delete[OF c, of _ c] client_side_update[OF c, of ?m _ c]
    by (simp add: omap_ok_delete)
  have ab: "reg_abs ?r' = (reg_abs r)((c, t) := None)"
  proof (cases "?m = []")
    case True
    then have "t' \<noteq> t \<Longrightarrow> reg_abs r (c, t') = None" for t' using del[of t'] abs by simp
    then show ?thesis using True
      by (auto simp: fun_eq_iff reg_abs_delete[of "r\<lparr>m_clientTopics := AList.delete c (m_clientTopics r)\<rparr>" c r])
  next
    case False
    then show ?thesis
      by (auto simp: fun_eq_iff abs del
          reg_abs_update[of "r\<lparr>m_clientTopics := AList.update c ?m (m_clientTopics r)\<rparr>" c ?m r])
  qed
  have "unsubscribe r c t = (True, dropSubscriber ?r' t c)"
    using m by (simp add: unsubscribe_def Let_def)
  moreover have "m_topicSubscribers ?r' = m_topicSubscribers r"
    by (cases "?m = []") simp_all
  ultimately show ?thesis
    using ab cs by - (rule that)
qed

lemma unsubscribe_abs:
  assumes r: "registry_ok r"
  shows "reg_abs (snd (unsubscribe r c t)) = (reg_abs r)((c, t) := None)"
proof (cases "reg_abs r (c, t) = None")
  case True
  then show ?thesis by (auto simp: unsubscribe_miss)
next
  case False
  obtain r' where r': "unsubscribe r c t = (True, dropSubscriber r' t c)"
    "reg_abs r' = (reg_abs r)((c, t) := None)"
    by (rule unsubscribe_hit[OF r False])
  have "reg_abs (dropSubscriber r' t c) = reg_abs r'"
    by (rule reg_abs_client_topics) simp
  with r' show ?thesis by simp
qed

lemma client_side_cong: "m_clientTopics r' = m_clientTopics r \<Longrightarrow> client_side r' = client_side r"
  by (simp add: client_side_def)

lemma topic_side_cong: "m_topicSubscribers r' = m_topicSubscribers r \<Longrightarrow> topic_side r' F = topic_side r F"
  by (simp add: topic_side_def subs_at_def)

lemma unsubscribe_ok [intro]:
  assumes r: "registry_ok r"
  shows "registry_ok (snd (unsubscribe r c t))"
proof (cases "reg_abs r (c, t) = None")
  case True
  then show ?thesis using r by (simp add: unsubscribe_miss)
next
  case False
  obtain r' where r': "unsubscribe r c t = (True, dropSubscriber r' t c)"
    "reg_abs r' = (reg_abs r)((c, t) := None)" "client_side r'"
    "m_topicSubscribers r' = m_topicSubscribers r"
    by (rule unsubscribe_hit[OF r False])
  have "topic_side r' (reg_abs r)"
    using r by (simp add: registry_ok_def topic_side_cong[OF r'(4)])
  then have "topic_side (dropSubscriber r' t c) ((reg_abs r)((c, t) := None))"
    by (rule dropSubscriber_topic_side)
  then show ?thesis
    using r'(2,3) by (simp add: registry_ok_def r'(1) client_side_cong[of "dropSubscriber r' t c" r']
        reg_abs_client_topics[of "dropSubscriber r' t c" r'])
qed

lemma reg_removeClient_abs:
  "reg_abs (reg_removeClient r c) = (\<lambda>(c', t). if c' = c then None else reg_abs r (c', t))"
proof (cases "map_of (m_clientTopics r) c")
  case None
  then show ?thesis by (auto simp: reg_removeClient_def reg_abs_def held_topics_def fun_eq_iff)
next
  case (Some m)
  then show ?thesis
    by (intro reg_abs_delete) (simp add: reg_removeClient_def Let_def)
qed

lemma reg_removeClient_ok [intro]:
  assumes r: "registry_ok r"
  shows "registry_ok (reg_removeClient r c)"
proof (cases "map_of (m_clientTopics r) c")
  case None
  then show ?thesis using r by (simp add: reg_removeClient_def)
next
  case (Some m)
  let ?f = "fold (\<lambda>entry q. dropSubscriber q (fst entry) c) m r"
  have "topic_side ?f (\<lambda>(c', t). if c' = c \<and> t \<in> fst ` set m then None else reg_abs r (c', t))"
    using r by (intro fold_drop_topic_side[of r "reg_abs r" c m]) (simp only: registry_ok_def)
  moreover have "map_of m t = None" if "t \<notin> fst ` set m" for t
    using that by (simp add: map_of_eq_None_iff)
  then have "(\<lambda>(c', t). if c' = c \<and> t \<in> fst ` set m then None else reg_abs r (c', t)) =
      reg_abs (reg_removeClient r c)"
    using Some by (auto simp: fun_eq_iff reg_removeClient_abs reg_abs_def held_topics_def simp del: split_paired_Ex)
  moreover have eq: "reg_removeClient r c = ?f\<lparr>m_clientTopics := AList.delete c (m_clientTopics ?f)\<rparr>"
    using Some by (simp only: reg_removeClient_def Let_def option.case)
  ultimately have "topic_side (reg_removeClient r c) (reg_abs (reg_removeClient r c))"
    using topic_side_cong[of "reg_removeClient r c" ?f "reg_abs (reg_removeClient r c)"] by simp
  moreover have "client_side (reg_removeClient r c)"
    by (rule client_side_delete[of r _ c]) (use r in \<open>simp_all add: registry_ok_def eq\<close>)
  ultimately show ?thesis by (simp add: registry_ok_def)
qed

lemma hasMeshSubscriber_iff:
  assumes r: "registry_ok r"
  shows "hasMeshSubscriber r t \<longleftrightarrow> (\<exists>c s. reg_abs r (c, t) = Some s \<and> scopeAccepts s False)"
proof -
  have d: "\<lparr>clientId = c, scope = s\<rparr> \<in> set (subs_at r t) \<longleftrightarrow> reg_abs r (c, t) = Some s" for c s
    using registry_okD(5)[OF r, of t] by (simp add: subs_describe_def)
  have "hasMeshSubscriber r t \<longleftrightarrow> (\<exists>x \<in> set (subs_at r t). scopeAccepts (scope x) False)"
    by (auto simp: hasMeshSubscriber_def subscribersOf_def subs_at_def list_ex_iff split: option.splits)
  also have "\<dots> \<longleftrightarrow> (\<exists>c s. reg_abs r (c, t) = Some s \<and> scopeAccepts s False)"
    unfolding d[symmetric] by (auto intro: bexI[rotated]) (metis subscriber.cases subscriber.select_convs(2))
  finally show ?thesis .
qed

section \<open>The contract the broker relies on\<close>

text \<open>A subscription store, as \<^verbatim>\<open>Broker\<close> uses it: the operations, the partial function from
  (client, topic) to scope they stand for, and the one question asked about the mesh.\<close>

locale subscription_store =
  fixes invar :: "'r \<Rightarrow> bool"
    and held :: "'r \<Rightarrow> string \<times> string \<Rightarrow> origin option"
    and sub :: "'r \<Rightarrow> string \<Rightarrow> string \<Rightarrow> origin \<Rightarrow> bool \<times> 'r"
    and unsub :: "'r \<Rightarrow> string \<Rightarrow> string \<Rightarrow> bool \<times> 'r"
    and drop_client :: "'r \<Rightarrow> string \<Rightarrow> 'r"
    and mesh :: "'r \<Rightarrow> string \<Rightarrow> bool"
  assumes sub_invar: "invar r \<Longrightarrow> invar (snd (sub r c t s))"
    and unsub_invar: "invar r \<Longrightarrow> invar (snd (unsub r c t))"
    and drop_invar: "invar r \<Longrightarrow> invar (drop_client r c)"
    and sub_held: "invar r \<Longrightarrow> held (snd (sub r c t s)) = (held r)((c, t) \<mapsto> s)"
    and unsub_held: "invar r \<Longrightarrow> held (snd (unsub r c t)) = (held r)((c, t) := None)"
    and drop_held: "invar r \<Longrightarrow>
      held (drop_client r c) = (\<lambda>(c', t). if c' = c then None else held r (c', t))"
    and sub_fresh: "fst (sub r c t s) \<longleftrightarrow> held r (c, t) \<noteq> Some s"
    and unsub_hit: "fst (unsub r c t) \<longleftrightarrow> held r (c, t) \<noteq> None"
    and mesh_held: "invar r \<Longrightarrow>
      mesh r t \<longleftrightarrow> (\<exists>c s. held r (c, t) = Some s \<and> scopeAccepts s False)"
begin

lemma mesh_cong:
  "invar r \<Longrightarrow> invar r' \<Longrightarrow> (\<And>c. held r' (c, t) = held r (c, t)) \<Longrightarrow> mesh r' t = mesh r t"
  by (simp add: mesh_held)

lemma mesh_sub_other: "invar r \<Longrightarrow> t' \<noteq> t \<Longrightarrow> mesh (snd (sub r c t s)) t' = mesh r t'"
  by (rule mesh_cong) (auto intro: sub_invar simp: sub_held)

lemma mesh_sub_accepting: "invar r \<Longrightarrow> scopeAccepts s False \<Longrightarrow> mesh (snd (sub r c t s)) t"
  by (subst mesh_held) (auto intro: sub_invar simp: sub_held intro!: exI[of _ c])

lemma mesh_unsub_other: "invar r \<Longrightarrow> t' \<noteq> t \<Longrightarrow> mesh (snd (unsub r c t)) t' = mesh r t'"
  by (rule mesh_cong) (auto intro: unsub_invar simp: unsub_held)

lemma mesh_unsub_less: "invar r \<Longrightarrow> mesh (snd (unsub r c t)) t' \<Longrightarrow> mesh r t'"
  by (auto simp: mesh_held unsub_invar unsub_held fun_upd_def split: if_splits)

lemma mesh_drop_other:
  "invar r \<Longrightarrow> held r (c, t) = None \<Longrightarrow> mesh (drop_client r c) t = mesh r t"
  by (rule mesh_cong) (auto intro: drop_invar simp: drop_held)

lemma mesh_drop_less: "invar r \<Longrightarrow> mesh (drop_client r c) t \<Longrightarrow> mesh r t"
  by (auto simp: mesh_held drop_invar drop_held split: if_splits)

lemma sub_again: "invar r \<Longrightarrow> \<not> fst (sub (snd (sub r c t s)) c t s)"
  by (simp add: sub_fresh sub_held)

lemma unsub_after_sub: "invar r \<Longrightarrow> fst (unsub (snd (sub r c t s)) c t)"
  by (simp add: unsub_hit sub_held)

lemma unsub_after_drop: "invar r \<Longrightarrow> \<not> fst (unsub (drop_client r c) c t)"
  by (simp add: unsub_hit drop_held)

end

interpretation reg: subscription_store registry_ok reg_abs subscribe unsubscribe reg_removeClient
  hasMeshSubscriber
  by unfold_locales
    (simp_all add: subscribe_ok unsubscribe_ok reg_removeClient_ok subscribe_abs unsubscribe_abs
      reg_removeClient_abs subscribe_result unsubscribe_result hasMeshSubscriber_iff)

section \<open>Histories\<close>

text \<open>One call on the registry, and the same call on the partial function.\<close>

datatype reg_call = Subscribe string string origin | Unsubscribe string string | RemoveClient string

primrec reg_exec :: "reg_call \<Rightarrow> registry \<Rightarrow> registry" where
  "reg_exec (Subscribe c t s) r = snd (subscribe r c t s)"
| "reg_exec (Unsubscribe c t) r = snd (unsubscribe r c t)"
| "reg_exec (RemoveClient c) r = reg_removeClient r c"

primrec held_exec :: "reg_call \<Rightarrow> (string \<times> string \<Rightarrow> origin option) \<Rightarrow> string \<times> string \<Rightarrow> origin option" where
  "held_exec (Subscribe c t s) h = h((c, t) \<mapsto> s)"
| "held_exec (Unsubscribe c t) h = h((c, t) := None)"
| "held_exec (RemoveClient c) h = (\<lambda>(c', t). if c' = c then None else h (c', t))"

definition reg_history :: "reg_call list \<Rightarrow> registry" where
  "reg_history cs = fold reg_exec cs empty_registry"

lemma reg_exec_ok: "registry_ok r \<Longrightarrow> registry_ok (reg_exec x r) \<and> reg_abs (reg_exec x r) = held_exec x (reg_abs r)"
  by (cases x) (simp_all add: reg.sub_invar reg.unsub_invar reg.drop_invar reg.sub_held reg.unsub_held reg.drop_held)

lemma fold_reg_exec:
  "registry_ok r \<Longrightarrow>
   registry_ok (fold reg_exec cs r) \<and> reg_abs (fold reg_exec cs r) = fold held_exec cs (reg_abs r)"
  by (induction cs arbitrary: r) (auto simp: reg_exec_ok)

lemma reg_history_ok [simp]: "registry_ok (reg_history cs)"
  using fold_reg_exec[OF registry_ok_empty(1)] by (simp add: reg_history_def)

text \<open>C14. After any sequence of subscribe, unsubscribe and removeClient calls the
  two-map registry satisfies its invariant and stands for exactly the partial function from
  (client, topic) to scope that the same calls build, and hasMeshSubscriber answers whether some
  client holds the topic with a scope that takes mesh traffic.\<close>

theorem registry_refines:
  "registry_ok (reg_history cs) \<and>
   reg_abs (reg_history cs) = fold held_exec cs Map.empty \<and>
   (hasMeshSubscriber (reg_history cs) t \<longleftrightarrow>
     (\<exists>c s. fold held_exec cs Map.empty (c, t) = Some s \<and> scopeAccepts s False))"
proof -
  have "reg_abs empty_registry = Map.empty" by (rule ext) simp
  then have "reg_abs (reg_history cs) = fold held_exec cs Map.empty"
    using fold_reg_exec[OF registry_ok_empty(1)] by (simp add: reg_history_def)
  then show ?thesis using reg.mesh_held[OF reg_history_ok] by simp
qed

text \<open>The two sides never drift apart: after any history a client is in the
  subscriber vector of a topic with a scope exactly if its own ordered topic map holds the topic
  with that scope; no vector names a client twice and no empty vector or empty map is kept.\<close>

lemma registry_sides_agree:
  "((\<exists>subs. subscribersOf (reg_history cs) t = Some subs \<and> \<lparr>clientId = c, scope = s\<rparr> \<in> set subs) \<longleftrightarrow>
    (\<exists>m. subscriptionsOf (reg_history cs) c = Some m \<and> (t, s) \<in> set m)) \<and>
   (case subscribersOf (reg_history cs) t of None \<Rightarrow> True
    | Some subs \<Rightarrow> subs \<noteq> [] \<and> distinct (map clientId subs)) \<and>
   (case subscriptionsOf (reg_history cs) c of None \<Rightarrow> True | Some m \<Rightarrow> m \<noteq> [] \<and> omap_ok m)"
proof -
  let ?r = "reg_history cs"
  have d: "distinct (map clientId (subs_at ?r t))"
    "\<And>c s. \<lparr>clientId = c, scope = s\<rparr> \<in> set (subs_at ?r t) \<longleftrightarrow> reg_abs ?r (c, t) = Some s"
    using registry_okD(5)[OF reg_history_ok, of cs t] by (auto simp: subs_describe_def)
  have m: "(t, s) \<in> set (held_topics ?r c) \<longleftrightarrow> reg_abs ?r (c, t) = Some s"
    using omap_ok_distinct[OF omap_ok_held[OF reg_history_ok, of cs c]] by (simp add: reg_abs_def)
  have "(\<exists>subs. subscribersOf ?r t = Some subs \<and> \<lparr>clientId = c, scope = s\<rparr> \<in> set subs) \<longleftrightarrow>
      reg_abs ?r (c, t) = Some s"
    by (auto simp: subscribersOf_eq d(2)[symmetric])
  moreover have "(\<exists>m. subscriptionsOf ?r c = Some m \<and> (t, s) \<in> set m) \<longleftrightarrow> reg_abs ?r (c, t) = Some s"
    by (auto simp: subscriptionsOf_eq m[symmetric])
  ultimately show ?thesis
    using d(1) by (simp add: subscribersOf_eq subscriptionsOf_eq)
qed

end
