(* ===== verification/Byte_Order.thy ===== *)
theory Byte_Order
  imports Wisp_Prelude
begin

text \<open>Fixed-width integers as byte strings: what \<^verbatim>\<open>memcpy\<close> of a native integer reads and writes on the
  little-endian hosts Wisp builds for, what \<^verbatim>\<open>htobe64\<close> followed by \<^verbatim>\<open>memcpy\<close> writes, and the shift loops of
  the recorder. \<^verbatim>\<open>le_nat\<close> and \<^verbatim>\<open>nat_le\<close> are inverse to each other at every width; the components that
  serialise integers (message ids, uuids, recordings) rest on these two facts.\<close>

primrec le_nat :: "string \<Rightarrow> nat" where
  "le_nat [] = 0"
| "le_nat (c # s) = of_char c + 256 * le_nat s"

primrec nat_le :: "nat \<Rightarrow> nat \<Rightarrow> string" where
  "nat_le 0 n = []"
| "nat_le (Suc k) n = char_of (n mod 256) # nat_le k (n div 256)"

lemma length_nat_le [simp]: "length (nat_le k n) = k"
  by (induction k arbitrary: n) auto

lemma le_nat_nat_le [byte_simps]: "le_nat (nat_le k n) = n mod 256 ^ k"
proof (induction k arbitrary: n)
  case (Suc k)
  have "n mod 256 ^ Suc k = n mod 256 + 256 * (n div 256 mod 256 ^ k)"
    by (simp add: mod_mult2_eq add.commute)
  then show ?case by (simp add: Suc)
qed simp

lemma of_char_less_256 [simp]: "(of_char c :: nat) < 256"
  by (metis nat_of_char_less_256)

lemma le_nat_less: "le_nat s < 256 ^ length s"
proof (induction s)
  case (Cons c s)
  have "of_char c + 256 * le_nat s < 256 + 256 * le_nat s" by simp
  also have "\<dots> \<le> 256 * 256 ^ length s" using Cons.IH by (simp add: Suc_leI flip: mult_Suc_right)
  finally show ?case by simp
qed simp

lemma nat_le_le_nat [byte_simps]: "nat_le (length s) (le_nat s) = s"
proof (induction s)
  case (Cons c s)
  have "(of_char c + 256 * le_nat s) mod 256 = (of_char c :: nat)"
    "(of_char c + 256 * le_nat s) div 256 = le_nat s"
    by (simp_all add: div_add1_eq)
  then show ?case using Cons by simp
qed simp

lemma le_nat_inj: "length a = length b \<Longrightarrow> le_nat a = le_nat b \<longleftrightarrow> a = b"
  by (metis nat_le_le_nat)

lemma nat_le_add: "nat_le (a + b) n = nat_le a n @ nat_le b (n div 256 ^ a)"
  by (induction a arbitrary: n) (simp_all add: div_mult2_eq)

lemma nth_nat_le: "i < k \<Longrightarrow> nat_le k n ! i = char_of (n div 256 ^ i mod 256)"
proof (induction k arbitrary: i n)
  case (Suc k)
  then show ?case by (cases i) (simp_all add: div_mult2_eq)
qed simp

section \<open>64-bit words\<close>

text \<open>\<^verbatim>\<open>std::memcpy(&w, bytes, 8)\<close> and its inverse, and the big-endian form of \<^verbatim>\<open>htobe64\<close>.\<close>

definition load64 :: "string \<Rightarrow> u64" where
  "load64 s = of_nat (le_nat s)"

definition store64 :: "u64 \<Rightarrow> string" where
  "store64 w = nat_le 8 (unat w)"

definition store64_be :: "u64 \<Rightarrow> string" where
  "store64_be w = rev (store64 w)"

lemma length_store64 [simp]: "length (store64 w) = 8" "length (store64_be w) = 8"
  by (simp_all add: store64_def store64_be_def)

lemma load64_store64 [simp]: "load64 (store64 w) = w"
proof -
  have "unat w < 2 ^ 64" using unsigned_less[of w, where 'a = nat] by simp
  then show ?thesis
    by (simp add: load64_def store64_def le_nat_nat_le word_unat_eq_iff unsigned_of_nat take_bit_eq_mod)
qed

lemma load64_inj: "length a = 8 \<Longrightarrow> length b = 8 \<Longrightarrow> load64 a = load64 b \<longleftrightarrow> a = b"
  using le_nat_less[of a] le_nat_less[of b] le_nat_inj[of a b]
  by (auto simp: load64_def word_unat_eq_iff unsigned_of_nat take_bit_eq_mod)

lemma store64_be_inj [simp]: "store64_be a = store64_be b \<longleftrightarrow> a = b"
  unfolding store64_be_def by (metis load64_store64 rev_rev_ident)

lemma unat_u64_less: "unat (w :: u64) < 2 ^ 64"
  using unsigned_less[of w, where 'a = nat] by simp

lemma unat_drop_bit64: "unat (drop_bit k (w :: u64)) = unat w div 2 ^ k"
  using unat_u64_less[of w]
  by (simp only: unsigned_drop_bit_eq) (simp add: take_bit_eq_mod drop_bit_eq_div)

end
