(* ===== verification/Message_Id_Set.thy ===== *)
theory Message_Id_Set
  imports Byte_Order "HOL-Library.Monad_Syntax"
begin

unbundle bit_operations_syntax

text \<open>Message deduplication of \<^verbatim>\<open>server/broker.h\<close> and \<^verbatim>\<open>server/broker.cpp\<close>: \<^verbatim>\<open>MessageId\<close>, the open-addressed
  \<^verbatim>\<open>MessageIdSet\<close>, \<^verbatim>\<open>messageIdFrom\<close> and the two rotating windows of \<^verbatim>\<open>Broker::isDuplicate\<close>. The
  probe loop has no bound in the code, so it is a \<^verbatim>\<open>partial_function (option)\<close> with \<^verbatim>\<open>None\<close> for a loop that
  never ends; the lemmas show that it always ends on a set with a free slot, that the set is then a
  mathematical set (locale \<^verbatim>\<open>id_store\<close>, interpreted as \<^verbatim>\<open>ids\<close>), and that the windows never call a first
  occurrence a duplicate and recognise every repeat within \<^verbatim>\<open>MaxHistorySize\<close> fresh ids.\<close>

section \<open>Message ids\<close>

record message_id =
  hi :: u64
  lo :: u64

definition MessageIdHash :: "message_id \<Rightarrow> u64" where
  "MessageIdHash i = hi i XOR (lo i * 0x9e3779b97f4a7c15)"

definition isEmptySlot :: "message_id \<Rightarrow> bool" where
  "isEmptySlot i \<longleftrightarrow> hi i = 0 \<and> lo i = 0"

abbreviation no_id :: message_id where
  "no_id \<equiv> \<lparr>hi = 0, lo = 0\<rparr>"

lemma isEmptySlot_iff: "isEmptySlot i \<longleftrightarrow> i = no_id"
  by (cases i) (simp add: isEmptySlot_def)

text \<open>The two FNV-1a streams over a uuid that is not 16 bytes long.\<close>

definition fnv_step :: "u64 \<Rightarrow> char \<Rightarrow> u64 \<Rightarrow> u64" where
  "fnv_step prime c h = (h XOR of_char c) * prime"

definition messageIdFrom :: "string \<Rightarrow> message_id" where
  "messageIdFrom u =
     (if length u = 16
      then \<lparr>hi = load64 (take 8 u), lo = load64 (drop 8 u)\<rparr>
      else \<lparr>hi = fold (fnv_step 1099511628211) u 14695981039346656037,
            lo = fold (fnv_step 0x9e3779b97f4a7c15) u 0x2545f4914f6cdd1d\<rparr>)"

lemma messageIdFrom_inj:
  assumes "length a = 16" "length b = 16"
  shows "messageIdFrom a = messageIdFrom b \<longleftrightarrow> a = b"
  using assms load64_inj[of "take 8 a" "take 8 b"] load64_inj[of "drop 8 a" "drop 8 b"]
  by (auto simp: messageIdFrom_def) (metis append_take_drop_id)

section \<open>The open-addressed set\<close>

record id_set =
  m_slots :: "message_id list"
  m_count :: nat

definition new_id_set :: "nat \<Rightarrow> id_set" where
  "new_id_set cap = \<lparr>m_slots = replicate cap no_id, m_count = 0\<rparr>"

definition slot_mask :: "message_id list \<Rightarrow> u64" where
  "slot_mask slots = of_nat (length slots) - 1"

text \<open>The loop \<^verbatim>\<open>contains\<close> and \<^verbatim>\<open>insert\<close> share: whether the id was found, and the index it stopped at.\<close>

partial_function (option) probe :: "message_id list \<Rightarrow> message_id \<Rightarrow> u64 \<Rightarrow> (bool \<times> u64) option" where
  "probe slots i idx =
     (if isEmptySlot (slots ! unat idx) then Some (False, idx)
      else if slots ! unat idx = i then Some (True, idx)
      else probe slots i ((idx + 1) AND slot_mask slots))"

definition first_slot :: "message_id list \<Rightarrow> message_id \<Rightarrow> u64" where
  "first_slot slots i = MessageIdHash i AND slot_mask slots"

definition ids_contains :: "id_set \<Rightarrow> message_id \<Rightarrow> bool option" where
  "ids_contains s i = map_option fst (probe (m_slots s) i (first_slot (m_slots s) i))"

definition ids_insert :: "id_set \<Rightarrow> message_id \<Rightarrow> id_set option" where
  "ids_insert s i =
     (case probe (m_slots s) i (first_slot (m_slots s) i) of
        None \<Rightarrow> None
      | Some (True, idx) \<Rightarrow> Some s
      | Some (False, idx) \<Rightarrow>
          Some (s\<lparr>m_slots := (m_slots s)[unat idx := i], m_count := m_count s + 1\<rparr>))"

definition ids_size :: "id_set \<Rightarrow> nat" where
  "ids_size s = m_count s"

definition ids_clear :: "id_set \<Rightarrow> id_set" where
  "ids_clear s = s\<lparr>m_slots := replicate (length (m_slots s)) no_id, m_count := 0\<rparr>"

declare probe.simps [code]

section \<open>Slots on the probe path\<close>

text \<open>The slot at distance \<^verbatim>\<open>d\<close> from where the search for an id starts.\<close>

definition path_slot :: "message_id list \<Rightarrow> message_id \<Rightarrow> nat \<Rightarrow> nat" where
  "path_slot slots i d = (unat (MessageIdHash i) + d) mod length slots"

definition pow2_size :: "message_id list \<Rightarrow> bool" where
  "pow2_size slots \<longleftrightarrow> (\<exists>k<64. length slots = 2 ^ k)"

lemma pow2_size_pos: "pow2_size slots \<Longrightarrow> 0 < length slots"
  by (auto simp: pow2_size_def)

lemma path_slot_less [simp]: "pow2_size slots \<Longrightarrow> path_slot slots i d < length slots"
  unfolding path_slot_def by (rule mod_less_divisor[OF pow2_size_pos])

lemma unat_and_mask:
  assumes "pow2_size slots"
  shows "unat (w AND slot_mask slots) = unat w mod length slots"
proof -
  obtain k where k: "k < 64" "length slots = 2 ^ k" using assms by (auto simp: pow2_size_def)
  have "slot_mask slots = mask k"
    by (simp add: slot_mask_def k(2) mask_eq_exp_minus_1)
  then have "w AND slot_mask slots = take_bit k w" by (simp add: take_bit_eq_mask)
  then have "unat (w AND slot_mask slots) = take_bit k (unat w)" by (simp only: unsigned_take_bit_eq)
  then show ?thesis by (simp add: take_bit_eq_mod k(2))
qed

lemma first_slot_path: "pow2_size slots \<Longrightarrow> unat (first_slot slots i) = path_slot slots i 0"
  by (simp add: first_slot_def path_slot_def unat_and_mask)

lemma next_slot_path:
  assumes p: "pow2_size slots" and i: "unat idx = path_slot slots i d"
  shows "unat ((idx + 1) AND slot_mask slots) = path_slot slots i (Suc d)"
proof -
  obtain k where k: "k < 64" "length slots = 2 ^ k" using p by (auto simp: pow2_size_def)
  have "(2::nat) ^ k dvd 2 ^ 64" using k by (intro le_imp_power_dvd) simp
  then have "unat (idx + 1) mod length slots = (unat idx + 1) mod length slots"
    by (simp add: unat_word_ariths k(2) mod_mod_cancel)
  then show ?thesis
    by (simp add: unat_and_mask[OF p] i path_slot_def mod_Suc_eq)
qed

lemma path_slot_onto:
  assumes "j < length slots"
  shows "\<exists>d<length slots. path_slot slots i d = j"
proof -
  let ?n = "length slots" and ?h = "unat (MessageIdHash i)"
  let ?d = "(j + (?n - ?h mod ?n)) mod ?n"
  have n: "0 < ?n" using assms by auto
  have "(?h + ?d) mod ?n = (?h mod ?n + (j + (?n - ?h mod ?n))) mod ?n"
    by (simp add: mod_simps)
  also have "?h mod ?n + (j + (?n - ?h mod ?n)) = j + ?n"
    using n mod_less_divisor[of ?n ?h] by linarith
  finally show ?thesis
    using assms n by (intro exI[of _ ?d]) (simp add: path_slot_def)
qed

section \<open>The probe loop returns\<close>

text \<open>The first distance at which the search for an id stops.\<close>

definition stops_at :: "message_id list \<Rightarrow> message_id \<Rightarrow> nat \<Rightarrow> bool" where
  "stops_at slots i d \<longleftrightarrow>
     isEmptySlot (slots ! path_slot slots i d) \<or> slots ! path_slot slots i d = i"

lemma probe_from:
  assumes p: "pow2_size slots"
    and e: "stops_at slots i e" "\<And>d'. d' < e \<Longrightarrow> \<not> stops_at slots i d'"
  shows "d \<le> e \<Longrightarrow> unat idx = path_slot slots i d \<Longrightarrow>
    \<exists>j. probe slots i idx = Some (\<not> isEmptySlot (slots ! path_slot slots i e), j) \<and>
        unat j = path_slot slots i e"
proof (induction "e - d" arbitrary: d idx)
  case 0
  then have "d = e" by simp
  then show ?case
    using e(1) 0 by (subst probe.simps) (auto simp: stops_at_def)
next
  case (Suc n)
  then have "d < e" by simp
  then have "\<not> stops_at slots i d" by (rule e(2))
  moreover have "\<exists>j. probe slots i ((idx + 1) AND slot_mask slots) =
        Some (\<not> isEmptySlot (slots ! path_slot slots i e), j) \<and> unat j = path_slot slots i e"
    using Suc \<open>d < e\<close> by (intro Suc.hyps(1)[of "Suc d"] next_slot_path[OF p]) auto
  ultimately show ?case
    using Suc.prems(2) by (subst probe.simps) (simp add: stops_at_def)
qed

text \<open>On a table with a free slot the loop ends, at the first slot on the path that is free or holds the
  id.\<close>

lemma probe_returns:
  assumes p: "pow2_size slots" and free: "j < length slots" "isEmptySlot (slots ! j)"
  obtains e idx where "probe slots i (first_slot slots i) =
      Some (\<not> isEmptySlot (slots ! path_slot slots i e), idx)"
    "unat idx = path_slot slots i e" "stops_at slots i e"
    "\<And>d. d < e \<Longrightarrow> \<not> stops_at slots i d"
proof -
  obtain d0 where "path_slot slots i d0 = j" using path_slot_onto[OF free(1)] by auto
  then have "stops_at slots i d0" using free(2) by (simp add: stops_at_def)
  then obtain e where e: "stops_at slots i e" "\<And>d. d < e \<Longrightarrow> \<not> stops_at slots i d"
    using exists_least_iff[of "stops_at slots i"] by auto
  then show ?thesis
    using probe_from[OF p e, of 0 "first_slot slots i"] first_slot_path[OF p] that by auto
qed

section \<open>Invariant and abstraction\<close>

definition ids_abs :: "id_set \<Rightarrow> message_id set" where
  "ids_abs s = set (m_slots s) - {no_id}"

text \<open>Every stored id can be reached from its first slot without crossing a free one.\<close>

definition reachable_id :: "message_id list \<Rightarrow> message_id \<Rightarrow> bool" where
  "reachable_id slots i \<longleftrightarrow>
     (\<exists>d. slots ! path_slot slots i d = i \<and>
          (\<forall>d'<d. \<not> isEmptySlot (slots ! path_slot slots i d')))"

definition stored :: "message_id list \<Rightarrow> message_id list" where
  "stored slots = filter (\<lambda>x. \<not> isEmptySlot x) slots"

definition id_set_ok :: "id_set \<Rightarrow> bool" where
  "id_set_ok s \<longleftrightarrow>
     pow2_size (m_slots s) \<and>
     distinct (stored (m_slots s)) \<and>
     m_count s = length (stored (m_slots s)) \<and>
     m_count s < length (m_slots s) \<and>
     list_all (reachable_id (m_slots s)) (stored (m_slots s))"

lemma ids_abs_finite [simp]: "finite (ids_abs s)"
  by (simp add: ids_abs_def)

lemma set_stored: "set (stored (m_slots s)) = ids_abs s"
  by (auto simp: stored_def ids_abs_def isEmptySlot_iff)

lemma id_set_ok_size: "id_set_ok s \<Longrightarrow> ids_size s = card (ids_abs s)"
  by (auto simp: id_set_ok_def ids_size_def distinct_card simp flip: set_stored)

lemma free_slot:
  assumes "id_set_ok s"
  obtains j where "j < length (m_slots s)" "isEmptySlot (m_slots s ! j)"
proof -
  have "length (stored (m_slots s)) < length (m_slots s)" using assms by (simp add: id_set_ok_def)
  then have "\<exists>x\<in>set (m_slots s). isEmptySlot x"
    by (metis filter_True less_irrefl stored_def)
  then show ?thesis using that by (metis in_set_conv_nth)
qed

lemma stored_update:
  assumes "j < length slots" "isEmptySlot (slots ! j)" "\<not> isEmptySlot i"
  shows "mset (stored (slots[j := i])) = add_mset i (mset (stored slots))"
proof -
  have "mset (stored (slots[j := i])) = filter_mset (\<lambda>x. \<not> isEmptySlot x) (mset (slots[j := i]))"
    by (simp add: stored_def)
  also have "\<dots> = filter_mset (\<lambda>x. \<not> isEmptySlot x) (add_mset i (mset slots - {#slots ! j#}))"
    using assms by (simp only: mset_update)
  finally show ?thesis
    using assms by (simp add: stored_def filter_diff_mset)
qed

lemma ids_search:
  assumes ok: "id_set_ok s" and i: "\<not> isEmptySlot i"
  obtains e idx where "probe (m_slots s) i (first_slot (m_slots s) i) = Some (i \<in> ids_abs s, idx)"
    "unat idx = path_slot (m_slots s) i e"
    "i \<notin> ids_abs s \<Longrightarrow> isEmptySlot (m_slots s ! unat idx)"
    "\<And>d. d < e \<Longrightarrow> \<not> isEmptySlot (m_slots s ! path_slot (m_slots s) i d)"
proof -
  let ?sl = "m_slots s"
  have p: "pow2_size ?sl" using ok by (simp add: id_set_ok_def)
  obtain j where "j < length ?sl" "isEmptySlot (?sl ! j)" by (rule free_slot[OF ok])
  from probe_returns[OF p this] obtain e idx where
    pr: "probe ?sl i (first_slot ?sl i) = Some (\<not> isEmptySlot (?sl ! path_slot ?sl i e), idx)"
    and idx: "unat idx = path_slot ?sl i e" and e: "stops_at ?sl i e"
    and least: "\<And>d. d < e \<Longrightarrow> \<not> stops_at ?sl i d" by blast
  have "(\<not> isEmptySlot (?sl ! path_slot ?sl i e)) = (i \<in> ids_abs s)"
  proof
    assume "\<not> isEmptySlot (?sl ! path_slot ?sl i e)"
    with e have "?sl ! path_slot ?sl i e = i" by (simp add: stops_at_def)
    with i p show "i \<in> ids_abs s"
      unfolding ids_abs_def isEmptySlot_iff by (metis Diff_iff nth_mem path_slot_less singletonD)
  next
    assume "i \<in> ids_abs s"
    then have "reachable_id ?sl i"
      using ok by (auto simp: id_set_ok_def list_all_iff set_stored)
    then obtain d where d: "?sl ! path_slot ?sl i d = i"
      "\<And>d'. d' < d \<Longrightarrow> \<not> isEmptySlot (?sl ! path_slot ?sl i d')" by (auto simp: reachable_id_def)
    then have "stops_at ?sl i d" by (simp add: stops_at_def)
    then have "e \<le> d" using least by (meson not_le)
    then show "\<not> isEmptySlot (?sl ! path_slot ?sl i e)"
      using d i by (cases "e = d") auto
  qed
  then show ?thesis
    using that[of idx e] pr idx least by (auto simp: stops_at_def)
qed

lemma ids_contains_iff: "id_set_ok s \<Longrightarrow> \<not> isEmptySlot i \<Longrightarrow> ids_contains s i = Some (i \<in> ids_abs s)"
  unfolding ids_contains_def by (erule ids_search) auto

lemma nth_list_update': "j < length xs \<Longrightarrow> xs[j := x] ! k = (if k = j then x else xs ! k)"
  by simp

lemma reachable_id_update:
  assumes "reachable_id slots x" "j < length slots" "isEmptySlot (slots ! j)" "\<not> isEmptySlot i" "\<not> isEmptySlot x"
    "pow2_size slots"
  shows "reachable_id (slots[j := i]) x"
proof -
  obtain d where d: "slots ! path_slot slots x d = x"
    "\<And>d'. d' < d \<Longrightarrow> \<not> isEmptySlot (slots ! path_slot slots x d')"
    using assms(1) by (auto simp: reachable_id_def)
  have ps: "path_slot (slots[j := i]) x k = path_slot slots x k" for k
    by (simp add: path_slot_def)
  have "path_slot slots x d \<noteq> j" using d(1) assms by auto
  then show ?thesis
    unfolding reachable_id_def ps
    using d assms(2-4) by (intro exI[of _ d]) (auto simp: nth_list_update')
qed

lemma ids_insert_spec:
  assumes ok: "id_set_ok s" and i: "\<not> isEmptySlot i" and room: "Suc (m_count s) < length (m_slots s)"
  shows "\<exists>s'. ids_insert s i = Some s' \<and> id_set_ok s' \<and> ids_abs s' = insert i (ids_abs s) \<and>
    length (m_slots s') = length (m_slots s)"
proof (cases "i \<in> ids_abs s")
  case True
  with ok show ?thesis
    unfolding ids_insert_def by (rule_tac ids_search[OF ok i]) (auto simp: insert_absorb)
next
  case False
  let ?sl = "m_slots s"
  obtain e idx where pr: "probe ?sl i (first_slot ?sl i) = Some (False, idx)"
    and idx: "unat idx = path_slot ?sl i e" and emp: "isEmptySlot (?sl ! unat idx)"
    and path: "\<And>d. d < e \<Longrightarrow> \<not> isEmptySlot (?sl ! path_slot ?sl i d)"
    using False by (rule_tac ids_search[OF ok i]) auto
  have p: "pow2_size ?sl" using ok by (simp add: id_set_ok_def)
  then have lt: "unat idx < length ?sl" by (simp add: idx)
  let ?s' = "s\<lparr>m_slots := ?sl[unat idx := i], m_count := m_count s + 1\<rparr>"
  have ms: "mset (stored (?sl[unat idx := i])) = add_mset i (mset (stored ?sl))"
    by (rule stored_update[OF lt emp i])
  then have set_eq: "set (stored (?sl[unat idx := i])) = insert i (set (stored ?sl))"
    by (metis set_mset_add_mset_insert set_mset_mset)
  have dist: "distinct (stored (?sl[unat idx := i]))"
    using False ok ms mset_eq_imp_distinct_iff[of "stored (?sl[unat idx := i])" "i # stored ?sl"]
    by (simp add: set_stored id_set_ok_def)
  have ps: "path_slot (?sl[unat idx := i]) x k = path_slot ?sl x k" for x k
    by (simp add: path_slot_def)
  have "reachable_id (?sl[unat idx := i]) i"
    unfolding reachable_id_def ps
    using path lt i path_slot_less[OF p] by (intro exI[of _ e]) (auto simp: idx[symmetric] nth_list_update)
  moreover have "reachable_id (?sl[unat idx := i]) x" if "x \<in> set (stored ?sl)" for x
    using that ok lt emp i p
    by (intro reachable_id_update) (auto simp: id_set_ok_def list_all_iff stored_def)
  ultimately have "id_set_ok ?s'"
    using ok room p dist arg_cong[OF ms, of size]
    by (auto simp: id_set_ok_def list_all_iff set_eq pow2_size_def)
  moreover have "ids_abs ?s' = insert i (ids_abs s)"
    using set_eq set_stored[of ?s'] set_stored[of s] by simp
  ultimately show ?thesis by (simp add: ids_insert_def pr)
qed

lemma ids_clear_spec:
  "id_set_ok s \<Longrightarrow> id_set_ok (ids_clear s) \<and> ids_abs (ids_clear s) = {} \<and>
   length (m_slots (ids_clear s)) = length (m_slots s)"
  using pow2_size_pos[of "m_slots s"]
  by (auto simp: id_set_ok_def ids_clear_def ids_abs_def stored_def isEmptySlot_iff pow2_size_def)

lemma new_id_set_spec:
  "k < 64 \<Longrightarrow> id_set_ok (new_id_set (2 ^ k)) \<and> ids_abs (new_id_set (2 ^ k)) = {}"
  by (auto simp: id_set_ok_def new_id_set_def ids_abs_def stored_def isEmptySlot_iff pow2_size_def)

section \<open>The contract of an id store\<close>

text \<open>What \<^verbatim>\<open>isDuplicate\<close> relies on: a store that answers membership and takes insertions while it is below
  its capacity, for every id but the reserved one.\<close>

locale id_store =
  fixes invar :: "'s \<Rightarrow> bool"
    and elems :: "'s \<Rightarrow> 'i set"
    and valid :: "'i \<Rightarrow> bool"
    and cap :: "'s \<Rightarrow> nat"
    and mem :: "'s \<Rightarrow> 'i \<Rightarrow> bool option"
    and ins :: "'s \<Rightarrow> 'i \<Rightarrow> 's option"
    and wipe :: "'s \<Rightarrow> 's"
    and count :: "'s \<Rightarrow> nat"
  assumes mem_elems: "invar s \<Longrightarrow> valid i \<Longrightarrow> mem s i = Some (i \<in> elems s)"
    and ins_elems: "invar s \<Longrightarrow> valid i \<Longrightarrow> Suc (count s) < cap s \<Longrightarrow>
      \<exists>s'. ins s i = Some s' \<and> invar s' \<and> elems s' = insert i (elems s) \<and> cap s' = cap s"
    and wipe_elems: "invar s \<Longrightarrow> invar (wipe s) \<and> elems (wipe s) = {} \<and> cap (wipe s) = cap s"
    and count_elems: "invar s \<Longrightarrow> count s = card (elems s)"
    and elems_finite: "finite (elems s)"
begin

lemma ins_mem:
  "invar s \<Longrightarrow> valid i \<Longrightarrow> valid j \<Longrightarrow> Suc (count s) < cap s \<Longrightarrow>
   \<exists>s'. ins s i = Some s' \<and> mem s' j = Some (j = i \<or> j \<in> elems s)"
  using ins_elems[of s i] by (auto simp: mem_elems)

lemma ins_fresh_count:
  assumes "invar s" "valid i" "Suc (count s) < cap s" "i \<notin> elems s" "ins s i = Some s'"
  shows "count s' = Suc (count s)"
  using ins_elems[OF assms(1-3)] assms elems_finite by (auto simp: count_elems)

lemma wipe_mem: "invar s \<Longrightarrow> valid i \<Longrightarrow> mem (wipe s) i = Some False"
  by (simp add: wipe_elems mem_elems)

lemma wipe_count: "invar s \<Longrightarrow> count (wipe s) = 0"
  by (simp add: wipe_elems count_elems)

end

interpretation ids: id_store id_set_ok ids_abs "\<lambda>i. \<not> isEmptySlot i" "\<lambda>s. length (m_slots s)"
  ids_contains ids_insert ids_clear ids_size
  by unfold_locales
    (simp_all add: ids_contains_iff ids_insert_spec ids_clear_spec id_set_ok_size ids_size_def[symmetric])

section \<open>Two rotating windows\<close>

definition MaxHistorySize :: nat where
  "MaxHistorySize = 10000"

definition DedupSetCapacity :: nat where
  "DedupSetCapacity = 32768"

record seen_windows =
  m_seenCurrent :: id_set
  m_seenPrevious :: id_set

text \<open>The id a uuid is remembered under: \<^verbatim>\<open>{0,0}\<close> is the free-slot marker and is remapped.\<close>

definition dedup_id :: "string \<Rightarrow> message_id" where
  "dedup_id u = (let i = messageIdFrom u in if hi i = 0 \<and> lo i = 0 then i\<lparr>lo := 1\<rparr> else i)"

definition isDuplicate :: "'a seen_windows_scheme \<Rightarrow> string \<Rightarrow> (bool \<times> 'a seen_windows_scheme) option" where
  "isDuplicate b u =
     (let i = dedup_id u in
      do {
        inCurrent \<leftarrow> ids_contains (m_seenCurrent b) i;
        if inCurrent then Some (True, b)
        else do {
          inPrevious \<leftarrow> ids_contains (m_seenPrevious b) i;
          if inPrevious then Some (True, b)
          else do {
            current \<leftarrow> ids_insert (m_seenCurrent b) i;
            Some (False,
              if MaxHistorySize \<le> ids_size current
              then b\<lparr>m_seenCurrent := ids_clear (m_seenPrevious b), m_seenPrevious := current\<rparr>
              else b\<lparr>m_seenCurrent := current\<rparr>)
          }
        }
      })"

definition fresh_windows :: seen_windows where
  "fresh_windows = \<lparr>m_seenCurrent = new_id_set DedupSetCapacity, m_seenPrevious = new_id_set DedupSetCapacity\<rparr>"

text \<open>A run of arrivals, with the verdict on each.\<close>

primrec isDuplicate_all ::
  "'a seen_windows_scheme \<Rightarrow> string list \<Rightarrow> (bool list \<times> 'a seen_windows_scheme) option" where
  "isDuplicate_all b [] = Some ([], b)"
| "isDuplicate_all b (u # us) =
     do { (d, b') \<leftarrow> isDuplicate b u; (ds, b'') \<leftarrow> isDuplicate_all b' us; Some (d # ds, b'') }"

subsection \<open>The windows as sets\<close>

type_synonym id_windows = "message_id set \<times> message_id set"

definition see :: "id_windows \<Rightarrow> message_id \<Rightarrow> bool \<times> id_windows" where
  "see w i =
     (if i \<in> fst w \<union> snd w then (True, w)
      else (False, if MaxHistorySize \<le> card (insert i (fst w)) then ({}, insert i (fst w))
                   else (insert i (fst w), snd w)))"

primrec see_all :: "id_windows \<Rightarrow> message_id list \<Rightarrow> bool list \<times> id_windows" where
  "see_all w [] = ([], w)"
| "see_all w (i # is) =
     (let (d, w') = see w i; (ds, w'') = see_all w' is in (d # ds, w''))"

definition windows_abs :: "'a seen_windows_scheme \<Rightarrow> id_windows" where
  "windows_abs b = (ids_abs (m_seenCurrent b), ids_abs (m_seenPrevious b))"

definition windows_ok :: "'a seen_windows_scheme \<Rightarrow> bool" where
  "windows_ok b \<longleftrightarrow>
     id_set_ok (m_seenCurrent b) \<and> id_set_ok (m_seenPrevious b) \<and>
     length (m_slots (m_seenCurrent b)) = DedupSetCapacity \<and>
     length (m_slots (m_seenPrevious b)) = DedupSetCapacity \<and>
     ids_size (m_seenCurrent b) < MaxHistorySize"

lemma dedup_id_valid [simp]: "\<not> isEmptySlot (dedup_id u)"
  by (auto simp: dedup_id_def isEmptySlot_def Let_def)

lemma isDuplicate_refines:
  assumes b: "windows_ok b"
  obtains b' where "isDuplicate b u = Some (fst (see (windows_abs b) (dedup_id u)), b')"
    "windows_ok b'" "windows_abs b' = snd (see (windows_abs b) (dedup_id u))"
    "seen_windows.more b' = seen_windows.more b"
proof (cases "dedup_id u \<in> ids_abs (m_seenCurrent b) \<union> ids_abs (m_seenPrevious b)")
  case True
  then show ?thesis
    using b by (intro that[of b]) (auto simp: isDuplicate_def Let_def windows_ok_def ids.mem_elems see_def windows_abs_def)
next
  case False
  have room: "Suc (ids_size (m_seenCurrent b)) < length (m_slots (m_seenCurrent b))"
    using b by (simp add: windows_ok_def MaxHistorySize_def DedupSetCapacity_def)
  obtain c where c: "ids_insert (m_seenCurrent b) (dedup_id u) = Some c" "id_set_ok c"
    "ids_abs c = insert (dedup_id u) (ids_abs (m_seenCurrent b))" "length (m_slots c) = DedupSetCapacity"
    using ids.ins_elems[OF _ dedup_id_valid[of u] room] b by (auto simp: windows_ok_def)
  let ?b' = "if MaxHistorySize \<le> ids_size c
      then b\<lparr>m_seenCurrent := ids_clear (m_seenPrevious b), m_seenPrevious := c\<rparr>
      else b\<lparr>m_seenCurrent := c\<rparr>"
  have "windows_ok ?b'"
    using b c by (auto simp: windows_ok_def ids.wipe_elems ids.wipe_count MaxHistorySize_def)
  moreover have "windows_abs ?b' = snd (see (windows_abs b) (dedup_id u))"
    using False b c by (auto simp: windows_abs_def see_def ids.wipe_elems ids.count_elems windows_ok_def)
  moreover have "isDuplicate b u = Some (fst (see (windows_abs b) (dedup_id u)), ?b')"
    using False b c(1) by (simp add: isDuplicate_def ids.mem_elems windows_ok_def see_def windows_abs_def)
  ultimately show ?thesis by (intro that[of ?b']) auto
qed

lemma isDuplicate_all_refines:
  "windows_ok b \<Longrightarrow>
   \<exists>b'. isDuplicate_all b us = Some (fst (see_all (windows_abs b) (map dedup_id us)), b') \<and>
     windows_ok b' \<and> windows_abs b' = snd (see_all (windows_abs b) (map dedup_id us))"
proof (induction us arbitrary: b)
  case (Cons u us)
  obtain b1 where b1: "isDuplicate b u = Some (fst (see (windows_abs b) (dedup_id u)), b1)"
    "windows_ok b1" "windows_abs b1 = snd (see (windows_abs b) (dedup_id u))"
    by (rule isDuplicate_refines[OF Cons.prems, of u])
  from Cons.IH[OF b1(2)] b1(1,3) show ?case by (auto simp: split_def Let_def)
qed simp

lemma windows_ok_fresh [simp]: "windows_ok fresh_windows" "windows_abs fresh_windows = ({}, {})"
proof -
  have "id_set_ok (new_id_set DedupSetCapacity)" "ids_abs (new_id_set DedupSetCapacity) = {}"
    "length (m_slots (new_id_set DedupSetCapacity)) = DedupSetCapacity"
    using new_id_set_spec[of 15] by (simp_all add: DedupSetCapacity_def new_id_set_def)
  then show "windows_ok fresh_windows" "windows_abs fresh_windows = ({}, {})"
    by (auto simp: windows_ok_def fresh_windows_def windows_abs_def ids.count_elems MaxHistorySize_def)
qed

subsection \<open>What the windows remember\<close>

lemma length_see_all [simp]: "length (fst (see_all w is)) = length is"
  by (induction "is" arbitrary: w) (auto simp: Let_def split_def)

lemma see_all_append:
  "see_all w (is @ js) =
   (fst (see_all w is) @ fst (see_all (snd (see_all w is)) js), snd (see_all (snd (see_all w is)) js))"
  by (induction "is" arbitrary: w) (auto simp: Let_def split_def)

lemma see_all_sound:
  "j < length is \<Longrightarrow> fst (see_all w is) ! j \<Longrightarrow>
   is ! j \<in> fst w \<union> snd w \<or> (\<exists>k<j. \<not> fst (see_all w is) ! k \<and> is ! k = is ! j)"
proof (induction "is" arbitrary: w j)
  case (Cons i "is")
  show ?case
  proof (cases j)
    case 0
    then show ?thesis using Cons.prems by (auto simp: Let_def split_def see_def split: if_splits)
  next
    case (Suc j')
    let ?w = "snd (see w i)"
    have "is ! j' \<in> fst ?w \<union> snd ?w \<or> (\<exists>k<j'. \<not> fst (see_all ?w is) ! k \<and> is ! k = is ! j')"
      using Cons.prems Suc by (intro Cons.IH) (auto simp: Let_def split_def)
    then show ?thesis
    proof
      assume "is ! j' \<in> fst ?w \<union> snd ?w"
      then have "is ! j' \<in> fst w \<union> snd w \<or> (\<not> fst (see w i) \<and> is ! j' = i)"
        by (auto simp: see_def split: if_splits)
      then show ?thesis using Suc by (auto simp: Let_def split_def)
    next
      assume "\<exists>k<j'. \<not> fst (see_all ?w is) ! k \<and> is ! k = is ! j'"
      then obtain k where "k < j'" "\<not> fst (see_all ?w is) ! k" "is ! k = is ! j'" by blast
      then show ?thesis using Suc by (intro disjI2 exI[of _ "Suc k"]) (auto simp: Let_def split_def)
    qed
  qed
qed simp

text \<open>An id survives \<^verbatim>\<open>k\<close> more fresh ids.\<close>

definition survives :: "message_id \<Rightarrow> nat \<Rightarrow> id_windows \<Rightarrow> bool" where
  "survives i k w \<longleftrightarrow>
     finite (fst w) \<and> card (fst w) < MaxHistorySize \<and> k < MaxHistorySize \<and>
     (i \<in> fst w \<or> i \<in> snd w \<and> card (fst w) + k < MaxHistorySize)"

lemma survives_known: "survives i k w \<Longrightarrow> fst (see w i)"
  by (auto simp: survives_def see_def)

lemma survives_start:
  "finite (fst w) \<Longrightarrow> card (fst w) < MaxHistorySize \<Longrightarrow> \<not> fst (see w i) \<Longrightarrow>
   survives i (MaxHistorySize - 1) (snd (see w i))"
  by (auto simp: survives_def see_def card_insert_if MaxHistorySize_def split: if_splits)

lemma survives_step:
  "survives i k w \<Longrightarrow> (if fst (see w j) then k' = k else Suc k' = k) \<Longrightarrow> survives i k' (snd (see w j))"
  by (auto simp: survives_def see_def card_insert_if MaxHistorySize_def split: if_splits)

lemma survives_all:
  "survives i k w \<Longrightarrow> length (filter Not (fst (see_all w is))) \<le> k \<Longrightarrow>
   survives i (k - length (filter Not (fst (see_all w is)))) (snd (see_all w is))"
proof (induction "is" arbitrary: w k)
  case (Cons j "is")
  show ?case
  proof (cases "fst (see w j)")
    case True
    then show ?thesis
      using Cons.prems Cons.IH[OF survives_step[OF Cons.prems(1), of j k]] by (auto simp: Let_def split_def)
  next
    case False
    then obtain k' where "k = Suc k'" using Cons.prems by (cases k) (auto simp: Let_def split_def)
    then show ?thesis
      using False Cons.prems Cons.IH[OF survives_step[OF Cons.prems(1), of j k']]
      by (auto simp: Let_def split_def)
  qed
qed simp

lemma see_all_bounded:
  "finite (fst w) \<Longrightarrow> card (fst w) < MaxHistorySize \<Longrightarrow>
   finite (fst (snd (see_all w is))) \<and> card (fst (snd (see_all w is))) < MaxHistorySize"
proof (induction "is" arbitrary: w)
  case (Cons i "is")
  have "finite (fst (snd (see w i))) \<and> card (fst (snd (see w i))) < MaxHistorySize"
    using Cons.prems by (auto simp: see_def MaxHistorySize_def)
  then show ?case using Cons.IH by (simp add: Let_def split_def)
qed simp

lemma see_all_window:
  assumes "finite (fst w)" "card (fst w) < MaxHistorySize"
    and ij: "i < j" "j < length is" "is ! i = is ! j" "\<not> fst (see_all w is) ! i"
    and few: "length (filter Not (drop (Suc i) (take j (fst (see_all w is))))) < MaxHistorySize"
  shows "fst (see_all w is) ! j"
proof -
  define a where "a = take i is"
  define m where "m = drop (Suc i) (take j is)"
  define z where "z = drop (Suc j) is"
  have "take j is = a @ is ! i # m"
    using id_take_nth_drop[of i "take j is"] ij(1,2) by (simp add: a_def m_def min_absorb1)
  moreover have "is = take j is @ is ! j # z"
    unfolding z_def by (rule id_take_nth_drop[OF ij(2)])
  ultimately have split: "is = a @ is ! i # m @ is ! j # z"
    by (metis append.assoc append_Cons)
  have la: "length a = i" "length m = j - Suc i" using ij by (auto simp: a_def m_def)
  define w1 where "w1 = snd (see_all w a)"
  define w2 where "w2 = snd (see w1 (is ! i))"
  have res: "fst (see_all w is) = fst (see_all w a) @ fst (see w1 (is ! i)) # fst (see_all w2 m) @
      fst (see (snd (see_all w2 m)) (is ! j)) # fst (see_all (snd (see (snd (see_all w2 m)) (is ! j))) z)"
    by (subst split) (simp add: see_all_append w1_def w2_def Let_def split_def)
  have fresh: "\<not> fst (see w1 (is ! i))" using ij(4) by (simp add: res nth_append la)
  have "drop (Suc i) (take j (fst (see_all w is))) = fst (see_all w2 m)"
    using ij(1) by (simp add: res la take_Cons' drop_Cons')
  then have "length (filter Not (fst (see_all w2 m))) \<le> MaxHistorySize - 1" using few by simp
  moreover have "survives (is ! i) (MaxHistorySize - 1) w2"
    unfolding w2_def using see_all_bounded[OF assms(1,2), of a] fresh
    by (intro survives_start) (auto simp: w1_def)
  ultimately have "fst (see (snd (see_all w2 m)) (is ! j))"
    using survives_known[OF survives_all] ij(3) by simp
  then show ?thesis using ij(1) by (simp add: res nth_append la)
qed

section \<open>Properties\<close>

text \<open>C15. On every reachable set with room - a power-of-two table in which an id can be
  found from its first slot - the two probe loops end: contains answers membership exactly, insert adds
  exactly the id and keeps the table well formed, and the count is the number of ids stored.\<close>

theorem id_set_total:
  assumes "id_set_ok s" "\<not> isEmptySlot i" "Suc (ids_size s) < length (m_slots s)"
  shows "ids_contains s i = Some (i \<in> ids_abs s) \<and>
    (\<exists>s'. ids_insert s i = Some s' \<and> id_set_ok s' \<and> ids_abs s' = insert i (ids_abs s) \<and>
       ids_size s' = card (insert i (ids_abs s)))"
  using ids.mem_elems[OF assms(1,2)] ids.ins_elems[OF assms] by (auto simp: ids.count_elems)

theorem id_set_total_witness:
  "id_set_ok (new_id_set 4) \<and> ids_contains (new_id_set 4) \<lparr>hi = 5, lo = 9\<rparr> = Some False \<and>
   (\<exists>s'. ids_insert (new_id_set 4) \<lparr>hi = 5, lo = 9\<rparr> = Some s' \<and> ids_abs s' = {\<lparr>hi = 5, lo = 9\<rparr>})"
proof -
  have ok: "id_set_ok (new_id_set 4)" "ids_abs (new_id_set 4) = {}" using new_id_set_spec[of 2] by simp_all
  have len: "length (m_slots (new_id_set 4)) = 4" "ids_size (new_id_set 4) = 0"
    by (simp_all add: new_id_set_def ids_size_def)
  show ?thesis
    using id_set_total[OF ok(1), of "\<lparr>hi = 5, lo = 9\<rparr>"] ok len by (auto simp: isEmptySlot_def)
qed

text \<open>C16. The duplicate filter, run over any sequence of message uuids from the broker's
  initial windows, always answers; a uuid is called a duplicate only if an earlier uuid of the sequence
  with the same 128-bit id was let through, and every repeat of an id that was let through is called a
  duplicate as long as fewer than MaxHistorySize fresh ids came in between.\<close>

theorem dedup_exact:
  "\<exists>ds b'. isDuplicate_all fresh_windows us = Some (ds, b') \<and> length ds = length us \<and>
     (\<forall>j<length us. ds ! j \<longrightarrow> (\<exists>i<j. \<not> ds ! i \<and> dedup_id (us ! i) = dedup_id (us ! j))) \<and>
     (\<forall>j<length us. \<forall>i<j. \<not> ds ! i \<longrightarrow> dedup_id (us ! i) = dedup_id (us ! j) \<longrightarrow>
        length (filter Not (drop (Suc i) (take j ds))) < MaxHistorySize \<longrightarrow> ds ! j)"
proof -
  let ?is = "map dedup_id us" and ?w = "({}, {}) :: id_windows"
  let ?ds = "fst (see_all ?w ?is)"
  obtain b' where "isDuplicate_all fresh_windows us = Some (?ds, b')"
    using isDuplicate_all_refines[OF windows_ok_fresh(1), of us] by auto
  moreover have "\<exists>i<j. \<not> ?ds ! i \<and> dedup_id (us ! i) = dedup_id (us ! j)" if "j < length us" "?ds ! j" for j
    using see_all_sound[of j ?is ?w] that by auto
  moreover have "?ds ! j" if "j < length us" "i < j" "\<not> ?ds ! i" "dedup_id (us ! i) = dedup_id (us ! j)"
    "length (filter Not (drop (Suc i) (take j ?ds))) < MaxHistorySize" for i j
    using see_all_window[of ?w i j ?is] that by (simp add: MaxHistorySize_def)
  ultimately show ?thesis by (intro exI[of _ ?ds] exI[of _ b']) simp
qed

theorem dedup_exact_witness:
  "\<exists>ds b'. isDuplicate_all fresh_windows [''a'', ''b'', ''a''] = Some (ds, b') \<and> ds = [False, False, True]"
proof -
  have ab: "dedup_id ''b'' \<noteq> dedup_id ''a''"
    by (simp add: dedup_id_def messageIdFrom_def fnv_step_def Let_def)
  obtain ds b' where r: "isDuplicate_all fresh_windows [''a'', ''b'', ''a''] = Some (ds, b')" "length ds = 3"
    and sound: "\<forall>j<3. ds ! j \<longrightarrow> (\<exists>i<j. \<not> ds ! i \<and>
        dedup_id ([''a'', ''b'', ''a''] ! i) = dedup_id ([''a'', ''b'', ''a''] ! j))"
    and window: "\<forall>j<3. \<forall>i<j. \<not> ds ! i \<longrightarrow>
        dedup_id ([''a'', ''b'', ''a''] ! i) = dedup_id ([''a'', ''b'', ''a''] ! j) \<longrightarrow>
        length (filter Not (drop (Suc i) (take j ds))) < MaxHistorySize \<longrightarrow> ds ! j"
    using dedup_exact[of "[''a'', ''b'', ''a'']"] by (auto simp: numeral_3_eq_3)
  from r(2) obtain d0 d1 d2 where ds: "ds = [d0, d1, d2]"
    by (auto simp: numeral_3_eq_3 length_Suc_conv)
  have "\<not> d0" using sound[rule_format, of 0] ds by auto
  moreover have "\<not> d1" using sound[rule_format, of 1] ds ab by auto
  moreover have "d2" using window[rule_format, of 2 0] ds \<open>\<not> d0\<close> by (simp add: MaxHistorySize_def)
  ultimately show ?thesis using r ds by blast
qed

end
