(* ===== verification/Uuid.thy ===== *)
theory Uuid
  imports Message_Id_Set
begin

text \<open>The uuid generators of \<^verbatim>\<open>common/uuidhelper.h\<close>. The random engine is not part of the repository: what it
  draws is an argument, the sequence of hex digits for the text form and two 64-bit words for the binary
  form. The lemmas give the version-4 layout of both and that two binary uuids are the same message to
  the duplicate filter only if the random bits that survive the masks are the same.\<close>

definition hexChars :: string where
  "hexChars = ''0123456789abcdef''"

text \<open>The text form fills a string of 36 blanks: the dashes, then each run of digits in index order. The
  draws of \<^verbatim>\<open>dis\<close> are \<^verbatim>\<open>ds\<close> in the order they are made, the one draw of \<^verbatim>\<open>dis2\<close> is \<^verbatim>\<open>v\<close>.\<close>

definition set_hexes :: "nat list \<Rightarrow> nat list \<Rightarrow> string \<Rightarrow> string" where
  "set_hexes idxs ds u = fold (\<lambda>(i, d) u. u[i := hexChars ! d]) (zip idxs ds) u"

definition generateUUID :: "nat list \<Rightarrow> nat \<Rightarrow> string" where
  "generateUUID ds v =
     (let u0 = (replicate 36 (CHR '' ''))[8 := CHR ''-'', 13 := CHR ''-'', 18 := CHR ''-'', 23 := CHR ''-''];
          u1 = set_hexes [0..<8] ds u0;
          u2 = set_hexes [9..<13] (drop 8 ds) u1;
          u3 = u2[14 := CHR ''4''];
          u4 = set_hexes [15..<18] (drop 12 ds) u3;
          u5 = u4[19 := hexChars ! v];
          u6 = set_hexes [20..<23] (drop 15 ds) u5
      in set_hexes [24..<36] (drop 18 ds) u6)"

definition generateBinaryUUID :: "u64 \<Rightarrow> u64 \<Rightarrow> string" where
  "generateBinaryUUID g1 g2 =
     (let h = (g1 AND 0xffffffffffff0fff) OR 0x0000000000004000;
          l = (g2 AND 0x3fffffffffffffff) OR 0x8000000000000000
      in store64_be h @ store64_be l)"

section \<open>Layout\<close>

lemma set_hexes_range:
  "a + n \<le> length u \<Longrightarrow> n \<le> length ds \<Longrightarrow>
   set_hexes [a..<a + n] ds u = take a u @ map ((!) hexChars) (take n ds) @ drop (a + n) u"
proof (induction n arbitrary: a ds u)
  case 0
  then show ?case by (simp add: set_hexes_def)
next
  case (Suc n)
  then obtain d ds' where ds: "ds = d # ds'" by (cases ds) auto
  have "set_hexes [a..<a + Suc n] ds u = set_hexes [Suc a..<Suc a + n] ds' (u[a := hexChars ! d])"
    by (simp add: set_hexes_def ds upt_conv_Cons del: upt_Suc)
  also have "\<dots> = take (Suc a) (u[a := hexChars ! d]) @ map ((!) hexChars) (take n ds') @
      drop (Suc a + n) (u[a := hexChars ! d])"
    using Suc.prems ds by (intro Suc.IH) auto
  finally show ?case
    using Suc.prems by (simp add: ds take_Suc_conv_app_nth)
qed

lemma hexChars_set: "d < 16 \<Longrightarrow> hexChars ! d \<in> set hexChars"
  by (rule nth_mem) (simp add: hexChars_def)

text \<open>The text uuid spelt out.\<close>

lemma generateUUID_eq:
  assumes "length ds = 30"
  shows "generateUUID ds v =
    map ((!) hexChars) (take 8 ds) @ ''-'' @ map ((!) hexChars) (take 4 (drop 8 ds)) @ ''-4'' @
    map ((!) hexChars) (take 3 (drop 12 ds)) @ ''-'' @ [hexChars ! v] @
    map ((!) hexChars) (take 3 (drop 15 ds)) @ ''-'' @ map ((!) hexChars) (take 12 (drop 18 ds))"
  using assms set_hexes_range[of 0 8] set_hexes_range[of 9 4] set_hexes_range[of 15 3]
    set_hexes_range[of 20 3] set_hexes_range[of 24 12]
  by (simp add: generateUUID_def Let_def numeral_eq_Suc replicate_Suc list_update_append)

lemma nth_store64_be: "i < 8 \<Longrightarrow> (of_char (store64_be w ! i) :: nat) = unat w div 256 ^ (7 - i) mod 256"
  by (simp add: store64_be_def store64_def rev_nth nth_nat_le)

lemma unat_div_pow2: "unat (w :: u64) div 2 ^ k mod 2 ^ n = unat (take_bit n (drop_bit k w))"
proof -
  have "unat w < 2 ^ 64" using unsigned_less[of w, where 'a = nat] by simp
  then show ?thesis
    by (simp only: unsigned_take_bit_eq unsigned_drop_bit_eq) (simp add: take_bit_eq_mod drop_bit_eq_div)
qed

lemma version_nibble: "unat (((g1 :: u64) AND 0xffffffffffff0fff) OR 0x4000) div 2 ^ 12 mod 2 ^ 4 = 4"
  unfolding unat_div_pow2 by (simp add: take_bit_or take_bit_and)

lemma variant_bits: "unat (((g2 :: u64) AND 0x3fffffffffffffff) OR 0x8000000000000000) div 2 ^ 62 mod 2 ^ 2 = 2"
  unfolding unat_div_pow2 by (simp add: take_bit_or take_bit_and)

lemma or_bits_cancel:
  fixes a b m k :: u64
  assumes "m AND k = 0"
  shows "(a AND m) OR k = (b AND m) OR k \<longleftrightarrow> a AND m = b AND m"
proof
  assume "(a AND m) OR k = (b AND m) OR k"
  then have "((a AND m) OR k) AND m = ((b AND m) OR k) AND m" by simp
  then show "a AND m = b AND m"
    using assms by (simp add: and.commute and.left_commute bit.conj_disj_distrib flip: and.assoc)
qed simp

lemma generateBinaryUUID_inj:
  "generateBinaryUUID a b = generateBinaryUUID a' b' \<longleftrightarrow>
   a AND 0xffffffffffff0fff = a' AND 0xffffffffffff0fff \<and>
   b AND 0x3fffffffffffffff = b' AND 0x3fffffffffffffff"
  by (simp add: generateBinaryUUID_def Let_def or_bits_cancel)

lemma load64_zeros [simp]: "load64 (replicate 8 (CHR 0x00)) = 0"
  by (simp add: load64_def eval_nat_numeral)

lemma dedup_id_inj:
  assumes "length u = 16" "length u' = 16" "\<exists>c\<in>set u. c \<noteq> CHR 0x00" "\<exists>c\<in>set u'. c \<noteq> CHR 0x00"
  shows "dedup_id u = dedup_id u' \<longleftrightarrow> u = u'"
proof -
  have "messageIdFrom v \<noteq> no_id" if "length v = 16" "\<exists>c\<in>set v. c \<noteq> CHR 0x00" for v
  proof
    assume "messageIdFrom v = no_id"
    also have "no_id = messageIdFrom (replicate 16 (CHR 0x00))"
      by (simp add: messageIdFrom_def load64_zeros)
    finally have "v = replicate 16 (CHR 0x00)"
      using messageIdFrom_inj[of v "replicate 16 (CHR 0x00)"] that(1) by simp
    with that(2) show False by auto
  qed
  then have "dedup_id v = messageIdFrom v" if "length v = 16" "\<exists>c\<in>set v. c \<noteq> CHR 0x00" for v
    using that by (cases "messageIdFrom v") (auto simp: dedup_id_def Let_def)
  then show ?thesis using assms messageIdFrom_inj by simp
qed

lemma length_generateBinaryUUID [simp]: "length (generateBinaryUUID a b) = 16"
  by (simp add: generateBinaryUUID_def Let_def)

lemma generateBinaryUUID_version: "(of_char (generateBinaryUUID a b ! 6) :: nat) div 16 = 4"
  using version_nibble[of a]
  by (simp add: generateBinaryUUID_def Let_def nth_append nth_store64_be div_mult2_eq[symmetric]
      mod_mult2_eq[of _ 16 16, simplified])

lemma generateBinaryUUID_variant: "(of_char (generateBinaryUUID a b ! 8) :: nat) div 64 = 2"
  using variant_bits[of b]
  by (simp add: generateBinaryUUID_def Let_def nth_append nth_store64_be div_mult2_eq[symmetric]
      mod_mult2_eq[of _ 64 4, simplified])

section \<open>Properties\<close>

text \<open>C29. A generated message id is 16 bytes with version nibble 4 in byte 6 and variant
  bits 10 in byte 8, whatever the random engine draws, and two generated ids are one message to the
  broker's duplicate filter exactly if the 122 random bits kept by the masks agree.\<close>

theorem binary_uuid_layout:
  "length (generateBinaryUUID a b) = 16 \<and>
   (of_char (generateBinaryUUID a b ! 6) :: nat) div 16 = 4 \<and>
   (of_char (generateBinaryUUID a b ! 8) :: nat) div 64 = 2 \<and>
   (dedup_id (generateBinaryUUID a b) = dedup_id (generateBinaryUUID a' b') \<longleftrightarrow>
     a AND 0xffffffffffff0fff = a' AND 0xffffffffffff0fff \<and>
     b AND 0x3fffffffffffffff = b' AND 0x3fffffffffffffff)"
proof -
  have "\<exists>c\<in>set (generateBinaryUUID x y). c \<noteq> CHR 0x00" for x y
    using generateBinaryUUID_version[of x y] by (intro bexI[of _ "generateBinaryUUID x y ! 6"]) auto
  then show ?thesis
    using generateBinaryUUID_version generateBinaryUUID_variant generateBinaryUUID_inj
    by (simp add: dedup_id_inj)
qed

text \<open>C30. A generated text uuid has the shape 8-4-4-4-12 of lower-case hex digits, the third
  group starting with the version digit 4 and the fourth with a variant digit from 8 to b, for every
  sequence of draws in the ranges of the two distributions.\<close>

theorem text_uuid_layout:
  assumes "length ds = 30" "\<forall>d\<in>set ds. d < 16" "8 \<le> v" "v \<le> 11"
  shows "list_all2 (\<in>) (generateUUID ds v)
    (replicate 8 (set hexChars) @ [{CHR ''-''}] @ replicate 4 (set hexChars) @ [{CHR ''-''}, {CHR ''4''}] @
     replicate 3 (set hexChars) @ [{CHR ''-''}] @ [set ''89ab''] @ replicate 3 (set hexChars) @ [{CHR ''-''}] @
     replicate 12 (set hexChars))"
proof -
  have v: "hexChars ! v \<in> set ''89ab''"
  proof -
    have "v = 8 \<or> v = 9 \<or> v = 10 \<or> v = 11" using assms(3,4) by arith
    then show ?thesis by (elim disjE) (simp_all add: hexChars_def)
  qed
  have hexes: "list_all2 (\<in>) (map ((!) hexChars) (take n (drop k ds))) (replicate n (set hexChars))"
    if "k + n \<le> 30" for k n
    using that assms(1,2) by (auto simp: list_all2_conv_all_nth intro!: hexChars_set)
  show ?thesis
    unfolding generateUUID_eq[OF assms(1)]
    using hexes[of 0 8] hexes[of 8 4] hexes[of 12 3] hexes[of 15 3] hexes[of 18 12] v
    by (intro list_all2_appendI) (simp_all del: list_all2_map1 list_all2_map2)
qed

theorem text_uuid_layout_witness:
  "generateUUID (replicate 30 10) 9 ! 14 = CHR ''4''"
  using list_all2_nthD[OF text_uuid_layout[of "replicate 30 10" 9], of 14]
  by (simp add: generateUUID_eq nth_append)

end
