(* ===== verification/Any_Frame.thy ===== *)
theory Any_Frame
  imports Byte_Order
begin

unbundle bit_operations_syntax

text \<open>Self-describing payloads: the reader of \<^verbatim>\<open>common/anyframe.h\<close> and the writer and unpacker of
  \<^verbatim>\<open>common/connectionmanager.h\<close> (\<^verbatim>\<open>appendLengthDelimited\<close>, the protobuf branch of \<^verbatim>\<open>encodePayload\<close>,
  \<^verbatim>\<open>tryUnpack\<close>). The reader walks an index \<^verbatim>\<open>pos\<close> through \<^verbatim>\<open>raw\<close>; here the argument is the part of \<^verbatim>\<open>raw\<close> from
  \<^verbatim>\<open>pos\<close> on. The message type's own serialiser and parser are protobuf's and are parameters.\<close>

section \<open>Varints\<close>

text \<open>The \<^verbatim>\<open>readVarint\<close> lambda: at most ten bytes, \<^verbatim>\<open>shift\<close> = 0, 7, .., 63.\<close>

function readVarint_from :: "nat \<Rightarrow> u64 \<Rightarrow> string \<Rightarrow> (u64 \<times> string) option" where
  "readVarint_from shift out rest =
     (if shift < 64 then
        (case rest of
           [] \<Rightarrow> None
         | c # cs \<Rightarrow>
             (let byte = (of_char c :: u8);
                  out' = out OR push_bit shift (ucast (byte AND 0x7f))
              in if byte AND 0x80 = 0 then Some (out', cs) else readVarint_from (shift + 7) out' cs))
      else None)"
  by auto
termination by (relation "measure (\<lambda>(shift, out, rest). 64 - shift)") auto

declare readVarint_from.simps [simp del]

definition readVarint :: "string \<Rightarrow> (u64 \<times> string) option" where
  "readVarint rest = readVarint_from 0 0 rest"

text \<open>The length loop of \<^verbatim>\<open>appendLengthDelimited\<close>.\<close>

function varint_bytes :: "u64 \<Rightarrow> string" where
  "varint_bytes n =
     (if 0x80 \<le> n then char_of (unat ((n AND 0x7f) OR 0x80)) # varint_bytes (drop_bit 7 n)
      else [char_of (unat n)])"
  by auto

lemma unat_drop_bit_7: "unat (drop_bit 7 (n :: u64)) = unat n div 128"
  unfolding unat_drop_bit64 by simp

termination varint_bytes
proof (relation "measure unat")
  fix n :: u64
  assume "0x80 \<le> n"
  then have "128 \<le> unat n" by (simp add: word_le_nat_alt)
  then show "(drop_bit 7 n, n) \<in> measure unat" by (simp add: unat_drop_bit_7)
qed simp

declare varint_bytes.simps [simp del]

definition appendLengthDelimited :: "string \<Rightarrow> char \<Rightarrow> string \<Rightarrow> string" where
  "appendLengthDelimited out tag bytes = out @ [tag] @ varint_bytes (of_nat (length bytes)) @ bytes"

lemma readVarint_from_shorter: "readVarint_from shift out rest = Some (v, rest') \<Longrightarrow> length rest' < length rest"
proof (induction shift out rest rule: readVarint_from.induct)
  case (1 shift out rest)
  show ?case
  proof (cases rest)
    case Nil
    then show ?thesis using "1.prems" by (subst (asm) readVarint_from.simps) (simp split: if_splits)
  next
    case (Cons c cs)
    have "shift < 64" using "1.prems" by (subst (asm) readVarint_from.simps) (simp split: if_splits)
    with "1.IH"[OF this Cons refl refl] "1.prems" Cons show ?thesis
      by (subst (asm) (2) readVarint_from.simps) (auto simp: Let_def split: if_splits)
  qed
qed

lemma readVarint_shorter: "readVarint rest = Some (v, rest') \<Longrightarrow> length rest' < length rest"
  by (simp add: readVarint_def readVarint_from_shorter)

section \<open>Reading an Any\<close>

definition TYPE_URL_PREFIX :: string where
  "TYPE_URL_PREFIX = ''type.googleapis.com/''"

function any_read_from :: "string \<Rightarrow> string \<Rightarrow> string \<Rightarrow> (string \<times> string) option" where
  "any_read_from rest typeUrl valueBytes =
     (if rest = [] then Some (typeUrl, valueBytes)
      else
        (case readVarint rest of
           None \<Rightarrow> None
         | Some (k, r) \<Rightarrow>
             (let fieldNumber = drop_bit 3 k; wire = k AND 7
              in if wire = 0 then
                   (case readVarint r of
                      None \<Rightarrow> None
                    | Some (_, r') \<Rightarrow> any_read_from r' typeUrl valueBytes)
                 else if wire = 1 then
                   (if length r < 8 then None else any_read_from (drop 8 r) typeUrl valueBytes)
                 else if wire = 2 then
                   (case readVarint r of
                      None \<Rightarrow> None
                    | Some (len, r') \<Rightarrow>
                        if length r' < unat len then None
                        else
                          (let field = take (unat len) r'
                           in any_read_from (drop (unat len) r')
                                (if fieldNumber = 1 then field else typeUrl)
                                (if fieldNumber \<noteq> 1 \<and> fieldNumber = 2 then field else valueBytes)))
                 else if wire = 5 then
                   (if length r < 4 then None else any_read_from (drop 4 r) typeUrl valueBytes)
                 else None)))"
  by auto
termination
  by (relation "measure (\<lambda>(rest, t, v). length rest)")
    (auto dest!: readVarint_shorter simp: Let_def)

declare any_read_from.simps [simp del]

definition any_read :: "string \<Rightarrow> (string \<times> string) option" where
  "any_read raw = any_read_from raw '''' ''''"

text \<open>The type name and the packed bytes; both empty when the payload is no recognisable Any.\<close>

definition typeNameOf :: "string \<Rightarrow> string \<times> string" where
  "typeNameOf pl =
     (case any_read pl of
        None \<Rightarrow> ('''', '''')
      | Some (typeUrl, value) \<Rightarrow>
          if take (length TYPE_URL_PREFIX) typeUrl \<noteq> TYPE_URL_PREFIX then ('''', '''')
          else (drop (length TYPE_URL_PREFIX) typeUrl, value))"

section \<open>Packing and unpacking messages\<close>

text \<open>A protobuf type as \<^verbatim>\<open>encodePayload\<close> and \<^verbatim>\<open>tryUnpack\<close> use it: \<^verbatim>\<open>GetTypeName\<close>, \<^verbatim>\<open>SerializeAsString\<close> and
  \<^verbatim>\<open>ParseFromArray\<close>.\<close>

record 'm message_type =
  GetTypeName :: string
  SerializeAsString :: "'m \<Rightarrow> string"
  ParseFromArray :: "string \<Rightarrow> 'm option"

definition encode_any :: "'m message_type \<Rightarrow> 'm \<Rightarrow> string" where
  "encode_any T m =
     appendLengthDelimited
       (appendLengthDelimited '''' (CHR 0x0a) (TYPE_URL_PREFIX @ GetTypeName T))
       (CHR 0x12) (SerializeAsString T m)"

definition tryUnpack :: "'m message_type \<Rightarrow> string \<Rightarrow> 'm option" where
  "tryUnpack T raw =
     (case any_read raw of
        Some (typeUrl, valueBytes) \<Rightarrow>
          if take (length TYPE_URL_PREFIX) typeUrl = TYPE_URL_PREFIX then
            (if drop (length TYPE_URL_PREFIX) typeUrl \<noteq> GetTypeName T then None
             else ParseFromArray T valueBytes)
          else ParseFromArray T raw
      | None \<Rightarrow> ParseFromArray T raw)"

section \<open>Round trips\<close>

lemma split_7_bits: "(n AND 0x7f) OR push_bit 7 (drop_bit 7 n) = (n :: u64)"
proof -
  have "n AND 0x7f = take_bit 7 n" by (simp add: take_bit_eq_mask mask_eq_exp_minus_1)
  then have "(n AND 0x7f) OR push_bit 7 (drop_bit 7 n) = take_bit 7 n OR push_bit 7 (drop_bit 7 n)"
    by (simp only:)
  also have "\<dots> = n"
  proof (rule bit_eqI)
    fix k
    assume "possible_bit TYPE(u64) k"
    then show "bit (take_bit 7 n OR push_bit 7 (drop_bit 7 n)) k = bit n k"
      by (cases "k < 7") (simp_all add: bit_or_iff bit_take_bit_iff bit_push_bit_iff bit_drop_bit_eq)
  qed
  finally show ?thesis .
qed

lemma of_char_of_small:
  fixes w :: u64
  assumes "w < 0x100"
  shows "(of_char (char_of (unat w) :: char) :: u8) = ucast w"
proof -
  have "unat w < 256" using assms by (simp add: word_less_nat_alt)
  then have "(of_char (char_of (unat w) :: char) :: u8) = of_nat (unat w)"
    unfolding of_char_of_nat_word by simp
  then show ?thesis
    by (simp add: word_unat_eq_iff unsigned_of_nat unsigned_ucast_eq)
qed

lemma ucast_and_u8: "ucast (ucast (w :: u64) AND (m :: u8)) = w AND (ucast m :: u64)"
  by (rule bit_eqI) (auto simp: bit_and_iff bit_unsigned_iff dest: bit_imp_le_length)

lemma and_0x80: "(x :: u64) AND 0x80 = 0 \<longleftrightarrow> \<not> bit x 7" "(y :: u8) AND 0x80 = 0 \<longleftrightarrow> \<not> bit y 7"
  using and_exp_eq_0_iff_not_bit[of x 7] and_exp_eq_0_iff_not_bit[of y 7] by simp_all

lemma and_0x7f: "(x :: u64) AND 0x7f = take_bit 7 x"
  by (simp add: take_bit_eq_mask mask_eq_exp_minus_1)

lemma byte_of_small:
  fixes w :: u64
  assumes "w < 0x100"
  shows "ucast ((of_char (char_of (unat w) :: char) :: u8) AND 0x7f) = take_bit 7 w"
    and "(of_char (char_of (unat w) :: char) :: u8) AND 0x80 = 0 \<longleftrightarrow> \<not> bit w 7"
proof -
  have "(ucast ((ucast w :: u8) AND 0x7f) :: u64) = w AND 0x7f"
    unfolding ucast_and_u8 by simp
  then show "ucast ((of_char (char_of (unat w) :: char) :: u8) AND 0x7f) = take_bit 7 w"
    unfolding of_char_of_small[OF assms] and_0x7f .
  show "(of_char (char_of (unat w) :: char) :: u8) AND 0x80 = 0 \<longleftrightarrow> \<not> bit w 7"
    unfolding of_char_of_small[OF assms] and_0x80 by (simp add: bit_unsigned_iff)
qed

lemma continued_byte:
  fixes n :: u64
  shows "(take_bit 7 n OR 0x80) < 0x100" "take_bit 7 (take_bit 7 n OR 0x80) = take_bit 7 n"
    "bit (take_bit 7 n OR 0x80) 7"
proof -
  have "take_bit 8 (take_bit 7 n OR 0x80) = take_bit 7 n OR 0x80"
    by (simp add: take_bit_or)
  moreover have "unat (take_bit 8 (take_bit 7 n OR 0x80)) < 2 ^ 8"
    by (simp only: unsigned_take_bit_eq take_bit_nat_less_exp)
  ultimately have "unat (take_bit 7 n OR 0x80) < 2 ^ 8" by (simp only:)
  then show "(take_bit 7 n OR 0x80) < 0x100" by (simp add: word_less_nat_alt)
  show "take_bit 7 (take_bit 7 n OR 0x80) = take_bit 7 n" by (simp add: take_bit_or)
  have "bit (0x80 :: u64) 7" by (simp add: bit_numeral_rec)
  then show "bit (take_bit 7 n OR 0x80) 7" by (simp only: bit_or_iff simp_thms)
qed

lemma final_byte:
  fixes n :: u64
  assumes "n < 0x80"
  shows "n < 0x100" "take_bit 7 n = n" "\<not> bit n 7"
proof -
  have u: "unat n < 128" using assms by (simp add: word_less_nat_alt)
  then show "n < 0x100" by (simp add: word_less_nat_alt)
  show t: "take_bit 7 n = n"
    using u by (simp only: word_unat_eq_iff unsigned_take_bit_eq) (simp add: take_bit_nat_eq_self)
  show "\<not> bit n 7" by (metis bit_take_bit_iff less_irrefl t)
qed

lemma readVarint_from_bytes:
  "shift < 64 \<Longrightarrow> unat n < 2 ^ (64 - shift) \<Longrightarrow>
   readVarint_from shift out (varint_bytes n @ rest) = Some (out OR push_bit shift n, rest)"
proof (induction n arbitrary: shift out rule: varint_bytes.induct)
  case (1 n)
  show ?case
  proof (cases "0x80 \<le> n")
    case True
    then have "128 \<le> unat n" by (simp add: word_le_nat_alt)
    with "1.prems" have "(2::nat) ^ 7 < 2 ^ (64 - shift)" by simp
    then have "7 < 64 - shift" by (rule power_less_imp_less_exp[rotated]) simp
    then have s: "shift + 7 < 64" by simp
    then have "(2::nat) ^ (64 - shift) = 2 ^ 7 * 2 ^ (64 - (shift + 7))"
      using s unfolding power_add[symmetric] by simp
    then have "unat (drop_bit 7 n) < 2 ^ (64 - (shift + 7))"
      using "1.prems" unfolding unat_drop_bit64 by (simp add: less_mult_imp_div_less mult.commute)
    from "1.IH"[OF True s this]
    have IH: "readVarint_from (shift + 7) out' (varint_bytes (drop_bit 7 n) @ rest) =
        Some (out' OR push_bit (shift + 7) (drop_bit 7 n), rest)" for out' .
    have "push_bit shift (take_bit 7 n) OR push_bit (shift + 7) (drop_bit 7 n) = push_bit shift n"
      using arg_cong[OF split_7_bits[of n], of "push_bit shift"]
      by (simp only: push_bit_or push_bit_push_bit and_0x7f)
    then have glue: "(out OR push_bit shift (take_bit 7 n)) OR push_bit (shift + 7) (drop_bit 7 n) =
        out OR push_bit shift n" by (simp only: or.assoc)
    show ?thesis
      using True "1.prems"(1) continued_byte[of n]
      by (subst varint_bytes.simps, subst readVarint_from.simps)
        (simp only: append.simps list.case Let_def and_0x7f byte_of_small if_True if_False IH glue not_True_eq_False)
  next
    case False
    then have n: "n < 0x80" by simp
    then show ?thesis
      using False "1.prems"(1) final_byte[OF n]
      by (subst varint_bytes.simps, subst readVarint_from.simps)
        (simp only: append.simps list.case Let_def byte_of_small if_True if_False not_False_eq_True)
  qed
qed

lemma readVarint_bytes: "readVarint (varint_bytes n @ rest) = Some (n, rest)"
  using readVarint_from_bytes[of 0 n 0 rest] unat_u64_less[of n] by (simp add: readVarint_def)

lemma readVarint_one: "(of_char c :: u8) AND 0x80 = 0 \<Longrightarrow> readVarint (c # rest) = Some (ucast ((of_char c :: u8) AND 0x7f), rest)"
  unfolding readVarint_def by (subst readVarint_from.simps) (simp add: Let_def)

lemma any_tags:
  "readVarint (CHR 0x0a # rest) = Some (0x0a, rest)" "readVarint (CHR 0x12 # rest) = Some (0x12, rest)"
  by (simp_all add: readVarint_one)

lemma unat_of_length: "length s < 2 ^ 64 \<Longrightarrow> unat (of_nat (length s) :: u64) = length s"
  by (simp add: unsigned_of_nat take_bit_nat_eq_self)

lemma any_read_from_field:
  assumes "length s < 2 ^ 64"
  shows "any_read_from (CHR 0x0a # varint_bytes (of_nat (length s)) @ s @ rest) t v = any_read_from rest s v"
    and "any_read_from (CHR 0x12 # varint_bytes (of_nat (length s)) @ s @ rest) t v = any_read_from rest t s"
  using unat_of_length[OF assms]
  by (subst any_read_from.simps, simp add: any_tags readVarint_bytes Let_def)+

lemma any_read_encode:
  assumes "length u < 2 ^ 64" "length body < 2 ^ 64"
  shows "any_read (appendLengthDelimited (appendLengthDelimited '''' (CHR 0x0a) u) (CHR 0x12) body) = Some (u, body)"
  using any_read_from_field(1)[OF assms(1)] any_read_from_field(2)[OF assms(2), of "[]"]
  by (simp add: any_read_def appendLengthDelimited_def any_read_from.simps)

text \<open>A protobuf message survives its trip through a payload frame: unpacking what encodePayload
  packed, as the same type, is parsing what the type serialised, and unpacking it as a type with another
  name fails. The type's own serialiser and parser are protobuf's; that the parser inverts the
  serialiser is its documented behaviour.\<close>

lemma any_roundtrip:
  assumes "ParseFromArray T (SerializeAsString T m) = Some m"
    and "length (TYPE_URL_PREFIX @ GetTypeName T) < 2 ^ 64" "length (SerializeAsString T m) < 2 ^ 64"
  shows "tryUnpack T (encode_any T m) = Some m \<and>
    typeNameOf (encode_any T m) = (GetTypeName T, SerializeAsString T m) \<and>
    (GetTypeName T' \<noteq> GetTypeName T \<longrightarrow> tryUnpack T' (encode_any T m) = None)"
  using assms any_read_encode[OF assms(2,3)] by (simp add: tryUnpack_def encode_any_def typeNameOf_def)

end
