(* ===== verification/Safe_Queue.thy ===== *)
theory Safe_Queue
  imports Wisp_Prelude
begin

text \<open>The bounded blocking queue of \<^verbatim>\<open>common/safequeue.h\<close>. Every member function holds the mutex from the moment
  its wait ends to its return, so each call is one atomic step, taken in the state in which its wait
  ends: \<^verbatim>\<open>None\<close> is a call that is still waiting in that state, a value is what it returns together with
  the queue it leaves. Threads are then sequences of such steps in any interleaving. The contract a
  producer or consumer uses is the locale \<^verbatim>\<open>fifo\<close>, interpreted on the queue as \<^verbatim>\<open>sq\<close>.\<close>

section \<open>The queue\<close>

record 'a safe_queue =
  m_queue :: "'a list"
  m_stop :: bool
  m_maxSize :: nat

definition new_queue :: "nat \<Rightarrow> 'a safe_queue" where
  "new_queue maxSize = \<lparr>m_queue = [], m_stop = False, m_maxSize = maxSize\<rparr>"

definition default_max_size :: nat where
  "default_max_size = 5000"

definition hasRoom :: "'a safe_queue \<Rightarrow> bool" where
  "hasRoom q \<longleftrightarrow> length (m_queue q) < m_maxSize q \<or> m_stop q"

text \<open>\<^verbatim>\<open>pushInternal\<close>: whether the push was taken, and the value left in \<^verbatim>\<open>*wasEmpty\<close> when it was. A timed push
  that finds no room has waited out its timeout.\<close>

definition pushInternal :: "'a \<Rightarrow> bool \<Rightarrow> 'a safe_queue \<Rightarrow> ((bool \<times> bool option) \<times> 'a safe_queue) option" where
  "pushInternal x timed q =
     (if \<not> hasRoom q then (if timed then Some ((False, None), q) else None)
      else if m_stop q then Some ((False, None), q)
      else Some ((True, Some (m_queue q = [])), q\<lparr>m_queue := m_queue q @ [x]\<rparr>))"

definition push :: "'a \<Rightarrow> 'a safe_queue \<Rightarrow> ((bool \<times> bool option) \<times> 'a safe_queue) option" where
  "push x q = pushInternal x False q"

definition push_timeout :: "'a \<Rightarrow> 'a safe_queue \<Rightarrow> ((bool \<times> bool option) \<times> 'a safe_queue) option" where
  "push_timeout x q = pushInternal x True q"

definition pop :: "'a safe_queue \<Rightarrow> ('a option \<times> 'a safe_queue) option" where
  "pop q =
     (if m_queue q = [] \<and> \<not> m_stop q then None
      else if m_queue q = [] \<and> m_stop q then Some (None, q)
      else Some (Some (hd (m_queue q)), q\<lparr>m_queue := tl (m_queue q)\<rparr>))"

definition try_pop :: "'a safe_queue \<Rightarrow> 'a option \<times> 'a safe_queue" where
  "try_pop q =
     (if m_queue q = [] then (None, q)
      else (Some (hd (m_queue q)), q\<lparr>m_queue := tl (m_queue q)\<rparr>))"

definition drainTo :: "'a safe_queue \<Rightarrow> 'a list \<times> 'a safe_queue" where
  "drainTo q = (m_queue q, q\<lparr>m_queue := []\<rparr>)"

definition queue_empty :: "'a safe_queue \<Rightarrow> bool" where
  "queue_empty q \<longleftrightarrow> m_queue q = []"

definition queue_stop :: "'a safe_queue \<Rightarrow> 'a safe_queue" where
  "queue_stop q = q\<lparr>m_stop := True\<rparr>"

definition queue_reset :: "'a safe_queue \<Rightarrow> 'a safe_queue" where
  "queue_reset q = q\<lparr>m_stop := False\<rparr>"

lemmas queue_ops = push_def push_timeout_def pushInternal_def pop_def try_pop_def drainTo_def queue_empty_def
  queue_stop_def queue_reset_def hasRoom_def

section \<open>The contract\<close>

locale fifo =
  fixes items :: "'q \<Rightarrow> 'a list"
    and limit :: "'q \<Rightarrow> nat"
    and put :: "'a \<Rightarrow> 'q \<Rightarrow> ((bool \<times> bool option) \<times> 'q) option"
    and take_one :: "'q \<Rightarrow> 'a option \<times> 'q"
    and take_all :: "'q \<Rightarrow> 'a list \<times> 'q"
  assumes put_taken: "put x q = Some ((True, e), q') \<Longrightarrow>
      items q' = items q @ [x] \<and> e = Some (items q = []) \<and> length (items q) < limit q \<and> limit q' = limit q"
    and put_refused: "put x q = Some ((False, e), q') \<Longrightarrow> q' = q"
    and take_one_some: "take_one q = (Some x, q') \<Longrightarrow> items q = x # items q' \<and> limit q' = limit q"
    and take_one_none: "take_one q = (None, q') \<longleftrightarrow> items q = [] \<and> q' = q"
    and take_all_items: "take_all q = (xs, q') \<Longrightarrow> xs = items q \<and> items q' = [] \<and> limit q' = limit q"
begin

lemma put_bounded:
  assumes "put x q = Some (r, q')" "length (items q) \<le> limit q"
  shows "length (items q') \<le> limit q'"
proof (cases r)
  case (Pair b e)
  then show ?thesis using assms put_taken[of x q e q'] put_refused[of x q e q'] by (cases b) auto
qed

lemma put_keeps_order:
  assumes "put x q = Some ((b, e), q')"
  shows "items q' = items q @ (if b then [x] else [])"
  using assms put_taken[of x q e q'] put_refused[of x q e q'] by (cases b) auto

text \<open>Draining at once hands over what popping one by one does.\<close>

lemma take_all_first: "items q \<noteq> [] \<Longrightarrow>
    fst (take_all q) = the (fst (take_one q)) # items (snd (take_one q))"
  by (metis list.distinct(1) option.collapse option.sel prod.collapse take_all_items take_one_none take_one_some)

end

interpretation sq: fifo m_queue m_maxSize "\<lambda>x q. pushInternal x timed q" try_pop drainTo
  for timed :: bool
  by unfold_locales (auto simp: queue_ops split: if_splits)

section \<open>Interleavings\<close>

datatype 'a queue_call = Push 'a bool | Pop | TryPop | Drain | Stop | Reset

text \<open>A completed call: the items it put in, the items it took out, and the queue it leaves.\<close>

primrec queue_exec :: "'a queue_call \<Rightarrow> 'a safe_queue \<Rightarrow> ('a list \<times> 'a list \<times> 'a safe_queue) option" where
  "queue_exec (Push x timed) q =
     map_option (\<lambda>((b, _), q'). (if b then [x] else [], [], q')) (pushInternal x timed q)"
| "queue_exec Pop q = map_option (\<lambda>(x, q'). ([], case x of None \<Rightarrow> [] | Some y \<Rightarrow> [y], q')) (pop q)"
| "queue_exec TryPop q = (let (x, q') = try_pop q in Some ([], case x of None \<Rightarrow> [] | Some y \<Rightarrow> [y], q'))"
| "queue_exec Drain q = (let (xs, q') = drainTo q in Some ([], xs, q'))"
| "queue_exec Stop q = Some ([], [], queue_stop q)"
| "queue_exec Reset q = Some ([], [], queue_reset q)"

inductive queue_run :: "'a safe_queue \<Rightarrow> 'a list \<Rightarrow> 'a list \<Rightarrow> 'a safe_queue \<Rightarrow> bool" where
  queue_start: "queue_run q [] [] q"
| queue_call: "queue_run q accepted taken q' \<Longrightarrow> queue_exec c q' = Some (a, t, q'') \<Longrightarrow>
    queue_run q (accepted @ a) (taken @ t) q''"

lemma queue_exec_order:
  "queue_exec c q = Some (a, t, q') \<Longrightarrow>
   t @ m_queue q' = m_queue q @ a \<and> m_maxSize q' = m_maxSize q \<and>
   (length (m_queue q) \<le> m_maxSize q \<longrightarrow> length (m_queue q') \<le> m_maxSize q')"
  by (cases c) (auto simp: queue_ops Let_def split: if_splits)

section \<open>Properties\<close>

text \<open>C24. Whatever the producers and consumers do and however their calls interleave, the items
  taken out followed by the items still queued are the items that were queued at the start followed by
  the accepted pushes, in order: nothing is lost, repeated or reordered, and the queue never exceeds its
  maximum size.\<close>

theorem safe_queue_fifo:
  assumes "queue_run q accepted taken q'"
  shows "taken @ m_queue q' = m_queue q @ accepted \<and> m_maxSize q' = m_maxSize q \<and>
    (length (m_queue q) \<le> m_maxSize q \<longrightarrow> length (m_queue q') \<le> m_maxSize q')"
  using assms
proof induction
  case (queue_call q accepted taken q' c a t q'')
  with queue_exec_order[OF queue_call.hyps(2)] show ?case by (metis append.assoc)
qed auto

theorem safe_queue_fifo_witness:
  "queue_run (new_queue 1) [1::nat] [1] (new_queue 1) \<and> [1] @ m_queue (new_queue 1) = [1::nat]"
proof -
  have "queue_run (new_queue 1) ([] @ [1::nat]) ([] @ []) ((new_queue 1)\<lparr>m_queue := [1]\<rparr>)"
    by (rule queue_call[OF queue_start, where c = "Push 1 True"]) (simp add: queue_ops new_queue_def)
  then have "queue_run (new_queue 1) (([] @ [1::nat]) @ []) (([] @ []) @ [1]) (new_queue 1)"
    by (rule queue_call[of _ _ _ _ TryPop]) (simp add: queue_ops new_queue_def Let_def)
  then have r: "queue_run (new_queue 1) [1::nat] [1] (new_queue 1)" by simp
  from safe_queue_fifo[OF r] r show ?thesis by (simp add: new_queue_def)
qed


end
