(* ===== verification/Wire_Frame.thy ===== *)
theory Wire_Frame
  imports Message_Keys "HOL-Library.Monad_Syntax"
begin

text \<open>Framing: \<^verbatim>\<open>common/wireframe.h\<close> (header frames behind a format byte, messages encoded once for many
  recipients) and \<^verbatim>\<open>common/zmqframes.h\<close> (header and payload as the frames of one multipart group). The
  protobuf runtime that turns a header into bytes and back is a parameter, the record \<^verbatim>\<open>header_codec\<close>; a
  multipart group is the non-empty list of its frames, and whether ZeroMQ takes a group is an argument,
  since only the group's first frame can be refused.\<close>

section \<open>Header frames\<close>

record header_codec =
  pb_serialize :: "message_header \<Rightarrow> string"
  pb_parse :: "string \<Rightarrow> message_header option"

text \<open>What the codec relies on the protobuf runtime for: parsing inverts serialising.\<close>

definition codec_ok :: "header_codec \<Rightarrow> bool" where
  "codec_ok pb \<longleftrightarrow> (\<forall>h. pb_parse pb (pb_serialize pb h) = Some h)"

datatype wire_format = Protobuf

primrec format_byte :: "wire_format \<Rightarrow> u8" where
  "format_byte Protobuf = 1"

definition defaultFormat :: wire_format where
  "defaultFormat = Protobuf"

definition codecFor :: "u8 \<Rightarrow> wire_format option" where
  "codecFor b = (if b = 1 then Some Protobuf else None)"

definition encodeHeader :: "header_codec \<Rightarrow> message_header \<Rightarrow> string" where
  "encodeHeader pb h = char_of (unat (format_byte defaultFormat)) # pb_serialize pb h"

definition decodeHeaderFrame :: "header_codec \<Rightarrow> string \<Rightarrow> message_header option" where
  "decodeHeaderFrame pb frame =
     (case frame of
        [] \<Rightarrow> None
      | c # rest \<Rightarrow> (case codecFor (of_char c) of None \<Rightarrow> None | Some _ \<Rightarrow> pb_parse pb rest))"

record wire_message =
  headerBytes :: string
  wirePayload :: string

definition makeWireMessage :: "string \<Rightarrow> string \<Rightarrow> wire_message" where
  "makeWireMessage hb pl = \<lparr>headerBytes = hb, wirePayload = pl\<rparr>"

section \<open>Multipart groups\<close>

text \<open>The frames \<^verbatim>\<open>sendFrames\<close> puts on a socket when the leading one is taken: a routing id on ROUTER
  sockets, the header, and the payload unless it is empty.\<close>

definition group_frames :: "string option \<Rightarrow> string \<Rightarrow> string \<Rightarrow> string list" where
  "group_frames identity headerFrame pl =
     (case identity of None \<Rightarrow> [] | Some i \<Rightarrow> [i]) @ [headerFrame] @ (if pl = [] then [] else [pl])"

definition sendFrames :: "bool \<Rightarrow> string option \<Rightarrow> string \<Rightarrow> string \<Rightarrow> bool \<times> string list list" where
  "sendFrames accepted identity headerFrame pl =
     (if accepted then (True, [group_frames identity headerFrame pl]) else (False, []))"

text \<open>\<^verbatim>\<open>Wire::recv\<close> on one group: the envelope and the wire bytes, or nothing when the header does not decode.
  Frames past the payload are drained and ignored.\<close>

definition wire_recv :: "header_codec \<Rightarrow> string list \<Rightarrow> (envelope \<times> nat) option" where
  "wire_recv pb frames =
     (case frames of
        [] \<Rightarrow> None
      | headerFrame # rest \<Rightarrow>
          (case decodeHeaderFrame pb headerFrame of
             None \<Rightarrow> None
           | Some h \<Rightarrow>
               (let pl = (case rest of [] \<Rightarrow> '''' | p # _ \<Rightarrow> p)
                in Some (\<lparr>header = h, payload = pl\<rparr>, length headerFrame + length pl))))"

lemma codecFor_format [simp]: "codecFor (of_char (char_of (unat (format_byte f)) :: char)) = Some f"
  by (cases f) (simp only: of_char_char_of_unat, simp add: codecFor_def)

lemma decode_encodeHeader [simp, frame_simps]: "codec_ok pb \<Longrightarrow> decodeHeaderFrame pb (encodeHeader pb h) = Some h"
  by (simp add: decodeHeaderFrame_def encodeHeader_def codec_ok_def del: format_byte.simps)

lemma encodeHeader_inj: "codec_ok pb \<Longrightarrow> encodeHeader pb h = encodeHeader pb h' \<longleftrightarrow> h = h'"
  by (metis decode_encodeHeader option.inject)

section \<open>A codec that satisfies the hypothesis\<close>

text \<open>A concrete instance of the parameter, for evaluating concrete runs: every field as its bytes, each behind
  a 1, closed by a 0.\<close>

definition mark_field :: "string \<Rightarrow> string" where
  "mark_field s = concat (map (\<lambda>c. [CHR 0x01, c]) s) @ [CHR 0x00]"

fun unmark_field :: "string \<Rightarrow> (string \<times> string) option" where
  "unmark_field [] = None"
| "unmark_field [c] = (if c = CHR 0x00 then Some ('''', []) else None)"
| "unmark_field (c # d # r) =
     (if c = CHR 0x00 then Some ('''', d # r)
      else map_option (\<lambda>(s, rest). (d # s, rest)) (unmark_field r))"

definition marked_codec :: header_codec where
  "marked_codec =
     \<lparr>pb_serialize = (\<lambda>h. concat (map mark_field
        [handler_key h, sender_id h, topic h, origin_broker_id h, message_uuid h, reply_topic h])),
      pb_parse = (\<lambda>s.
        do {
          (k, s1) \<leftarrow> unmark_field s; (sid, s2) \<leftarrow> unmark_field s1; (t, s3) \<leftarrow> unmark_field s2;
          (ob, s4) \<leftarrow> unmark_field s3; (mu, s5) \<leftarrow> unmark_field s4; (rt, _) \<leftarrow> unmark_field s5;
          Some \<lparr>handler_key = k, sender_id = sid, topic = t, origin_broker_id = ob, message_uuid = mu,
            reply_topic = rt\<rparr>
        })\<rparr>"

lemma unmark_nul: "unmark_field (CHR 0x00 # rest) = Some ('''', rest)"
  by (cases rest) simp_all

lemma unmark_mark: "unmark_field (mark_field s @ rest) = Some (s, rest)"
  by (induction s) (simp_all add: mark_field_def unmark_nul)

lemma codec_ok_marked [simp]: "codec_ok marked_codec"
  using unmark_mark[of _ "[]"] by (simp add: codec_ok_def marked_codec_def unmark_mark)

section \<open>Properties\<close>

text \<open>What one node sends another receives: a group built from an encoded header and a payload
  is received as that header and that payload, with the wire size of the two, also when garbage frames
  follow the payload; a frame that is empty or starts with an unknown format byte is refused.\<close>

lemma wire_roundtrip:
  assumes "codec_ok pb"
  shows "wire_recv pb (group_frames None (encodeHeader pb h) pl) =
      Some (\<lparr>header = h, payload = pl\<rparr>, length (encodeHeader pb h) + length pl) \<and>
    (pl \<noteq> [] \<longrightarrow> wire_recv pb (group_frames None (encodeHeader pb h) pl @ garbage) =
      wire_recv pb (group_frames None (encodeHeader pb h) pl)) \<and>
    wire_recv pb ('''' # rest) = None \<and>
    (c \<noteq> CHR 0x01 \<longrightarrow> wire_recv pb ((c # bytes) # rest) = None)"
proof -
  have "c \<noteq> CHR 0x01 \<Longrightarrow> codecFor (of_char c) = None"
    using of_char_inj_u8[of c "CHR 0x01"] by (simp add: codecFor_def)
  then show ?thesis
    using assms by (simp add: wire_recv_def group_frames_def decodeHeaderFrame_def[of pb "_ # _"]
        decodeHeaderFrame_def[of pb "[]"] split: list.splits)
qed

end

