(* ===== verification/Zmq_Worker.thy ===== *)
theory Zmq_Worker
  imports Safe_Queue Wire_Frame
begin

text \<open>The connection worker of \<^verbatim>\<open>common/zmqworker.h\<close> and \<^verbatim>\<open>common/zmqworker.cpp\<close>, used by every client and by every
  link a broker dials. The record \<^verbatim>\<open>zmq_worker\<close> holds what producer threads share with the loop (queues,
  counters, sync state); \<^verbatim>\<open>worker_loop\<close> extends it with the locals of \<^verbatim>\<open>runLoop\<close>. One iteration of the loop
  is cut at its lock acquisitions into steps (\<^verbatim>\<open>loop_pc\<close>), because producers may act between any two of
  them; \<^verbatim>\<open>worker_run\<close> is every interleaving of loop steps, producer calls and one \<^verbatim>\<open>sync\<close> caller. ZeroMQ
  is a parameter: whether the send pipe takes the next group is an arbitrary function of what was
  offered to it before, and what arrives and when is part of each step. Sleeping, polling and wake
  pings only decide when a step happens, and logging is left out. Data messages are of an arbitrary type,
  so a proof may tag them.\<close>

section \<open>State\<close>

definition CONTROL_BACKLOG_LIMIT :: nat where
  "CONTROL_BACKLOG_LIMIT = MAX_SUBSCRIPTIONS_PER_CLIENT + 1024"

definition DATA_BACKLOG_LIMIT :: nat where
  "DATA_BACKLOG_LIMIT = 5000"

record connection_config =
  cfg_address :: string
  cfg_clientId :: string
  keepAliveTime :: int
  keepAliveTimeout :: int

text \<open>What became of a message, in the order it happened on the worker thread.\<close>

datatype 'd departure =
    ControlSent envelope | ControlDropped envelope
  | DataSent 'd | DataRefused 'd | DataDropped 'd
  | EncodedSent wire_message | EncodedRefused wire_message
  | HeartbeatTried bool

record 'd zmq_worker =
  m_config :: connection_config
  w_running :: bool
  m_controlQueue :: "envelope safe_queue"
  m_outboundQueue :: "'d safe_queue"
  m_encodedQueue :: "wire_message safe_queue"
  m_hasEncoded :: bool
  w_brokerId :: string
  m_droppedSends :: u64
  m_heartbeatsSent :: u64
  m_acksReceived :: u64
  m_syncRequested :: bool
  m_syncTarget :: u64
  w_pings :: nat

definition new_worker :: "connection_config \<Rightarrow> 'd zmq_worker" where
  "new_worker cfg =
     \<lparr>m_config = cfg, w_running = False, m_controlQueue = new_queue CONTROL_BACKLOG_LIMIT,
      m_outboundQueue = new_queue default_max_size, m_encodedQueue = new_queue default_max_size,
      m_hasEncoded = False, w_brokerId = '''', m_droppedSends = 0, m_heartbeatsSent = 0, m_acksReceived = 0,
      m_syncRequested = False, m_syncTarget = 0, w_pings = 0\<rparr>"

section \<open>Producers\<close>

text \<open>\<^verbatim>\<open>enqueue\<close>: whether the message was taken, whether the loop is pinged awake, and the queue.\<close>

definition enqueue :: "'a safe_queue \<Rightarrow> 'a \<Rightarrow> bool \<times> bool \<times> 'a safe_queue" where
  "enqueue q x =
     (case push_timeout x q of
        Some ((True, wasEmpty), q') \<Rightarrow> (True, wasEmpty = Some True, q')
      | Some ((False, _), q') \<Rightarrow> (False, False, q')
      | None \<Rightarrow> (False, False, q))"

definition writeMessage :: "('d, 'a) zmq_worker_scheme \<Rightarrow> 'd \<Rightarrow> bool \<times> ('d, 'a) zmq_worker_scheme" where
  "writeMessage w m =
     (let (ok, ping, q) = enqueue (m_outboundQueue w) m
      in (ok, w\<lparr>m_outboundQueue := q, w_pings := w_pings w + (if ping then 1 else 0)\<rparr>))"

definition writeControlMessage :: "('d, 'a) zmq_worker_scheme \<Rightarrow> envelope \<Rightarrow> bool \<times> ('d, 'a) zmq_worker_scheme" where
  "writeControlMessage w m =
     (let (ok, ping, q) = enqueue (m_controlQueue w) m
      in (ok, w\<lparr>m_controlQueue := q, w_pings := w_pings w + (if ping then 1 else 0)\<rparr>))"

definition writeEncoded :: "('d, 'a) zmq_worker_scheme \<Rightarrow> wire_message \<Rightarrow> bool \<times> ('d, 'a) zmq_worker_scheme" where
  "writeEncoded w m =
     (let (ok, ping, q) = enqueue (m_encodedQueue w) m
      in (ok, w\<lparr>m_hasEncoded := True, m_encodedQueue := q, w_pings := w_pings w + (if ping then 1 else 0)\<rparr>))"

definition noteBrokerId :: "('d, 'a) zmq_worker_scheme \<Rightarrow> string \<Rightarrow> ('d, 'a) zmq_worker_scheme" where
  "noteBrokerId w i = (if i = [] then w else w\<lparr>w_brokerId := i\<rparr>)"

definition noteDroppedSend :: "('d, 'a) zmq_worker_scheme \<Rightarrow> ('d, 'a) zmq_worker_scheme" where
  "noteDroppedSend w = w\<lparr>m_droppedSends := m_droppedSends w + 1\<rparr>"

definition worker_start :: "('d, 'a) zmq_worker_scheme \<Rightarrow> ('d, 'a) zmq_worker_scheme" where
  "worker_start w = w\<lparr>w_running := True\<rparr>"

definition worker_stop :: "('d, 'a) zmq_worker_scheme \<Rightarrow> ('d, 'a) zmq_worker_scheme" where
  "worker_stop w = w\<lparr>w_running := False\<rparr>"

subsection \<open>The sync caller\<close>

datatype sync_phase = SyncIdle | AwaitTarget | AwaitAck u64 | SyncReturned bool

definition sync_begin :: "('d, 'a) zmq_worker_scheme \<Rightarrow> sync_phase \<times> ('d, 'a) zmq_worker_scheme" where
  "sync_begin w =
     (if \<not> w_running w then (SyncReturned False, w)
      else (AwaitTarget, w\<lparr>m_syncTarget := 0, m_syncRequested := True\<rparr>))"

text \<open>The caller looks at the shared state, either because it was notified or because its deadline passed
  (\<^verbatim>\<open>expired\<close>).\<close>

fun sync_look :: "bool \<Rightarrow> sync_phase \<Rightarrow> ('d, 'a) zmq_worker_scheme \<Rightarrow> sync_phase \<times> ('d, 'a) zmq_worker_scheme" where
  "sync_look expired AwaitTarget w =
     (if m_syncTarget w \<noteq> 0 then (AwaitAck (m_syncTarget w), w)
      else if expired \<or> \<not> w_running w then (SyncReturned False, w\<lparr>m_syncRequested := False\<rparr>)
      else (AwaitTarget, w))"
| "sync_look expired (AwaitAck target) w =
     (if target \<le> m_acksReceived w \<or> expired \<or> \<not> w_running w
      then (SyncReturned (target \<le> m_acksReceived w), w)
      else (AwaitAck target, w))"
| "sync_look expired p w = (p, w)"

section \<open>The loop\<close>

datatype loop_pc = AtRecv | AtControl | AtOutbound | AtDataCheck | AtBacklog | AtEncoded | AtEncodedDrain
  | AtSyncControl | AtSyncOutbound | AtSyncEncoded | AtSyncRequest | AtSyncBeat | AtSyncTarget | AtTimers
  | AtFinal | Finished

text \<open>Where a received envelope goes: the queue of \<^verbatim>\<open>m_pInboundQueue\<close>, the callback (here the envelopes it was
  called with), or nowhere.\<close>

datatype inbound_sink = ToQueue "envelope safe_queue" | ToCallback "envelope list" | NoSink

record 'd worker_loop = "'d zmq_worker" +
  pc :: loop_pc
  controlBacklog :: "envelope list"
  dataBacklog :: "'d list"
  batch :: "'d list"
  isOnline :: bool
  lastHeartbeat :: time
  lastRxTime :: time
  didWork :: bool
  w_sink :: inbound_sink
  w_status :: "bool list"
  w_attempts :: nat
  w_trace :: "'d departure list"

definition milliseconds :: "int \<Rightarrow> time" where
  "milliseconds n = 1000000 * n"

definition heartbeatInterval :: "connection_config \<Rightarrow> time" where
  "heartbeatInterval cfg = milliseconds (if 0 < keepAliveTime cfg then keepAliveTime cfg else 3000)"

definition serverTimeout :: "connection_config \<Rightarrow> time" where
  "serverTimeout cfg =
     (let t = milliseconds (if 0 < keepAliveTimeout cfg then keepAliveTimeout cfg else 10000)
      in if t \<le> heartbeatInterval cfg then heartbeatInterval cfg * 3 else t)"

text \<open>The state in which \<^verbatim>\<open>runLoop\<close> enters its loop, after the CONNECT it leads with.\<close>

definition enter_loop :: "time \<Rightarrow> inbound_sink \<Rightarrow> 'd zmq_worker \<Rightarrow> 'd worker_loop" where
  "enter_loop now sink w =
     zmq_worker.extend w
       \<lparr>pc = AtRecv, controlBacklog = [], dataBacklog = [], batch = [], isOnline = False,
        lastHeartbeat = now - heartbeatInterval (m_config w), lastRxTime = now, didWork = False,
        w_sink = sink, w_status = [False], w_attempts = 1, w_trace = []\<rparr>"

text \<open>\<^verbatim>\<open>Wire::send\<close> on the DEALER socket: \<^verbatim>\<open>pipe n\<close> is whether the \<^verbatim>\<open>n\<close>-th group offered is taken.\<close>

definition wire_send :: "(nat \<Rightarrow> bool) \<Rightarrow> ('d, 'a) worker_loop_scheme \<Rightarrow> bool \<times> ('d, 'a) worker_loop_scheme" where
  "wire_send pipe w = (pipe (w_attempts w), w\<lparr>w_attempts := w_attempts w + 1\<rparr>)"

definition depart :: "'d departure \<Rightarrow> ('d, 'a) worker_loop_scheme \<Rightarrow> ('d, 'a) worker_loop_scheme" where
  "depart d w = w\<lparr>w_trace := w_trace w @ [d]\<rparr>"

definition sendHeartbeat :: "(nat \<Rightarrow> bool) \<Rightarrow> ('d, 'a) worker_loop_scheme \<Rightarrow> ('d, 'a) worker_loop_scheme" where
  "sendHeartbeat pipe w =
     (let (ok, w') = wire_send pipe w
      in (depart (HeartbeatTried ok) w')\<lparr>m_heartbeatsSent := m_heartbeatsSent w' + 1\<rparr>)"

text \<open>Receiving: \<^verbatim>\<open>inb\<close> is the envelope \<^verbatim>\<open>Wire::recv\<close> returned, if the poll reported input and it decoded.\<close>

definition sink_put :: "envelope \<Rightarrow> inbound_sink \<Rightarrow> inbound_sink" where
  "sink_put e s =
     (case s of
        ToQueue q \<Rightarrow> ToQueue (case push_timeout e q of Some (_, q') \<Rightarrow> q' | None \<Rightarrow> q)
      | ToCallback es \<Rightarrow> ToCallback (es @ [e])
      | NoSink \<Rightarrow> NoSink)"

definition recv_step :: "time \<Rightarrow> envelope option \<Rightarrow> ('d, 'a) worker_loop_scheme \<Rightarrow> ('d, 'a) worker_loop_scheme" where
  "recv_step now inb w0 =
     (let w = w0\<lparr>didWork := False, pc := AtControl\<rparr>
      in case inb of
           None \<Rightarrow> w
         | Some e \<Rightarrow>
             (let k = handler_key (header e);
                  w1 = w\<lparr>didWork := True, lastRxTime := now\<rparr>;
                  w2 = (if k = HEARTBEAT_ACK \<or> k = RESET then noteBrokerId w1 (sender_id (header e)) else w1);
                  w3 = (if \<not> isOnline w2 then w2\<lparr>isOnline := True, w_status := w_status w2 @ [True]\<rparr> else w2)
              in if k = HEARTBEAT_ACK then w3\<lparr>m_acksReceived := m_acksReceived w3 + 1\<rparr>
                 else w3\<lparr>w_sink := sink_put e (w_sink w3)\<rparr>))"

text \<open>The trim loops: the oldest go first, each counted as a dropped send.\<close>

fun trim_control :: "('d, 'a) worker_loop_scheme \<Rightarrow> envelope list \<Rightarrow> envelope list \<times> ('d, 'a) worker_loop_scheme" where
  "trim_control w [] = ([], w)"
| "trim_control w (e # es) =
     (if CONTROL_BACKLOG_LIMIT < length (e # es)
      then trim_control (noteDroppedSend (depart (ControlDropped e) w)) es
      else (e # es, w))"

fun trim_data :: "('d, 'a) worker_loop_scheme \<Rightarrow> 'd list \<Rightarrow> 'd list \<times> ('d, 'a) worker_loop_scheme" where
  "trim_data w [] = ([], w)"
| "trim_data w (d # ds) =
     (if DATA_BACKLOG_LIMIT < length (d # ds)
      then trim_data (noteDroppedSend (depart (DataDropped d) w)) ds
      else (d # ds, w))"

text \<open>\<^verbatim>\<open>flushControl\<close>: what is left of the backlog.\<close>

fun flushControl :: "(nat \<Rightarrow> bool) \<Rightarrow> ('d, 'a) worker_loop_scheme \<Rightarrow> envelope list \<Rightarrow>
    envelope list \<times> ('d, 'a) worker_loop_scheme" where
  "flushControl pipe w [] = ([], w)"
| "flushControl pipe w (e # es) =
     (let (ok, w') = wire_send pipe w
      in if ok then flushControl pipe (depart (ControlSent e) w') es else (e # es, w'))"

definition control_step :: "(nat \<Rightarrow> bool) \<Rightarrow> ('d, 'a) worker_loop_scheme \<Rightarrow> ('d, 'a) worker_loop_scheme" where
  "control_step pipe w =
     (let (drained, q) = drainTo (m_controlQueue w);
          (kept, w1) = trim_control (w\<lparr>m_controlQueue := q, pc := AtOutbound\<rparr>) (controlBacklog w @ drained);
          (left, w2) = flushControl pipe w1 kept
      in w2\<lparr>controlBacklog := left,
            didWork := didWork w2 \<or> (controlBacklog w @ drained \<noteq> [] \<and> left = [])\<rparr>)"

definition outbound_step :: "('d, 'a) worker_loop_scheme \<Rightarrow> ('d, 'a) worker_loop_scheme" where
  "outbound_step w =
     (if isOnline w
      then (let (drained, q) = drainTo (m_outboundQueue w)
            in w\<lparr>m_outboundQueue := q, batch := drained, pc := AtDataCheck\<rparr>)
      else w\<lparr>batch := [], pc := AtDataCheck\<rparr>)"

fun sendBatch :: "(nat \<Rightarrow> bool) \<Rightarrow> ('d, 'a) worker_loop_scheme \<Rightarrow> 'd list \<Rightarrow> ('d, 'a) worker_loop_scheme" where
  "sendBatch pipe w [] = w"
| "sendBatch pipe w (d # ds) =
     (let (ok, w') = wire_send pipe w
      in sendBatch pipe (if ok then depart (DataSent d) w' else noteDroppedSend (depart (DataRefused d) w')) ds)"

definition data_check_step :: "(nat \<Rightarrow> bool) \<Rightarrow> ('d, 'a) worker_loop_scheme \<Rightarrow> ('d, 'a) worker_loop_scheme" where
  "data_check_step pipe w =
     (if batch w = [] then w\<lparr>pc := AtBacklog\<rparr>
      else if dataBacklog w = [] \<and> controlBacklog w = [] \<and> queue_empty (m_controlQueue w)
      then (sendBatch pipe w (batch w))\<lparr>batch := [], didWork := True, pc := AtBacklog\<rparr>
      else (let (kept, w') = trim_data w (dataBacklog w @ batch w)
            in w'\<lparr>dataBacklog := kept, batch := [], pc := AtBacklog\<rparr>))"

definition backlog_step :: "(nat \<Rightarrow> bool) \<Rightarrow> ('d, 'a) worker_loop_scheme \<Rightarrow> ('d, 'a) worker_loop_scheme" where
  "backlog_step pipe w =
     (if dataBacklog w \<noteq> [] \<and> controlBacklog w = [] \<and> queue_empty (m_controlQueue w)
      then (sendBatch pipe w (dataBacklog w))\<lparr>dataBacklog := [], didWork := True, pc := AtEncoded\<rparr>
      else w\<lparr>pc := AtEncoded\<rparr>)"

definition encoded_gate_step :: "('d, 'a) worker_loop_scheme \<Rightarrow> ('d, 'a) worker_loop_scheme" where
  "encoded_gate_step w =
     (if isOnline w \<and> controlBacklog w = [] \<and> queue_empty (m_controlQueue w) \<and> m_hasEncoded w
      then w\<lparr>pc := AtEncodedDrain\<rparr> else w\<lparr>pc := AtSyncControl\<rparr>)"

fun sendEncodedBatch :: "(nat \<Rightarrow> bool) \<Rightarrow> ('d, 'a) worker_loop_scheme \<Rightarrow> wire_message list \<Rightarrow>
    ('d, 'a) worker_loop_scheme" where
  "sendEncodedBatch pipe w [] = w"
| "sendEncodedBatch pipe w (m # ms) =
     (let (ok, w') = wire_send pipe w
      in sendEncodedBatch pipe
           (if ok then depart (EncodedSent m) w' else noteDroppedSend (depart (EncodedRefused m) w')) ms)"

definition encoded_drain_step :: "(nat \<Rightarrow> bool) \<Rightarrow> ('d, 'a) worker_loop_scheme \<Rightarrow> ('d, 'a) worker_loop_scheme" where
  "encoded_drain_step pipe w =
     (let (drained, q) = drainTo (m_encodedQueue w);
          w' = sendEncodedBatch pipe (w\<lparr>m_encodedQueue := q, pc := AtSyncControl\<rparr>) drained
      in w'\<lparr>didWork := didWork w' \<or> drained \<noteq> []\<rparr>)"

text \<open>The sync block. Its condition asks the three queues one after the other, each behind its own mutex,
  and only then looks at the request.\<close>

definition sync_control_step :: "('d, 'a) worker_loop_scheme \<Rightarrow> ('d, 'a) worker_loop_scheme" where
  "sync_control_step w =
     w\<lparr>pc := if isOnline w \<and> controlBacklog w = [] \<and> dataBacklog w = [] \<and> queue_empty (m_controlQueue w)
             then AtSyncOutbound else AtTimers\<rparr>"

definition sync_outbound_step :: "('d, 'a) worker_loop_scheme \<Rightarrow> ('d, 'a) worker_loop_scheme" where
  "sync_outbound_step w = w\<lparr>pc := if queue_empty (m_outboundQueue w) then AtSyncEncoded else AtTimers\<rparr>"

definition sync_encoded_step :: "('d, 'a) worker_loop_scheme \<Rightarrow> ('d, 'a) worker_loop_scheme" where
  "sync_encoded_step w = w\<lparr>pc := if queue_empty (m_encodedQueue w) then AtSyncRequest else AtTimers\<rparr>"

definition sync_request_step :: "('d, 'a) worker_loop_scheme \<Rightarrow> ('d, 'a) worker_loop_scheme" where
  "sync_request_step w =
     (if m_syncRequested w then w\<lparr>m_syncRequested := False, pc := AtSyncBeat\<rparr> else w\<lparr>pc := AtTimers\<rparr>)"

definition sync_beat_step :: "(nat \<Rightarrow> bool) \<Rightarrow> time \<Rightarrow> ('d, 'a) worker_loop_scheme \<Rightarrow> ('d, 'a) worker_loop_scheme" where
  "sync_beat_step pipe now w = (sendHeartbeat pipe w)\<lparr>lastHeartbeat := now, pc := AtSyncTarget\<rparr>"

definition sync_target_step :: "('d, 'a) worker_loop_scheme \<Rightarrow> ('d, 'a) worker_loop_scheme" where
  "sync_target_step w = w\<lparr>m_syncTarget := m_heartbeatsSent w, pc := AtTimers\<rparr>"

definition timers_step :: "(nat \<Rightarrow> bool) \<Rightarrow> time \<Rightarrow> ('d, 'a) worker_loop_scheme \<Rightarrow> ('d, 'a) worker_loop_scheme" where
  "timers_step pipe now w =
     (let w1 = (if heartbeatInterval (m_config w) < now - lastHeartbeat w
                then (sendHeartbeat pipe w)\<lparr>lastHeartbeat := now\<rparr> else w);
          w2 = (if isOnline w1 \<and> serverTimeout (m_config w1) < now - lastRxTime w1
                then w1\<lparr>isOnline := False, w_status := w_status w1 @ [False]\<rparr> else w1)
      in w2\<lparr>pc := if w_running w2 then AtRecv else AtFinal\<rparr>)"

text \<open>The drain at shutdown: at most a hundred attempts to place what is left of the control messages.\<close>

fun flush_retries :: "nat \<Rightarrow> (nat \<Rightarrow> bool) \<Rightarrow> ('d, 'a) worker_loop_scheme \<Rightarrow> envelope list \<Rightarrow>
    envelope list \<times> ('d, 'a) worker_loop_scheme" where
  "flush_retries 0 pipe w es = (es, w)"
| "flush_retries (Suc n) pipe w es =
     (let (left, w') = flushControl pipe w es
      in if left = [] then (left, w') else flush_retries n pipe w' left)"

definition final_step :: "(nat \<Rightarrow> bool) \<Rightarrow> ('d, 'a) worker_loop_scheme \<Rightarrow> ('d, 'a) worker_loop_scheme" where
  "final_step pipe w =
     (let (drained, q) = drainTo (m_controlQueue w);
          (left, w') = flush_retries 100 pipe (w\<lparr>m_controlQueue := q\<rparr>) (controlBacklog w @ drained)
      in w'\<lparr>controlBacklog := left, pc := Finished\<rparr>)"

definition loop_step :: "(nat \<Rightarrow> bool) \<Rightarrow> time \<Rightarrow> envelope option \<Rightarrow> ('d, 'a) worker_loop_scheme \<Rightarrow>
    ('d, 'a) worker_loop_scheme" where
  "loop_step pipe now inb w =
     (case pc w of
        AtRecv \<Rightarrow> recv_step now inb w
      | AtControl \<Rightarrow> control_step pipe w
      | AtOutbound \<Rightarrow> outbound_step w
      | AtDataCheck \<Rightarrow> data_check_step pipe w
      | AtBacklog \<Rightarrow> backlog_step pipe w
      | AtEncoded \<Rightarrow> encoded_gate_step w
      | AtEncodedDrain \<Rightarrow> encoded_drain_step pipe w
      | AtSyncControl \<Rightarrow> sync_control_step w
      | AtSyncOutbound \<Rightarrow> sync_outbound_step w
      | AtSyncEncoded \<Rightarrow> sync_encoded_step w
      | AtSyncRequest \<Rightarrow> sync_request_step w
      | AtSyncBeat \<Rightarrow> sync_beat_step pipe now w
      | AtSyncTarget \<Rightarrow> sync_target_step w
      | AtTimers \<Rightarrow> timers_step pipe now w
      | AtFinal \<Rightarrow> final_step pipe w
      | Finished \<Rightarrow> w)"

section \<open>Interleavings\<close>

text \<open>Everything that can happen to a worker, one action at a time. Every data message is tagged with the
  number of control messages the worker had accepted when it was written; the run also records the
  accepted control messages, the accepted data messages and where the \<^verbatim>\<open>sync\<close> caller stands.\<close>

datatype worker_action =
    LoopStep time "envelope option" | WriteControl envelope | WriteData envelope | WriteEncoded wire_message
  | SyncBegin | SyncLook bool | StopWorker

type_synonym tagged = "nat \<times> envelope"

record worker_system =
  sys_worker :: "tagged worker_loop"
  sys_sync :: sync_phase
  sys_control :: "envelope list"
  sys_data :: "tagged list"

primrec worker_act :: "(nat \<Rightarrow> bool) \<Rightarrow> worker_action \<Rightarrow> worker_system \<Rightarrow> worker_system" where
  "worker_act pipe (LoopStep now inb) s = s\<lparr>sys_worker := loop_step pipe now inb (sys_worker s)\<rparr>"
| "worker_act pipe (WriteControl e) s =
     (let (ok, w) = writeControlMessage (sys_worker s) e
      in s\<lparr>sys_worker := w, sys_control := sys_control s @ (if ok then [e] else [])\<rparr>)"
| "worker_act pipe (WriteData e) s =
     (let d = (length (sys_control s), e); (ok, w) = writeMessage (sys_worker s) d
      in s\<lparr>sys_worker := w, sys_data := sys_data s @ (if ok then [d] else [])\<rparr>)"
| "worker_act pipe (WriteEncoded m) s = s\<lparr>sys_worker := snd (writeEncoded (sys_worker s) m)\<rparr>"
| "worker_act pipe SyncBegin s =
     (case sys_sync s of
        AwaitTarget \<Rightarrow> s
      | AwaitAck _ \<Rightarrow> s
      | _ \<Rightarrow> (let (p, w) = sync_begin (sys_worker s) in s\<lparr>sys_worker := w, sys_sync := p\<rparr>))"
| "worker_act pipe (SyncLook expired) s =
     (let (p, w) = sync_look expired (sys_sync s) (sys_worker s) in s\<lparr>sys_worker := w, sys_sync := p\<rparr>)"
| "worker_act pipe StopWorker s = s\<lparr>sys_worker := worker_stop (sys_worker s)\<rparr>"

definition worker_system_start :: "connection_config \<Rightarrow> time \<Rightarrow> inbound_sink \<Rightarrow> worker_system" where
  "worker_system_start cfg now sink =
     \<lparr>sys_worker = enter_loop now sink (worker_start (new_worker cfg)), sys_sync = SyncIdle,
      sys_control = [], sys_data = []\<rparr>"

definition worker_run :: "(nat \<Rightarrow> bool) \<Rightarrow> worker_action list \<Rightarrow> worker_system \<Rightarrow> worker_system" where
  "worker_run pipe acts s = fold (worker_act pipe) acts s"

section \<open>What leaves, and in which order\<close>

fun departed_control :: "'d departure list \<Rightarrow> envelope list" where
  "departed_control [] = []"
| "departed_control (ControlSent e # t) = e # departed_control t"
| "departed_control (ControlDropped e # t) = e # departed_control t"
| "departed_control (_ # t) = departed_control t"

fun departed_data :: "'d departure list \<Rightarrow> 'd list" where
  "departed_data [] = []"
| "departed_data (DataSent d # t) = d # departed_data t"
| "departed_data (DataRefused d # t) = d # departed_data t"
| "departed_data (DataDropped d # t) = d # departed_data t"
| "departed_data (_ # t) = departed_data t"

lemma departed_append [simp]:
  "departed_control (a @ b) = departed_control a @ departed_control b"
  "departed_data (a @ b) = departed_data a @ departed_data b"
  by (induction a rule: departed_control.induct; simp) (induction a rule: departed_data.induct; simp)

text \<open>Every data message that was put on the wire had no more than the given number of control messages
  ahead of it, counted at its writing.\<close>

fun tags_ok :: "nat \<Rightarrow> tagged departure list \<Rightarrow> bool" where
  "tags_ok k [] \<longleftrightarrow> True"
| "tags_ok k (ControlSent e # t) \<longleftrightarrow> tags_ok (Suc k) t"
| "tags_ok k (ControlDropped e # t) \<longleftrightarrow> tags_ok (Suc k) t"
| "tags_ok k (DataSent d # t) \<longleftrightarrow> fst d \<le> k \<and> tags_ok k t"
| "tags_ok k (_ # t) \<longleftrightarrow> tags_ok k t"

lemma tags_ok_append: "tags_ok k (a @ b) \<longleftrightarrow> tags_ok k a \<and> tags_ok (k + length (departed_control a)) b"
  by (induction k a rule: tags_ok.induct) auto

lemma tags_ok_no_data: "departed_data t = [] \<Longrightarrow> tags_ok k t"
  by (induction k t rule: tags_ok.induct) auto

lemma tags_ok_bound:
  "departed_control t = [] \<Longrightarrow> (\<And>d. d \<in> set (departed_data t) \<Longrightarrow> fst d \<le> k) \<Longrightarrow> tags_ok k t"
  by (induction k t rule: tags_ok.induct) auto

subsection \<open>The shape of the send loops\<close>

text \<open>Each of the loops only offers groups, counts drops and extends the trace.\<close>

definition sends :: "('d, 'a) worker_loop_scheme \<Rightarrow> 'd departure list \<Rightarrow> ('d, 'a) worker_loop_scheme \<Rightarrow> bool" where
  "sends w evs w' \<longleftrightarrow>
     (\<exists>n d. w' = w\<lparr>m_droppedSends := d, w_attempts := n, w_trace := w_trace w @ evs\<rparr>)"

lemma sends_refl [intro]: "sends w [] w"
  unfolding sends_def by (rule exI[of _ "w_attempts w"], rule exI[of _ "m_droppedSends w"]) simp

lemma sends_trans: "sends w a w' \<Longrightarrow> sends w' b w'' \<Longrightarrow> sends w (a @ b) w''"
  by (force simp: sends_def)

lemma sendsI:
  "w' = w\<lparr>m_droppedSends := d, w_attempts := n, w_trace := w_trace w @ evs\<rparr> \<Longrightarrow> sends w evs w'"
  by (auto simp: sends_def)

lemma sends_attempt: "sends w [] (snd (wire_send pipe w))"
  unfolding wire_send_def
  by (rule sendsI[where d = "m_droppedSends w" and n = "w_attempts w + 1"]) simp

lemma sends_sent: "sends w [e] (depart e (snd (wire_send pipe w)))"
  unfolding wire_send_def depart_def
  by (rule sendsI[where d = "m_droppedSends w" and n = "w_attempts w + 1"]) simp

lemma sends_refused: "sends w [e] (noteDroppedSend (depart e (snd (wire_send pipe w))))"
  unfolding wire_send_def depart_def noteDroppedSend_def
  by (rule sendsI[where d = "m_droppedSends w + 1" and n = "w_attempts w + 1"], rule worker_loop.equality) simp_all

lemma sends_dropped: "sends w [e] (noteDroppedSend (depart e w))"
  unfolding depart_def noteDroppedSend_def
  by (rule sendsI[where d = "m_droppedSends w + 1" and n = "w_attempts w"], rule worker_loop.equality) simp_all

lemma sends_sent_or_refused:
  "sends w [if ok then a else b] (if ok then depart a (snd (wire_send pipe w))
     else noteDroppedSend (depart b (snd (wire_send pipe w))))"
  by (simp add: sends_sent sends_refused)

lemma sendBatch_sends:
  "\<exists>evs. sends w evs (sendBatch pipe w ds) \<and> departed_control evs = [] \<and> departed_data evs = ds"
proof (induction ds arbitrary: w)
  case Nil
  show ?case by (rule exI[of _ "[]"]) (simp add: sends_refl)
next
  case (Cons d ds)
  let ?ok = "fst (wire_send pipe w)"
  let ?w1 = "if ?ok then depart (DataSent d) (snd (wire_send pipe w))
      else noteDroppedSend (depart (DataRefused d) (snd (wire_send pipe w)))"
  obtain evs where evs: "sends ?w1 evs (sendBatch pipe ?w1 ds)" "departed_control evs = []" "departed_data evs = ds"
    using Cons.IH by blast
  have "sends w ([if ?ok then DataSent d else DataRefused d] @ evs) (sendBatch pipe ?w1 ds)"
    by (rule sends_trans[OF sends_sent_or_refused evs(1)])
  then show ?case using evs(2,3)
    by (intro exI[of _ "[if ?ok then DataSent d else DataRefused d] @ evs"]) (simp add: split_def split: if_splits)
qed

lemma sendEncodedBatch_sends:
  "\<exists>evs. sends w evs (sendEncodedBatch pipe w ms) \<and> departed_control evs = [] \<and> departed_data evs = []"
proof (induction ms arbitrary: w)
  case Nil
  show ?case by (rule exI[of _ "[]"]) (simp add: sends_refl)
next
  case (Cons m ms)
  let ?ok = "fst (wire_send pipe w)"
  let ?w1 = "if ?ok then depart (EncodedSent m) (snd (wire_send pipe w))
      else noteDroppedSend (depart (EncodedRefused m) (snd (wire_send pipe w)))"
  obtain evs where evs: "sends ?w1 evs (sendEncodedBatch pipe ?w1 ms)" "departed_control evs = []" "departed_data evs = []"
    using Cons.IH by blast
  have "sends w ([if ?ok then EncodedSent m else EncodedRefused m] @ evs) (sendEncodedBatch pipe ?w1 ms)"
    by (rule sends_trans[OF sends_sent_or_refused evs(1)])
  then show ?case using evs(2,3)
    by (intro exI[of _ "[if ?ok then EncodedSent m else EncodedRefused m] @ evs"]) (simp add: split_def split: if_splits)
qed

lemma trim_control_sends:
  "\<exists>evs. sends w evs (snd (trim_control w es)) \<and> departed_data evs = [] \<and>
     departed_control evs @ fst (trim_control w es) = es \<and>
     length (fst (trim_control w es)) \<le> CONTROL_BACKLOG_LIMIT"
proof (induction w es rule: trim_control.induct)
  case (1 w)
  show ?case by (rule exI[of _ "[]"]) (simp add: sends_refl)
next
  case (2 w e es)
  show ?case
  proof (cases "CONTROL_BACKLOG_LIMIT < length (e # es)")
    case True
    from "2.IH"[OF True] obtain evs where "sends (noteDroppedSend (depart (ControlDropped e) w)) evs
        (snd (trim_control (noteDroppedSend (depart (ControlDropped e) w)) es)) \<and> departed_data evs = [] \<and>
      departed_control evs @ fst (trim_control (noteDroppedSend (depart (ControlDropped e) w)) es) = es \<and>
      length (fst (trim_control (noteDroppedSend (depart (ControlDropped e) w)) es)) \<le> CONTROL_BACKLOG_LIMIT"
      by blast
    then show ?thesis
      using sends_trans[OF sends_dropped[of w "ControlDropped e"]] True
      by (intro exI[of _ "[ControlDropped e] @ evs"]) simp
  next
    case False
    then show ?thesis by (intro exI[of _ "[]"]) (simp add: sends_refl)
  qed
qed

lemma trim_data_sends:
  "\<exists>evs. sends w evs (snd (trim_data w ds)) \<and> departed_control evs = [] \<and>
     departed_data evs @ fst (trim_data w ds) = ds \<and>
     length (fst (trim_data w ds)) \<le> DATA_BACKLOG_LIMIT \<and> (\<forall>d. DataSent d \<notin> set evs)"
proof (induction w ds rule: trim_data.induct)
  case (1 w)
  show ?case by (rule exI[of _ "[]"]) (simp add: sends_refl)
next
  case (2 w d ds)
  show ?case
  proof (cases "DATA_BACKLOG_LIMIT < length (d # ds)")
    case True
    from "2.IH"[OF True] obtain evs where "sends (noteDroppedSend (depart (DataDropped d) w)) evs
        (snd (trim_data (noteDroppedSend (depart (DataDropped d) w)) ds)) \<and> departed_control evs = [] \<and>
      departed_data evs @ fst (trim_data (noteDroppedSend (depart (DataDropped d) w)) ds) = ds \<and>
      length (fst (trim_data (noteDroppedSend (depart (DataDropped d) w)) ds)) \<le> DATA_BACKLOG_LIMIT \<and>
      (\<forall>d. DataSent d \<notin> set evs)"
      by blast
    then show ?thesis
      using sends_trans[OF sends_dropped[of w "DataDropped d"]] True
      by (intro exI[of _ "[DataDropped d] @ evs"]) simp
  next
    case False
    then show ?thesis by (intro exI[of _ "[]"]) (simp add: sends_refl)
  qed
qed

lemma flushControl_sends:
  "\<exists>evs. sends w evs (snd (flushControl pipe w es)) \<and> departed_data evs = [] \<and>
     departed_control evs @ fst (flushControl pipe w es) = es \<and> (\<forall>e. ControlDropped e \<notin> set evs)"
proof (induction es arbitrary: w)
  case Nil
  show ?case by (rule exI[of _ "[]"]) (simp add: sends_refl)
next
  case (Cons e es)
  let ?w1 = "depart (ControlSent e) (snd (wire_send pipe w))"
  show ?case
  proof (cases "fst (wire_send pipe w)")
    case True
    obtain evs where "sends ?w1 evs (snd (flushControl pipe ?w1 es)) \<and> departed_data evs = [] \<and>
        departed_control evs @ fst (flushControl pipe ?w1 es) = es \<and> (\<forall>e. ControlDropped e \<notin> set evs)"
      using Cons.IH by blast
    then show ?thesis
      using sends_trans[OF sends_sent[of w "ControlSent e" pipe]] True
      by (intro exI[of _ "[ControlSent e] @ evs"]) (simp add: split_def)
  next
    case False
    then show ?thesis using sends_attempt[of w pipe] by (intro exI[of _ "[]"]) (simp add: split_def)
  qed
qed

lemma flush_retries_sends:
  "\<exists>evs. sends w evs (snd (flush_retries n pipe w es)) \<and> departed_data evs = [] \<and>
     departed_control evs @ fst (flush_retries n pipe w es) = es"
proof (induction n arbitrary: w es)
  case 0
  show ?case by (rule exI[of _ "[]"]) (simp add: sends_refl)
next
  case (Suc n)
  obtain l1 w1 where f: "flushControl pipe w es = (l1, w1)" by fastforce
  then obtain e1 where e1: "sends w e1 w1" "departed_data e1 = []" "departed_control e1 @ l1 = es"
    using flushControl_sends[of w pipe es] by auto
  obtain e2 where e2: "sends w1 e2 (snd (flush_retries n pipe w1 l1))" "departed_data e2 = []"
    "departed_control e2 @ fst (flush_retries n pipe w1 l1) = l1"
    using Suc.IH by blast
  show ?case
  proof (cases "l1 = []")
    case True
    then show ?thesis using f e1 by (intro exI[of _ e1]) simp
  next
    case False
    then show ?thesis using f e1 e2 sends_trans[OF e1(1) e2(1)] by (intro exI[of _ "e1 @ e2"]) simp
  qed
qed

lemma sends_fields:
  assumes "sends w evs w'"
  shows "w_trace w' = w_trace w @ evs" "controlBacklog w' = controlBacklog w" "dataBacklog w' = dataBacklog w"
    "batch w' = batch w" "m_controlQueue w' = m_controlQueue w" "m_outboundQueue w' = m_outboundQueue w"
    "m_encodedQueue w' = m_encodedQueue w" "pc w' = pc w"
  using assms by (auto simp: sends_def)

section \<open>The invariant of every interleaving\<close>

definition tags_bounded :: "envelope list \<Rightarrow> tagged list \<Rightarrow> bool" where
  "tags_bounded ctl dat \<longleftrightarrow> (\<forall>d\<in>set dat. fst d \<le> length ctl)"

definition worker_inv :: "envelope list \<Rightarrow> tagged list \<Rightarrow> tagged worker_loop \<Rightarrow> bool" where
  "worker_inv ctl dat w \<longleftrightarrow>
     ctl = departed_control (w_trace w) @ controlBacklog w @ m_queue (m_controlQueue w) \<and>
     dat = departed_data (w_trace w) @ dataBacklog w @ batch w @ m_queue (m_outboundQueue w) \<and>
     tags_bounded ctl dat \<and>
     tags_ok 0 (w_trace w) \<and>
     (pc w \<noteq> AtDataCheck \<longrightarrow> batch w = []) \<and>
     (pc w \<noteq> Finished \<longrightarrow> length (controlBacklog w) \<le> CONTROL_BACKLOG_LIMIT) \<and>
     length (dataBacklog w) \<le> DATA_BACKLOG_LIMIT"

lemma worker_inv_batch: "worker_inv ctl dat w \<Longrightarrow> pc w \<noteq> AtDataCheck \<Longrightarrow> batch w = []"
  by (simp add: worker_inv_def)

lemma worker_inv_cong:
  assumes "worker_inv ctl dat w" "w_trace w' = w_trace w" "controlBacklog w' = controlBacklog w"
    "dataBacklog w' = dataBacklog w" "batch w' = batch w" "m_controlQueue w' = m_controlQueue w"
    "m_outboundQueue w' = m_outboundQueue w" "pc w' = pc w \<or> batch w = [] \<and> pc w \<noteq> Finished"
  shows "worker_inv ctl dat w'"
  using assms by (auto simp: worker_inv_def)

lemma noteBrokerId_fields [simp, frame_simps]:
  "w_trace (noteBrokerId w i) = w_trace w" "controlBacklog (noteBrokerId w i) = controlBacklog w"
  "dataBacklog (noteBrokerId w i) = dataBacklog w" "batch (noteBrokerId w i) = batch w"
  "m_controlQueue (noteBrokerId w i) = m_controlQueue w" "m_outboundQueue (noteBrokerId w i) = m_outboundQueue w"
  "pc (noteBrokerId w i) = pc w"
  by (simp_all add: noteBrokerId_def)

lemma worker_inv_recv:
  assumes inv: "worker_inv ctl dat w" and pc: "pc w = AtRecv"
  shows "worker_inv ctl dat (recv_step now inb w)"
proof -
  have "batch w = []" using worker_inv_batch[OF inv] pc by simp
  with pc show ?thesis
    by (intro worker_inv_cong[OF inv]) (simp_all add: recv_step_def Let_def split: option.splits)
qed

lemma worker_inv_control:
  assumes "worker_inv ctl dat w" "pc w = AtControl"
  shows "worker_inv ctl dat (control_step pipe w)"
proof -
  let ?w0 = "w\<lparr>m_controlQueue := (m_controlQueue w)\<lparr>m_queue := []\<rparr>, pc := AtOutbound\<rparr>"
  let ?es = "controlBacklog w @ m_queue (m_controlQueue w)"
  obtain kept w1 where t: "trim_control ?w0 ?es = (kept, w1)" by fastforce
  then obtain e1 where e1: "sends ?w0 e1 w1" "departed_data e1 = []" "departed_control e1 @ kept = ?es"
    "length kept \<le> CONTROL_BACKLOG_LIMIT"
    using trim_control_sends[of ?w0 ?es] by auto
  obtain left w2 where f: "flushControl pipe w1 kept = (left, w2)" by fastforce
  then obtain e2 where e2: "sends w1 e2 w2" "departed_data e2 = []" "departed_control e2 @ left = kept"
    using flushControl_sends[of w1 pipe kept] by auto
  have s: "sends ?w0 (e1 @ e2) w2" by (rule sends_trans[OF e1(1) e2(1)])
  have dep: "departed_control (e1 @ e2) @ left = ?es" "departed_data (e1 @ e2) = []"
    using e1 e2 by auto
  have "length left \<le> CONTROL_BACKLOG_LIMIT"
    using e1(4) arg_cong[OF e2(3), of length] by simp
  then show ?thesis
    using assms dep t f tags_ok_no_data[OF dep(2)]
    by (auto simp: worker_inv_def control_step_def drainTo_def sends_fields[OF s] tags_ok_append)
qed

lemma worker_inv_outbound:
  "worker_inv ctl dat w \<Longrightarrow> pc w = AtOutbound \<Longrightarrow> worker_inv ctl dat (outbound_step w)"
  by (auto simp: worker_inv_def outbound_step_def drainTo_def Let_def)

lemma tags_ok_no_sends: "(\<forall>d. DataSent d \<notin> set t) \<Longrightarrow> tags_ok k t"
  by (induction k t rule: tags_ok.induct) auto

text \<open>Data goes out only when every accepted control message has left.\<close>

lemma worker_inv_sendBatch:
  assumes inv: "worker_inv ctl dat w" and empty: "controlBacklog w = []" "queue_empty (m_controlQueue w)"
    and ds: "set ds \<subseteq> set dat"
  obtains evs where "sends w evs (sendBatch pipe w ds)" "departed_control evs = []" "departed_data evs = ds"
    "tags_ok 0 (w_trace w @ evs)"
proof -
  obtain evs where evs: "sends w evs (sendBatch pipe w ds)" "departed_control evs = []" "departed_data evs = ds"
    using sendBatch_sends by blast
  have len: "length (departed_control (w_trace w)) = length ctl"
    using inv empty by (simp add: worker_inv_def queue_empty_def)
  have "tags_bounded ctl dat" using inv unfolding worker_inv_def by blast
  then have "tags_ok (length (departed_control (w_trace w))) evs"
    unfolding len using ds evs(2,3) by (intro tags_ok_bound) (auto simp: tags_bounded_def)
  then show ?thesis using that[OF evs] inv by (simp add: worker_inv_def tags_ok_append)
qed

lemma worker_inv_data_check:
  assumes inv: "worker_inv ctl dat w" and pc: "pc w = AtDataCheck"
  shows "worker_inv ctl dat (data_check_step pipe w)"
proof -
  consider "batch w = []"
    | "batch w \<noteq> []" "dataBacklog w = []" "controlBacklog w = []" "queue_empty (m_controlQueue w)"
    | "batch w \<noteq> []" "\<not> (dataBacklog w = [] \<and> controlBacklog w = [] \<and> queue_empty (m_controlQueue w))"
    by blast
  then show ?thesis
  proof cases
    case 1
    show ?thesis by (rule worker_inv_cong[OF inv]) (use 1 pc in \<open>simp_all add: data_check_step_def\<close>)
  next
    case 2
    have "set (batch w) \<subseteq> set dat" using inv by (auto simp: worker_inv_def)
    with 2 inv obtain evs where e: "sends w evs (sendBatch pipe w (batch w))" "departed_control evs = []"
      "departed_data evs = batch w" "tags_ok 0 (w_trace w @ evs)"
      by (elim worker_inv_sendBatch)
    then show ?thesis
      using inv 2 by (auto simp: data_check_step_def worker_inv_def sends_fields[OF e(1)])
  next
    case 3
    obtain kept w' where t: "trim_data w (dataBacklog w @ batch w) = (kept, w')" by fastforce
    then obtain evs where e: "sends w evs w'" "departed_control evs = []"
      "departed_data evs @ kept = dataBacklog w @ batch w" "length kept \<le> DATA_BACKLOG_LIMIT"
      "\<forall>d. DataSent d \<notin> set evs"
      using trim_data_sends[of w "dataBacklog w @ batch w"] by auto
    have "dat = departed_data (w_trace w) @ (dataBacklog w @ batch w) @ m_queue (m_outboundQueue w)"
      using inv by (simp add: worker_inv_def)
    then have "dat = departed_data (w_trace w @ evs) @ kept @ m_queue (m_outboundQueue w)"
      unfolding e(3)[symmetric] by simp
    then show ?thesis
      using 3 inv t e tags_ok_no_sends[OF e(5)]
      by (auto simp: data_check_step_def worker_inv_def sends_fields[OF e(1)] tags_ok_append)
  qed
qed

lemma worker_inv_backlog:
  assumes inv: "worker_inv ctl dat w" and pc: "pc w = AtBacklog"
  shows "worker_inv ctl dat (backlog_step pipe w)"
proof (cases "dataBacklog w \<noteq> [] \<and> controlBacklog w = [] \<and> queue_empty (m_controlQueue w)")
  case True
  have "set (dataBacklog w) \<subseteq> set dat" using inv by (auto simp: worker_inv_def)
  with True inv obtain evs where e: "sends w evs (sendBatch pipe w (dataBacklog w))" "departed_control evs = []"
    "departed_data evs = dataBacklog w" "tags_ok 0 (w_trace w @ evs)"
    by (elim worker_inv_sendBatch) auto
  then show ?thesis
    using inv True pc by (auto simp: backlog_step_def worker_inv_def sends_fields[OF e(1)])
next
  case False
  then show ?thesis
    using inv pc by (auto simp: backlog_step_def worker_inv_def intro: worker_inv_cong[OF inv])
qed

lemma worker_inv_sends_other:
  assumes "worker_inv ctl dat w" "sends w evs w'" "departed_control evs = []" "departed_data evs = []"
  shows "worker_inv ctl dat w'"
  using assms tags_ok_no_data[OF assms(4)]
  by (auto simp: worker_inv_def sends_fields[OF assms(2)] tags_ok_append)

lemma worker_inv_heartbeat: "worker_inv ctl dat w \<Longrightarrow> worker_inv ctl dat (sendHeartbeat pipe w)"
  by (auto simp: worker_inv_def sendHeartbeat_def wire_send_def depart_def tags_ok_append)

lemma worker_inv_encoded_drain:
  assumes inv: "worker_inv ctl dat w" and pc: "pc w = AtEncodedDrain"
  shows "worker_inv ctl dat (encoded_drain_step pipe w)"
proof -
  let ?w0 = "w\<lparr>m_encodedQueue := (m_encodedQueue w)\<lparr>m_queue := []\<rparr>, pc := AtSyncControl\<rparr>"
  obtain evs where e: "sends ?w0 evs (sendEncodedBatch pipe ?w0 (m_queue (m_encodedQueue w)))"
    "departed_control evs = []" "departed_data evs = []"
    using sendEncodedBatch_sends by blast
  have "worker_inv ctl dat ?w0"
    using inv pc by (intro worker_inv_cong[OF inv]) (auto simp: worker_inv_def)
  from worker_inv_sends_other[OF this e] show ?thesis
    by (rule worker_inv_cong) (auto simp: encoded_drain_step_def drainTo_def Let_def)
qed

lemma worker_inv_timers:
  assumes inv: "worker_inv ctl dat w" and pc: "pc w = AtTimers"
  shows "worker_inv ctl dat (timers_step pipe now w)"
proof -
  have hb: "batch w = []" "batch (sendHeartbeat pipe w) = []" "pc (sendHeartbeat pipe w) = AtTimers"
    using inv pc by (auto simp: worker_inv_def sendHeartbeat_def wire_send_def depart_def)
  show ?thesis
  proof (cases "heartbeatInterval (m_config w) < now - lastHeartbeat w")
    case True
    show ?thesis
      by (rule worker_inv_cong[OF worker_inv_heartbeat[OF inv, of pipe]])
        (use True hb in \<open>auto simp: timers_step_def Let_def\<close>)
  next
    case False
    show ?thesis
      by (rule worker_inv_cong[OF inv]) (use False hb pc in \<open>auto simp: timers_step_def Let_def\<close>)
  qed
qed

lemma worker_inv_final:
  assumes inv: "worker_inv ctl dat w" and pc: "pc w = AtFinal"
  shows "worker_inv ctl dat (final_step pipe w)"
proof -
  let ?w0 = "w\<lparr>m_controlQueue := (m_controlQueue w)\<lparr>m_queue := []\<rparr>\<rparr>"
  let ?es = "controlBacklog w @ m_queue (m_controlQueue w)"
  obtain left w' where f: "flush_retries 100 pipe ?w0 ?es = (left, w')" by fastforce
  then obtain evs where e: "sends ?w0 evs w'" "departed_data evs = []" "departed_control evs @ left = ?es"
    using flush_retries_sends[of ?w0 100 pipe ?es] by auto
  have "worker_inv ctl dat (w'\<lparr>controlBacklog := left, pc := Finished\<rparr>)"
    using inv pc e tags_ok_no_data[OF e(2)]
    by (auto simp: worker_inv_def sends_fields[OF e(1)] tags_ok_append)
  then show ?thesis using f by (simp add: final_step_def drainTo_def del: flush_retries.simps)
qed

lemma worker_inv_other_steps:
  assumes inv: "worker_inv ctl dat w"
  shows "pc w = AtEncoded \<Longrightarrow> worker_inv ctl dat (encoded_gate_step w)"
    "pc w = AtSyncControl \<Longrightarrow> worker_inv ctl dat (sync_control_step w)"
    "pc w = AtSyncOutbound \<Longrightarrow> worker_inv ctl dat (sync_outbound_step w)"
    "pc w = AtSyncEncoded \<Longrightarrow> worker_inv ctl dat (sync_encoded_step w)"
    "pc w = AtSyncRequest \<Longrightarrow> worker_inv ctl dat (sync_request_step w)"
    "pc w = AtSyncTarget \<Longrightarrow> worker_inv ctl dat (sync_target_step w)"
  by (rule worker_inv_cong[OF inv];
      use worker_inv_batch[OF inv] in \<open>simp add: encoded_gate_step_def sync_control_step_def
        sync_outbound_step_def sync_encoded_step_def sync_request_step_def sync_target_step_def\<close>)+

lemma worker_inv_sync_beat:
  assumes inv: "worker_inv ctl dat w" and pc: "pc w = AtSyncBeat"
  shows "worker_inv ctl dat (sync_beat_step pipe now w)"
proof -
  have "batch w = []" using worker_inv_batch[OF inv] pc by simp
  then show ?thesis
    using pc by (intro worker_inv_cong[OF worker_inv_heartbeat[OF inv, of pipe]])
      (simp_all add: sync_beat_step_def sendHeartbeat_def wire_send_def depart_def)
qed

lemmas worker_inv_steps = worker_inv_recv worker_inv_control worker_inv_outbound worker_inv_data_check
  worker_inv_backlog worker_inv_encoded_drain worker_inv_other_steps worker_inv_sync_beat worker_inv_timers
  worker_inv_final

lemma worker_inv_loop: "worker_inv ctl dat w \<Longrightarrow> worker_inv ctl dat (loop_step pipe now inb w)"
  by (cases "pc w") (simp_all add: loop_step_def worker_inv_steps)

lemma enqueue_taken: "enqueue q x = (ok, ping, q') \<Longrightarrow> m_queue q' = m_queue q @ (if ok then [x] else [])"
  by (auto simp: enqueue_def queue_ops split: if_splits)

lemma worker_inv_writeControl:
  assumes inv: "worker_inv ctl dat w" and wr: "writeControlMessage w e = (ok, w')"
  shows "worker_inv (ctl @ (if ok then [e] else [])) dat w'"
proof -
  obtain ok' ping q where q: "enqueue (m_controlQueue w) e = (ok', ping, q)" by (metis prod_cases3)
  with wr have w': "ok' = ok" "w' = w\<lparr>m_controlQueue := q, w_pings := w_pings w + (if ping then 1 else 0)\<rparr>"
    by (auto simp: writeControlMessage_def)
  have "tags_bounded ctl dat \<Longrightarrow> tags_bounded (ctl @ xs) dat" for xs
    by (auto simp: tags_bounded_def)
  then show ?thesis using inv enqueue_taken[OF q] unfolding worker_inv_def w'(2) by (auto simp: w'(1))
qed

lemma worker_inv_writeData:
  assumes inv: "worker_inv ctl dat w" and wr: "writeMessage w d = (ok, w')" and d: "fst d \<le> length ctl"
  shows "worker_inv ctl (dat @ (if ok then [d] else [])) w'"
proof -
  obtain ok' ping q where q: "enqueue (m_outboundQueue w) d = (ok', ping, q)" by (metis prod_cases3)
  with wr have w': "ok' = ok" "w' = w\<lparr>m_outboundQueue := q, w_pings := w_pings w + (if ping then 1 else 0)\<rparr>"
    by (auto simp: writeMessage_def)
  have "tags_bounded ctl dat \<Longrightarrow> tags_bounded ctl (dat @ (if ok then [d] else []))"
    using d by (auto simp: tags_bounded_def)
  then show ?thesis using inv enqueue_taken[OF q] unfolding worker_inv_def w'(2) by (auto simp: w'(1))
qed

lemma sync_look_fields:
  "w_trace (snd (sync_look x p w)) = w_trace w" "controlBacklog (snd (sync_look x p w)) = controlBacklog w"
  "dataBacklog (snd (sync_look x p w)) = dataBacklog w" "batch (snd (sync_look x p w)) = batch w"
  "m_controlQueue (snd (sync_look x p w)) = m_controlQueue w"
  "m_outboundQueue (snd (sync_look x p w)) = m_outboundQueue w" "pc (snd (sync_look x p w)) = pc w"
  by (cases p; simp)+

definition system_inv :: "worker_system \<Rightarrow> bool" where
  "system_inv s \<longleftrightarrow> worker_inv (sys_control s) (sys_data s) (sys_worker s)"

lemma system_inv_start: "system_inv (worker_system_start cfg now sink)"
  by (simp add: system_inv_def worker_system_start_def worker_inv_def enter_loop_def zmq_worker.defs
      worker_start_def new_worker_def new_queue_def tags_bounded_def)

lemma system_inv_act:
  assumes inv: "system_inv s"
  shows "system_inv (worker_act pipe a s)"
proof -
  have w: "worker_inv (sys_control s) (sys_data s) (sys_worker s)" using inv by (simp add: system_inv_def)
  show ?thesis
  proof (cases a)
    case (WriteControl e)
    then show ?thesis
      using worker_inv_writeControl[OF w] by (auto simp: system_inv_def split: prod.splits)
  next
    case (WriteData e)
    then show ?thesis
      using worker_inv_writeData[OF w, of "(length (sys_control s), e)"]
      by (auto simp: system_inv_def Let_def split: prod.splits)
  next
    case (SyncLook x)
    have "worker_inv (sys_control s) (sys_data s) (snd (sync_look x (sys_sync s) (sys_worker s)))"
      by (rule worker_inv_cong[OF w]) (simp_all add: sync_look_fields)
    then show ?thesis by (simp add: SyncLook system_inv_def Let_def split_def)
  next
    case SyncBegin
    have "worker_inv (sys_control s) (sys_data s) (snd (sync_begin (sys_worker s)))"
      by (rule worker_inv_cong[OF w]) (simp_all add: sync_begin_def)
    then show ?thesis using inv by (simp add: SyncBegin system_inv_def Let_def split_def split: sync_phase.splits)
  next
    case (WriteEncoded m)
    have "worker_inv (sys_control s) (sys_data s) (snd (writeEncoded (sys_worker s) m))"
      by (rule worker_inv_cong[OF w]) (simp_all add: writeEncoded_def split_def Let_def)
    then show ?thesis by (simp add: WriteEncoded system_inv_def)
  next
    case StopWorker
    have "worker_inv (sys_control s) (sys_data s) (worker_stop (sys_worker s))"
      by (rule worker_inv_cong[OF w]) (simp_all add: worker_stop_def)
    then show ?thesis by (simp add: StopWorker system_inv_def)
  qed (simp add: system_inv_def worker_inv_loop[OF w])
qed

lemma system_inv_run: "system_inv s \<Longrightarrow> system_inv (worker_run pipe acts s)"
  unfolding worker_run_def by (induction acts arbitrary: s) (auto intro: system_inv_act)

section \<open>Properties\<close>

text \<open>C10. In every interleaving of producers, a sync caller and the worker loop, with a send
  pipe that takes or refuses groups at will: the control messages that left the worker, followed by the
  backlog and the queue, are the accepted control messages in the order they were accepted, and the same
  holds for data messages - nothing is duplicated, reordered or lost without a recorded drop - and
  while the worker runs neither backlog exceeds its limit.\<close>

theorem worker_conserves:
  assumes "s = worker_run pipe acts (worker_system_start cfg now sink)" "w = sys_worker s"
  shows "sys_control s = departed_control (w_trace w) @ controlBacklog w @ m_queue (m_controlQueue w) \<and>
    sys_data s = departed_data (w_trace w) @ dataBacklog w @ batch w @ m_queue (m_outboundQueue w) \<and>
    (pc w \<noteq> Finished \<longrightarrow> length (controlBacklog w) \<le> CONTROL_BACKLOG_LIMIT) \<and>
    length (dataBacklog w) \<le> DATA_BACKLOG_LIMIT"
  using system_inv_run[OF system_inv_start, of pipe acts cfg now sink] assms
  unfolding system_inv_def worker_inv_def by blast

definition demo_config :: connection_config where
  "demo_config = \<lparr>cfg_address = ''tcp://h:1'', cfg_clientId = ''c'', keepAliveTime = 3000, keepAliveTimeout = 10000\<rparr>"

theorem worker_conserves_witness:
  "departed_data (w_trace (sys_worker
     (worker_run (\<lambda>_. True) [] (worker_system_start demo_config 0 NoSink)))) = []"
  using worker_conserves[OF refl refl, of "\<lambda>_. True" "[]" demo_config 0 NoSink]
  by (simp add: worker_run_def worker_system_start_def)

text \<open>C11. No data message overtakes a control message: when a data message is put on the
  wire, every control message the worker had accepted before that data message was written has already
  left - whatever the producers do between any two lock acquisitions of the loop, and whatever the send
  pipe refuses.\<close>

theorem worker_control_first:
  assumes "s = worker_run pipe acts (worker_system_start cfg now sink)"
    and "w_trace (sys_worker s) = before @ DataSent (n, e) # after"
  shows "\<exists>k. n \<le> k \<and> departed_control before = take k (sys_control s)"
proof -
  have inv: "worker_inv (sys_control s) (sys_data s) (sys_worker s)"
    using system_inv_run[OF system_inv_start, of pipe acts cfg now sink] assms(1) by (simp add: system_inv_def)
  have "tags_ok 0 (before @ DataSent (n, e) # after)" using inv assms(2) by (simp add: worker_inv_def)
  then have "n \<le> length (departed_control before)" by (simp add: tags_ok_append)
  moreover have "sys_control s = departed_control before @ departed_control after @
      controlBacklog (sys_worker s) @ m_queue (m_controlQueue (sys_worker s))"
    using inv assms(2) by (simp add: worker_inv_def)
  ultimately show ?thesis by (intro exI[of _ "length (departed_control before)"]) simp
qed

lemmas worker_eval = Let_def worker_run_def worker_system_start_def enter_loop_def zmq_worker.defs worker_start_def
  new_worker_def new_queue_def loop_step_def recv_step_def noteBrokerId_def control_step_def outbound_step_def
  data_check_step_def backlog_step_def encoded_gate_step_def sync_control_step_def sync_outbound_step_def
  sync_encoded_step_def sync_request_step_def sync_beat_step_def sync_target_step_def timers_step_def
  sendHeartbeat_def wire_send_def depart_def writeMessage_def writeControlMessage_def enqueue_def queue_ops
  sync_begin_def CONTROL_BACKLOG_LIMIT_def DATA_BACKLOG_LIMIT_def MAX_SUBSCRIPTIONS_PER_CLIENT_def
  default_max_size_def heartbeatInterval_def serverTimeout_def milliseconds_def demo_config_def sink_put_def

definition demo_ack :: envelope where
  "demo_ack = makeControl HEARTBEAT_ACK ''broker'' ''''"

definition demo_subscribe :: envelope where
  "demo_subscribe = makeControl SUBSCRIBE ''c'' ''reply''"

definition demo_data :: envelope where
  "demo_data = \<lparr>header = empty_header\<lparr>topic := ''t''\<rparr>, payload = ''p''\<rparr>"

definition demo_order :: "worker_action list" where
  "demo_order = [LoopStep 1 (Some demo_ack), WriteControl demo_subscribe, WriteData demo_data,
     LoopStep 1 None, LoopStep 1 None, LoopStep 1 None]"

lemma demo_order_trace:
  "w_trace (sys_worker (worker_run (\<lambda>_. True) demo_order (worker_system_start demo_config 0 NoSink))) =
     [ControlSent demo_subscribe, DataSent (1, demo_data)] \<and>
   sys_control (worker_run (\<lambda>_. True) demo_order (worker_system_start demo_config 0 NoSink)) = [demo_subscribe]"
  by (simp add: demo_order_def demo_ack_def worker_eval)

theorem worker_control_first_witness:
  "\<exists>k. 1 \<le> k \<and> departed_control [ControlSent demo_subscribe :: tagged departure] = take k [demo_subscribe]"
  using worker_control_first[OF refl, of "\<lambda>_. True" demo_order demo_config 0 NoSink
      "[ControlSent demo_subscribe]" 1 demo_data "[]"] demo_order_trace by simp

text \<open>The interleaving behind the sync finding: the loop has found all queues empty; now the application
  publishes and calls sync; the loop then looks at the request.\<close>

definition sync_race_run :: "worker_action list" where
  "sync_race_run =
     [LoopStep 1 None, LoopStep 1 None, LoopStep 1 None, LoopStep 1 None, LoopStep 1 None, LoopStep 1 None,
      LoopStep 1 None, LoopStep 1 None,
      LoopStep 2 (Some demo_ack), LoopStep 2 None, LoopStep 2 None, LoopStep 2 None, LoopStep 2 None,
      LoopStep 2 None, LoopStep 2 None, LoopStep 2 None, LoopStep 2 None,
      WriteData demo_data, SyncBegin,
      LoopStep 3 None, LoopStep 3 None, LoopStep 3 None, LoopStep 3 None,
      LoopStep 4 (Some demo_ack), SyncLook False, SyncLook False]"


end
