(* ===== verification/Text_Config.thy ===== *)
theory Text_Config
  imports Wisp_Prelude
begin

text \<open>Text parsing of \<^verbatim>\<open>common/config.h\<close>: ports and peer lists, over the standard conversions they use
  (\<^verbatim>\<open>std::stoi\<close>, \<^verbatim>\<open>std::to_string\<close>, \<^verbatim>\<open>std::isspace\<close> in the C locale). Loops over positions in a string are
  recursions on the rest of the string from that position.\<close>

section \<open>Standard conversions\<close>

definition is_space :: "char \<Rightarrow> bool" where
  "is_space c \<longleftrightarrow> c = CHR '' '' \<or> (of_char c \<ge> (9::nat) \<and> of_char c \<le> (13::nat))"

definition is_digit :: "char \<Rightarrow> bool" where
  "is_digit c \<longleftrightarrow> (48::nat) \<le> of_char c \<and> of_char c \<le> (57::nat)"

definition digit_value :: "char \<Rightarrow> nat" where
  "digit_value c = of_char c - 48"

definition digits_value :: "string \<Rightarrow> nat" where
  "digits_value s = fold (\<lambda>c n. 10 * n + digit_value c) s 0"

datatype stoi_result = Number int | InvalidArgument | OutOfRange

text \<open>\<^verbatim>\<open>std::stoi\<close> in base 10: leading white space and one sign are skipped, the longest run of digits counts,
  anything after it is ignored.\<close>

definition stoi :: "string \<Rightarrow> stoi_result" where
  "stoi text =
     (let s = dropWhile is_space text;
          neg = (s \<noteq> [] \<and> hd s = CHR ''-'');
          body = (if s \<noteq> [] \<and> (hd s = CHR ''-'' \<or> hd s = CHR ''+'') then tl s else s);
          ds = takeWhile is_digit body;
          v = (if neg then - int (digits_value ds) else int (digits_value ds))
      in if ds = [] then InvalidArgument
         else if v < - (2 ^ 31) \<or> 2 ^ 31 \<le> v then OutOfRange
         else Number v)"

fun to_string :: "nat \<Rightarrow> string" where
  "to_string n = (if n < 10 then [char_of (48 + n)] else to_string (n div 10) @ [char_of (48 + n mod 10)])"

declare to_string.simps [simp del]

definition int_text :: "int \<Rightarrow> string" where
  "int_text n = (if n < 0 then ''-'' @ to_string (nat (- n)) else to_string (nat n))"

lemma digit_char [simp]:
  "k < 10 \<Longrightarrow> is_digit (char_of (48 + k))" "k < 10 \<Longrightarrow> digit_value (char_of (48 + k)) = k"
  by (simp_all add: is_digit_def digit_value_def)

lemma digits_value_snoc: "digits_value (s @ [c]) = 10 * digits_value s + digit_value c"
  by (simp add: digits_value_def)

lemma to_string_digits: "to_string n \<noteq> [] \<and> list_all is_digit (to_string n) \<and> digits_value (to_string n) = n"
proof (induction n rule: to_string.induct)
  case (1 n)
  show ?case
  proof (cases "n < 10")
    case True
    then show ?thesis by (subst (1 2 3) to_string.simps) (simp add: digits_value_def)
  next
    case False
    with 1 show ?thesis by (subst (1 2 3) to_string.simps) (simp add: digits_value_snoc)
  qed
qed

lemma to_string_no_sep: "\<not> is_digit c \<Longrightarrow> c \<notin> set (to_string n)"
  using to_string_digits[of n] by (auto simp: list_all_iff)

lemma is_digit_first:
  "is_digit c \<Longrightarrow> \<not> is_space c" "is_digit c \<Longrightarrow> c \<noteq> CHR ''-''" "is_digit c \<Longrightarrow> c \<noteq> CHR ''+''"
  by (auto simp: is_digit_def is_space_def)

lemma stoi_to_string:
  assumes "rest = [] \<or> \<not> is_digit (hd rest)"
  shows "stoi (to_string n @ rest) = (if n < 2 ^ 31 then Number (int n) else OutOfRange)"
proof -
  obtain c s where cs: "to_string n = c # s" using to_string_digits[of n] by (cases "to_string n") auto
  have d: "list_all is_digit (c # s)" "digits_value (c # s) = n" using to_string_digits[of n] cs by auto
  then have c: "\<not> is_space c" "c \<noteq> CHR ''-''" "c \<noteq> CHR ''+''" by (auto dest: is_digit_first)
  have "takeWhile is_digit (c # s @ rest) = c # s"
    using d(1) assms takeWhile_append2[of "c # s" is_digit rest] by (cases rest) (auto simp: list_all_iff)
  then show ?thesis using c d(2) by (simp add: stoi_def cs Let_def del: takeWhile.simps)
qed

section \<open>Ports\<close>

definition parsePort :: "string \<Rightarrow> bool \<Rightarrow> u16 option" where
  "parsePort text zeroAllowed =
     (case stoi text of
        Number v \<Rightarrow>
          if v < (if zeroAllowed then 0 else 1) \<or> 65535 < v then None else Some (word_of_int v)
      | InvalidArgument \<Rightarrow> None
      | OutOfRange \<Rightarrow> None)"

lemma u16_less: "unat (p :: u16) < 65536"
  using unsigned_less[of p, where 'a = nat] by simp

lemma parsePort_decimal:
  assumes "rest = [] \<or> \<not> is_digit (hd rest)"
  shows "parsePort (to_string n @ rest) z = (if n = 0 \<and> \<not> z \<or> 65535 < n then None else Some (of_nat n))"
  by (cases "n < 2 ^ 31") (auto simp: parsePort_def stoi_to_string[OF assms])

lemma parsePort_to_string:
  assumes "rest = [] \<or> \<not> is_digit (hd rest)"
  shows "parsePort (to_string (unat p) @ rest) z = (if p = 0 \<and> \<not> z then None else Some p)"
  using u16_less[of p] unat_eq_zero[of p] by (simp add: parsePort_decimal[OF assms])

section \<open>Peer lists\<close>

definition trim :: "string \<Rightarrow> string" where
  "trim s = rev (dropWhile is_space (rev (dropWhile is_space s)))"

function parsePeerList :: "string \<Rightarrow> string list" where
  "parsePeerList text =
     (let item = trim (takeWhile (\<lambda>c. c \<noteq> CHR '','') text);
          found = (if item = [] then [] else [item])
      in case dropWhile (\<lambda>c. c \<noteq> CHR '','') text of
           [] \<Rightarrow> found
         | _ # rest \<Rightarrow> found @ parsePeerList rest)"
  by auto
termination
proof (relation "measure length")
  fix s item found :: string and fs :: "string list" and c rest
  assume "dropWhile (\<lambda>c. c \<noteq> CHR '','') s = c # rest"
  then have "length (c # rest) \<le> length s" by (metis length_dropWhile_le)
  then show "(rest, s) \<in> measure length" by simp
qed simp

declare parsePeerList.simps [simp del]

lemma until_sep:
  "c \<notin> set s \<Longrightarrow> takeWhile (\<lambda>x. x \<noteq> c) (s @ c # rest) = s"
  "c \<notin> set s \<Longrightarrow> dropWhile (\<lambda>x. x \<noteq> c) (s @ c # rest) = c # rest"
  "c \<notin> set s \<Longrightarrow> takeWhile (\<lambda>x. x \<noteq> c) s = s"
  "c \<notin> set s \<Longrightarrow> dropWhile (\<lambda>x. x \<noteq> c) s = []"
  by (induction s) auto

lemma parsePeerList_no_comma:
  "CHR '','' \<notin> set s \<Longrightarrow> parsePeerList s = (if trim s = [] then [] else [trim s])"
  by (subst parsePeerList.simps) (simp only: until_sep Let_def list.case not_False_eq_True)

lemma parsePeerList_comma:
  "CHR '','' \<notin> set s \<Longrightarrow>
   parsePeerList (s @ CHR '','' # rest) = (if trim s = [] then [] else [trim s]) @ parsePeerList rest"
  by (subst parsePeerList.simps) (simp only: until_sep Let_def list.case not_False_eq_True)

lemma trim_ends: "trim s \<noteq> [] \<Longrightarrow> \<not> is_space (hd (trim s)) \<and> \<not> is_space (last (trim s))"
proof -
  let ?d = "dropWhile is_space s"
  assume ne: "trim s \<noteq> []"
  then have r: "dropWhile is_space (rev ?d) \<noteq> []" by (simp add: trim_def)
  then have "\<not> is_space (hd (dropWhile is_space (rev ?d)))" by (rule hd_dropWhile)
  then have last: "\<not> is_space (last (trim s))" using r by (simp add: trim_def last_rev)
  obtain a where a: "rev ?d = a @ dropWhile is_space (rev ?d)" by (metis takeWhile_dropWhile_id)
  then have "?d = trim s @ rev a" by (metis rev_append rev_rev_ident trim_def)
  then have "hd (trim s) = hd ?d" using ne by (metis hd_append2)
  moreover have "?d \<noteq> []" using \<open>?d = trim s @ rev a\<close> ne by simp
  ultimately show ?thesis using last hd_dropWhile[of is_space s] by simp
qed

lemma set_trim: "set (trim s) \<subseteq> set s"
  by (auto simp: trim_def dest!: set_dropWhileD)

definition join_comma :: "string list \<Rightarrow> string" where
  "join_comma segs = concat (map (\<lambda>s. s @ '','') (butlast segs)) @ last segs"

lemma join_comma_simps: "join_comma [s] = s" "segs \<noteq> [] \<Longrightarrow> join_comma (s # segs) = s @ CHR '','' # join_comma segs"
  by (simp_all add: join_comma_def)

section \<open>Properties\<close>

text \<open>Parsing a port accepts the decimal form of every number from 1 to 65535 (and 0 where that is
  allowed) as that number and refuses every other number, of any size; the number is taken from the
  front of the text, so text after it - "5555junk" - does not make parsing fail.\<close>

lemma port_parsing:
  assumes "rest = [] \<or> \<not> is_digit (hd rest)"
  shows "parsePort (to_string n @ rest) z = (if n = 0 \<and> \<not> z \<or> 65535 < n then None else Some (of_nat n))"
  by (rule parsePort_decimal[OF assms])

text \<open>Splitting a comma-separated peer list yields the segments with surrounding white space
  trimmed and empty ones dropped, in order; no entry is empty, contains a comma or starts or ends with
  white space.\<close>

lemma peer_list_parsing:
  assumes "segs \<noteq> []" "\<forall>s\<in>set segs. CHR '','' \<notin> set s"
  shows "parsePeerList (join_comma segs) = filter (\<lambda>p. p \<noteq> []) (map trim segs) \<and>
    (\<forall>p\<in>set (parsePeerList (join_comma segs)).
       p \<noteq> [] \<and> CHR '','' \<notin> set p \<and> \<not> is_space (hd p) \<and> \<not> is_space (last p))"
proof -
  have eq: "parsePeerList (join_comma segs) = filter (\<lambda>p. p \<noteq> []) (map trim segs)"
    using assms
  proof (induction segs)
    case (Cons s segs)
    then show ?case
      by (cases "segs = []") (simp_all add: join_comma_simps parsePeerList_no_comma parsePeerList_comma)
  qed simp
  have "CHR '','' \<notin> set (trim s)" if "s \<in> set segs" for s
    using assms(2) that set_trim[of s] by blast
  then show ?thesis unfolding eq using trim_ends by auto
qed

end
