(* ===== verification/Discovery.thy ===== *)
theory Discovery
  imports Text_Config
begin

text \<open>LAN discovery: the beacon codec of \<^verbatim>\<open>common/beacon.cpp\<close> and the decision logic of
  \<^verbatim>\<open>server/discovery.cpp\<close>. The UDP socket, the thread and the clock are outside; a datagram, the address it
  came from and the time are arguments. The callbacks \<^verbatim>\<open>m_dial\<close> and \<^verbatim>\<open>m_drop\<close> are effects an operation
  returns, in the order it makes them.\<close>

section \<open>Beacons\<close>

record beacon =
  b_cluster :: string
  b_uuid :: string
  b_routerPort :: u16
  b_tapPort :: u16

definition MAGIC :: string where "MAGIC = ''WISP''"
definition WIRE_VERSION :: string where "WIRE_VERSION = ''1''"
definition MAX_DATAGRAM_SIZE :: nat where "MAX_DATAGRAM_SIZE = 512"

definition isValidClusterName :: "string \<Rightarrow> bool" where
  "isValidClusterName cluster \<longleftrightarrow> cluster \<noteq> [] \<and> length cluster \<le> 64 \<and> CHR ''|'' \<notin> set cluster"

definition beacon_encode :: "string \<Rightarrow> string \<Rightarrow> u16 \<Rightarrow> u16 \<Rightarrow> string" where
  "beacon_encode cluster uuid routerPort tapPort =
     MAGIC @ ''|'' @ WIRE_VERSION @ ''|'' @ cluster @ ''|'' @ uuid @ ''|'' @
     to_string (unat routerPort) @ ''|'' @ to_string (unat tapPort)"

text \<open>\<^verbatim>\<open>UdpSocket::receive\<close>: the datagram that arrived in time with its sender's address, cut to the buffer; an empty one
  counts as none. \<^verbatim>\<open>printable\<close> is whether the address could be printed.\<close>

definition udp_receive :: "(string \<times> string \<times> bool) option \<Rightarrow> nat \<Rightarrow> (string \<times> string) option" where
  "udp_receive arrival capacity =
     (case arrival of
        None \<Rightarrow> None
      | Some (ip, datagram, printable) \<Rightarrow>
          if take capacity datagram = [] \<or> \<not> printable then None else Some (ip, take capacity datagram))"

text \<open>The field loop of \<^verbatim>\<open>decode\<close>.\<close>

function split_fields :: "string \<Rightarrow> string list" where
  "split_fields s =
     (case dropWhile (\<lambda>c. c \<noteq> CHR ''|'') s of
        [] \<Rightarrow> [s]
      | _ # rest \<Rightarrow> takeWhile (\<lambda>c. c \<noteq> CHR ''|'') s # split_fields rest)"
  by auto
termination
proof (relation "measure length")
  fix s :: string and c rest
  assume "dropWhile (\<lambda>c. c \<noteq> CHR ''|'') s = c # rest"
  then have "length (c # rest) \<le> length s" by (metis length_dropWhile_le)
  then show "(rest, s) \<in> measure length" by simp
qed simp

declare split_fields.simps [simp del]

definition beacon_decode :: "string \<Rightarrow> beacon option" where
  "beacon_decode s =
     (case split_fields s of
        [f0, f1, f2, f3, f4, f5] \<Rightarrow>
          if f0 \<noteq> MAGIC \<or> f1 \<noteq> WIRE_VERSION then None
          else (case parsePort f4 False of
                  None \<Rightarrow> None
                | Some rp \<Rightarrow>
                    (case parsePort f5 True of
                       None \<Rightarrow> None
                     | Some tp \<Rightarrow>
                         Some \<lparr>b_cluster = f2, b_uuid = f3, b_routerPort = rp, b_tapPort = tp\<rparr>))
      | _ \<Rightarrow> None)"

text \<open>The listen-only \<^verbatim>\<open>Beacon::Listener\<close>: its thread, and one pass of its loop, which gives the call of \<^verbatim>\<open>m_onBeacon\<close> it makes.\<close>

record listener =
  ls_running :: bool
  ls_joinable :: bool

definition listener_start :: "listener \<Rightarrow> listener" where
  "listener_start l = (if ls_joinable l then l else l\<lparr>ls_running := True, ls_joinable := True\<rparr>)"

definition listener_stop :: "listener \<Rightarrow> listener" where
  "listener_stop l = l\<lparr>ls_running := False, ls_joinable := False\<rparr>"

definition listener_pass :: "(string \<times> string \<times> bool) option \<Rightarrow> listener \<Rightarrow> (string \<times> beacon) option" where
  "listener_pass arrival l =
     (if \<not> ls_running l then None
      else case udp_receive arrival MAX_DATAGRAM_SIZE of
             None \<Rightarrow> None
           | Some (ip, datagram) \<Rightarrow> map_option (Pair ip) (beacon_decode datagram))"

section \<open>The discovery state\<close>

definition MaxDialedPeers :: nat where "MaxDialedPeers = 64"
definition BeaconInterval :: time where "BeaconInterval = 1000000000"
definition MissedBeaconsBeforeDrop :: int where "MissedBeaconsBeforeDrop = 5"

record peer_entry =
  pe_address :: string
  pe_lastSeen :: time

record discovery =
  m_cluster :: string
  m_selfUuid :: string
  m_routerPort :: u16
  m_tapPort :: u16
  m_dialed :: "(string, peer_entry) umap"

datatype discovery_effect = Dial string string | Drop string

definition new_discovery :: "string \<Rightarrow> string \<Rightarrow> u16 \<Rightarrow> u16 \<Rightarrow> discovery" where
  "new_discovery cluster self rp tp =
     \<lparr>m_cluster = cluster, m_selfUuid = self, m_routerPort = rp, m_tapPort = tp, m_dialed = []\<rparr>"

definition m_peerTimeout :: time where
  "m_peerTimeout = BeaconInterval * MissedBeaconsBeforeDrop"

definition onDatagram :: "string \<Rightarrow> string \<Rightarrow> time \<Rightarrow> discovery \<Rightarrow> discovery_effect list \<times> discovery" where
  "onDatagram senderIp datagram now d =
     (case beacon_decode datagram of
        None \<Rightarrow> ([], d)
      | Some heard \<Rightarrow>
          if b_uuid heard = m_selfUuid d then ([], d)
          else if \<not> m_selfUuid d < b_uuid heard then ([], d)
          else
            (let address = ''tcp://'' @ senderIp @ '':'' @ to_string (unat (b_routerPort heard))
             in if b_cluster heard \<noteq> m_cluster d then ([], d)
                else case map_of (m_dialed d) (b_uuid heard) of
                  None \<Rightarrow>
                    if MaxDialedPeers \<le> length (m_dialed d) then ([], d)
                    else ([Dial (b_uuid heard) address],
                          d\<lparr>m_dialed := AList.update (b_uuid heard)
                               \<lparr>pe_address = address, pe_lastSeen = now\<rparr> (m_dialed d)\<rparr>)
                | Some entry \<Rightarrow>
                    ([], d\<lparr>m_dialed := AList.update (b_uuid heard)
                             (entry\<lparr>pe_address := address, pe_lastSeen := now\<rparr>) (m_dialed d)\<rparr>)))"

definition disc_setCluster :: "string \<Rightarrow> discovery \<Rightarrow> discovery_effect list \<times> discovery" where
  "disc_setCluster cluster d =
     (if cluster = m_cluster d then ([], d)
      else (map (\<lambda>e. Drop (fst e)) (m_dialed d), d\<lparr>m_cluster := cluster, m_dialed := []\<rparr>))"

definition stale :: "time \<Rightarrow> string \<times> peer_entry \<Rightarrow> bool" where
  "stale now e \<longleftrightarrow> m_peerTimeout < now - pe_lastSeen (snd e)"

definition expireStale :: "time \<Rightarrow> discovery \<Rightarrow> discovery_effect list \<times> discovery" where
  "expireStale now d =
     (map (\<lambda>e. Drop (fst e)) (filter (stale now) (m_dialed d)),
      d\<lparr>m_dialed := filter (\<lambda>e. \<not> stale now e) (m_dialed d)\<rparr>)"

text \<open>One turn of \<^verbatim>\<open>run\<close>: the beacon broadcast when one is due, with the expiry that goes with it, then at most
  one datagram. The result carries the next beacon time and the datagram broadcast, if any.\<close>

definition discovery_turn :: "time \<Rightarrow> time \<Rightarrow> (string \<times> string) option \<Rightarrow> time \<Rightarrow> discovery \<Rightarrow>
    time \<times> string option \<times> discovery_effect list \<times> discovery" where
  "discovery_turn nextBeacon now received rxTime d =
     (let (next, wire, effs, d1) =
            (if nextBeacon \<le> now
             then (let (effs, d1) = expireStale now d
                   in (now + BeaconInterval,
                       Some (beacon_encode (m_cluster d) (m_selfUuid d) (m_routerPort d) (m_tapPort d)), effs, d1))
             else (nextBeacon, None, [], d))
      in case received of
           None \<Rightarrow> (next, wire, effs, d1)
         | Some (ip, bytes) \<Rightarrow>
             (if bytes = [] then (next, wire, effs, d1)
              else (let (effs', d2) = onDatagram ip bytes rxTime d1 in (next, wire, effs @ effs', d2))))"

section \<open>The codec\<close>

lemma split_fields_sep: "CHR ''|'' \<notin> set s \<Longrightarrow> split_fields (s @ CHR ''|'' # rest) = s # split_fields rest"
  by (subst split_fields.simps) (simp only: until_sep list.case not_False_eq_True)

lemma split_fields_last: "CHR ''|'' \<notin> set s \<Longrightarrow> split_fields s = [s]"
  by (subst split_fields.simps) (simp only: until_sep list.case not_False_eq_True)

lemma to_string_no_bar [simp]: "CHR ''|'' \<notin> set (to_string n)"
  by (rule to_string_no_sep) (simp add: is_digit_def)

lemma beacon_decode_encode:
  assumes "CHR ''|'' \<notin> set cluster" "CHR ''|'' \<notin> set uuid"
  shows "beacon_decode (beacon_encode cluster uuid rp tp) =
    (if rp = 0 then None else Some \<lparr>b_cluster = cluster, b_uuid = uuid, b_routerPort = rp, b_tapPort = tp\<rparr>)"
proof -
  have "split_fields (beacon_encode cluster uuid rp tp) =
      [MAGIC, WIRE_VERSION, cluster, uuid, to_string (unat rp), to_string (unat tp)]"
    using assms split_fields_sep[of MAGIC] split_fields_sep[of WIRE_VERSION]
    by (simp add: beacon_encode_def split_fields_sep split_fields_last MAGIC_def WIRE_VERSION_def)
  then show ?thesis
    using parsePort_to_string[of "[]" rp False] parsePort_to_string[of "[]" tp True]
    by (simp add: beacon_decode_def)
qed

lemma length_to_string: "n < 10 ^ Suc k \<Longrightarrow> length (to_string n) \<le> Suc k"
proof (induction k arbitrary: n)
  case 0
  then show ?case by (subst to_string.simps) simp
next
  case (Suc k)
  then have "n div 10 < 10 ^ Suc k" by (simp add: less_mult_imp_div_less)
  with Suc.IH show ?case by (subst to_string.simps) simp
qed

lemma length_to_string_u16: "length (to_string (unat (p :: u16))) \<le> 5"
  using u16_less[of p] length_to_string[of "unat p" 4] by simp

section \<open>Histories\<close>

datatype discovery_event = Heard string string time | SwitchCluster string | ExpiryTick time

primrec disc_exec :: "discovery_event \<Rightarrow> discovery \<Rightarrow> discovery_effect list \<times> discovery" where
  "disc_exec (Heard ip bytes now) d = onDatagram ip bytes now d"
| "disc_exec (SwitchCluster c) d = disc_setCluster c d"
| "disc_exec (ExpiryTick now) d = expireStale now d"

fun disc_run :: "discovery_event list \<Rightarrow> discovery \<Rightarrow> discovery_effect list \<times> discovery" where
  "disc_run [] d = ([], d)"
| "disc_run (e # es) d =
     (let (effs, d1) = disc_exec e d; (effs', d2) = disc_run es d1 in (effs @ effs', d2))"

text \<open>The links the callbacks leave open, and that they never dial an open link or drop one that is not.\<close>

fun links_after :: "discovery_effect list \<Rightarrow> string set \<Rightarrow> string set" where
  "links_after [] S = S"
| "links_after (Dial u a # es) S = links_after es (insert u S)"
| "links_after (Drop u # es) S = links_after es (S - {u})"

fun effects_ok :: "discovery_effect list \<Rightarrow> string set \<Rightarrow> bool" where
  "effects_ok [] S \<longleftrightarrow> True"
| "effects_ok (Dial u a # es) S \<longleftrightarrow> u \<notin> S \<and> effects_ok es (insert u S)"
| "effects_ok (Drop u # es) S \<longleftrightarrow> u \<in> S \<and> effects_ok es (S - {u})"

lemma links_after_append: "links_after (a @ b) S = links_after b (links_after a S)"
  by (induction a S rule: links_after.induct) auto

lemma effects_ok_append: "effects_ok (a @ b) S \<longleftrightarrow> effects_ok a S \<and> effects_ok b (links_after a S)"
  by (induction a S rule: links_after.induct) auto

lemma links_after_drops: "links_after (map (\<lambda>e. Drop (fst e)) xs) S = S - fst ` set xs"
  by (induction xs arbitrary: S) auto

lemma effects_ok_drops:
  "distinct (map fst xs) \<Longrightarrow> fst ` set xs \<subseteq> S \<Longrightarrow> effects_ok (map (\<lambda>e. Drop (fst e)) xs) S"
proof (induction xs arbitrary: S)
  case (Cons x xs)
  have "fst x \<notin> fst ` set xs" "fst ` set xs \<subseteq> S" "fst x \<in> S" using Cons.prems by simp_all
  then have "fst ` set xs \<subseteq> S - {fst x}" by blast
  moreover have "distinct (map fst xs)" using Cons.prems by simp
  ultimately show ?case using Cons.IH[of "S - {fst x}"] \<open>fst x \<in> S\<close> by simp
qed simp

definition dialed_set :: "discovery \<Rightarrow> string set" where
  "dialed_set d = dom (map_of (m_dialed d))"

definition discovery_ok :: "discovery \<Rightarrow> bool" where
  "discovery_ok d \<longleftrightarrow> umap_ok (m_dialed d) \<and> length (m_dialed d) \<le> MaxDialedPeers \<and>
     (\<forall>u\<in>dialed_set d. m_selfUuid d < u)"

lemma length_update_umap:
  "umap_ok m \<Longrightarrow> length (AList.update k v m) = (if k \<in> fst ` set m then length m else Suc (length m))"
  by (induction m) (auto simp: umap_ok_def)

lemma map_of_filter_umap:
  "umap_ok m \<Longrightarrow> map_of (filter P m) k = (case map_of m k of None \<Rightarrow> None | Some v \<Rightarrow> if P (k, v) then Some v else None)"
proof (induction m)
  case (Cons e m)
  obtain a b where e: "e = (a, b)" by fastforce
  have "a \<notin> fst ` set m" "umap_ok m" using Cons.prems by (auto simp: umap_ok_def e)
  moreover then have "map_of m a = None" by (simp add: map_of_eq_None_iff)
  ultimately show ?case using Cons.IH by (auto simp: e)
qed simp

lemma onDatagram_cases:
  assumes "onDatagram ip bytes now d = (effs, d')"
  obtains "effs = []" "d' = d"
    | u addr where "m_selfUuid d < u" "map_of (m_dialed d) u = None" "length (m_dialed d) < MaxDialedPeers"
        "effs = [Dial u addr]"
        "d' = d\<lparr>m_dialed := AList.update u \<lparr>pe_address = addr, pe_lastSeen = now\<rparr> (m_dialed d)\<rparr>"
    | u e where "map_of (m_dialed d) u \<noteq> None" "effs = []" "d' = d\<lparr>m_dialed := AList.update u e (m_dialed d)\<rparr>"
        "pe_lastSeen e = now"
proof (cases "beacon_decode bytes")
  case None
  then show ?thesis using assms that(1) by (simp add: onDatagram_def)
next
  case (Some b)
  define addr where "addr = ''tcp://'' @ ip @ '':'' @ to_string (unat (b_routerPort b))"
  define ok where "ok \<longleftrightarrow> m_selfUuid d < b_uuid b \<and> b_uuid b \<noteq> m_selfUuid d \<and> b_cluster b = m_cluster d"
  show ?thesis
  proof (cases ok)
    case False
    then have "onDatagram ip bytes now d = ([], d)"
      using Some unfolding onDatagram_def Let_def ok_def
      by (cases "m_selfUuid d < b_uuid b"; cases "b_cluster b = m_cluster d") auto
    then show ?thesis using assms that(1) by simp
  next
    case True
    then have eq: "(effs, d') =
        (case map_of (m_dialed d) (b_uuid b) of
           None \<Rightarrow> if MaxDialedPeers \<le> length (m_dialed d) then ([], d)
             else ([Dial (b_uuid b) addr], d\<lparr>m_dialed := AList.update (b_uuid b)
                     \<lparr>pe_address = addr, pe_lastSeen = now\<rparr> (m_dialed d)\<rparr>)
         | Some entry \<Rightarrow> ([], d\<lparr>m_dialed := AList.update (b_uuid b)
             (entry\<lparr>pe_address := addr, pe_lastSeen := now\<rparr>) (m_dialed d)\<rparr>))"
      using Some unfolding assms[symmetric] onDatagram_def Let_def addr_def ok_def by simp
    show ?thesis
    proof (cases "map_of (m_dialed d) (b_uuid b)")
      case None
      then show ?thesis
        using eq True that(1) that(2)[of "b_uuid b" addr]
        by (cases "MaxDialedPeers \<le> length (m_dialed d)") (simp_all add: ok_def)
    next
      case (Some entry)
      then show ?thesis using eq that(3)[of "b_uuid b"] by simp
    qed
  qed
qed

lemma disc_exec_ok:
  assumes "discovery_ok d" "disc_exec e d = (effs, d')"
  shows "discovery_ok d' \<and> m_selfUuid d' = m_selfUuid d \<and> effects_ok effs (dialed_set d) \<and>
    links_after effs (dialed_set d) = dialed_set d'"
proof (cases e)
  case (Heard ip bytes now)
  have "onDatagram ip bytes now d = (effs, d')" using assms(2) Heard by simp
  then show ?thesis
  proof (cases rule: onDatagram_cases)
    case 1
    then show ?thesis using assms(1) by simp
  next
    case (2 u addr)
    then have "u \<notin> fst ` set (m_dialed d)" by (simp add: map_of_eq_None_iff)
    with 2 show ?thesis
      using assms(1) by (auto simp: discovery_ok_def dialed_set_def umap_simps length_update_umap split: if_splits)
  next
    case (3 u e)
    then have "u \<in> fst ` set (m_dialed d)" by (auto simp: map_of_eq_None_iff)
    with 3 show ?thesis
      using assms(1) by (auto simp: discovery_ok_def dialed_set_def umap_simps length_update_umap split: if_splits)
  qed

next
  case (SwitchCluster c)
  then show ?thesis
    using assms by (auto simp: disc_setCluster_def discovery_ok_def dialed_set_def links_after_drops
        dom_map_of_conv_image_fst umap_ok_def intro!: effects_ok_drops split: if_splits)
next
  case (ExpiryTick now)
  have u: "umap_ok (m_dialed d)" using assms(1) by (simp add: discovery_ok_def)
  have eff: "effs = map (\<lambda>e. Drop (fst e)) (filter (stale now) (m_dialed d))"
    and d': "d' = d\<lparr>m_dialed := filter (\<lambda>e. \<not> stale now e) (m_dialed d)\<rparr>"
    using assms(2) ExpiryTick by (auto simp: expireStale_def)
  have keys: "fst ` set (filter P (m_dialed d)) = {k. \<exists>v. map_of (m_dialed d) k = Some v \<and> P (k, v)}" for P
    using u by (force simp: umap_ok_def image_iff)
  have "links_after effs (dialed_set d) = dialed_set d'"
    unfolding eff links_after_drops keys by (auto simp: d' dialed_set_def map_of_filter_umap[OF u] split: option.splits if_splits)
  moreover have "effects_ok effs (dialed_set d)"
    unfolding eff using u
    by (intro effects_ok_drops) (auto simp: umap_ok_def distinct_map_filter dialed_set_def)
  moreover have "dialed_set d' \<subseteq> dialed_set d"
    by (auto simp: d' dialed_set_def map_of_filter_umap[OF u] split: option.splits if_splits)
  ultimately show ?thesis
    using assms(1) le_trans[OF length_filter_le] by (auto simp: discovery_ok_def d')
qed

lemma disc_run_ok:
  "discovery_ok d \<Longrightarrow> disc_run es d = (effs, d') \<Longrightarrow>
   discovery_ok d' \<and> m_selfUuid d' = m_selfUuid d \<and> effects_ok effs (dialed_set d) \<and>
   links_after effs (dialed_set d) = dialed_set d'"
proof (induction es arbitrary: d effs)
  case (Cons e es)
  obtain e1 d1 where 1: "disc_exec e d = (e1, d1)" by fastforce
  obtain e2 d2 where 2: "disc_run es d1 = (e2, d2)" by fastforce
  from disc_exec_ok[OF Cons.prems(1) 1] Cons.IH[of d1 e2] Cons.prems(2) 1 2 show ?case
    by (auto simp: effects_ok_append links_after_append)
qed simp

lemma discovery_ok_new: "discovery_ok (new_discovery c self rp tp)" "dialed_set (new_discovery c self rp tp) = {}"
  by (simp_all add: discovery_ok_def dialed_set_def new_discovery_def)

lemma card_dialed: "discovery_ok d \<Longrightarrow> finite (dialed_set d) \<and> card (dialed_set d) \<le> MaxDialedPeers"
proof -
  assume ok: "discovery_ok d"
  have "card (fst ` set (m_dialed d)) \<le> length (m_dialed d)"
    by (metis card_length length_map list.set_map)
  then show ?thesis using ok by (auto simp: discovery_ok_def dialed_set_def dom_map_of_conv_image_fst finite_dom_map_of)
qed

text \<open>Whether a beacon makes a broker dial its sender.\<close>

lemma onDatagram_beacon:
  assumes "CHR ''|'' \<notin> set cluster" "CHR ''|'' \<notin> set uuid" "rp \<noteq> 0"
    and "map_of (m_dialed d) uuid = None" "length (m_dialed d) < MaxDialedPeers"
  shows "fst (onDatagram ip (beacon_encode cluster uuid rp tp) now d) =
    (if m_selfUuid d < uuid \<and> cluster = m_cluster d
     then [Dial uuid (''tcp://'' @ ip @ '':'' @ to_string (unat rp))] else [])"
  using assms by (simp add: onDatagram_def beacon_decode_encode Let_def)

lemma beacon_fits:
  assumes "isValidClusterName cluster" "length uuid = 36"
  shows "length (beacon_encode cluster uuid rp tp) \<le> MAX_DATAGRAM_SIZE"
  using assms length_to_string_u16[of rp] length_to_string_u16[of tp]
  by (simp add: beacon_encode_def MAGIC_def WIRE_VERSION_def MAX_DATAGRAM_SIZE_def isValidClusterName_def)

section \<open>Properties\<close>

text \<open>C28. A beacon that a broker with a valid cluster name and a text uuid broadcasts is decoded to
  the cluster, uuid and ports it was made from, and fits the receive buffer; one with router port 0 is
  refused.\<close>

theorem beacon_roundtrip:
  assumes "isValidClusterName cluster" "length uuid = 36" "CHR ''|'' \<notin> set uuid"
  shows "beacon_decode (beacon_encode cluster uuid rp tp) =
      (if rp = 0 then None
       else Some \<lparr>b_cluster = cluster, b_uuid = uuid, b_routerPort = rp, b_tapPort = tp\<rparr>) \<and>
    length (beacon_encode cluster uuid rp tp) \<le> MAX_DATAGRAM_SIZE"
proof
  show "beacon_decode (beacon_encode cluster uuid rp tp) =
      (if rp = 0 then None else Some \<lparr>b_cluster = cluster, b_uuid = uuid, b_routerPort = rp, b_tapPort = tp\<rparr>)"
    using assms by (intro beacon_decode_encode) (auto simp: isValidClusterName_def)
  show "length (beacon_encode cluster uuid rp tp) \<le> MAX_DATAGRAM_SIZE"
    by (rule beacon_fits[OF assms(1,2)])
qed

theorem beacon_roundtrip_witness:
  "beacon_decode (beacon_encode ''lab'' (replicate 36 (CHR ''a'')) 5555 0) =
     Some \<lparr>b_cluster = ''lab'', b_uuid = replicate 36 (CHR ''a''), b_routerPort = 5555, b_tapPort = 0\<rparr>"
  using beacon_roundtrip[of "''lab''" "replicate 36 (CHR ''a'')" 5555 0] by (simp add: isValidClusterName_def)



text \<open>C27. Of two brokers in one cluster that hear each other's beacons and have room for a peer,
  exactly one dials the other; brokers in different clusters never dial.\<close>

theorem one_side_dials:
  assumes "CHR ''|'' \<notin> set (m_selfUuid a)" "CHR ''|'' \<notin> set (m_selfUuid b)" "m_selfUuid a \<noteq> m_selfUuid b"
    and "CHR ''|'' \<notin> set (m_cluster a)" "CHR ''|'' \<notin> set (m_cluster b)" "m_routerPort a \<noteq> 0" "m_routerPort b \<noteq> 0"
    and "length (m_dialed a) < MaxDialedPeers" "map_of (m_dialed a) (m_selfUuid b) = None"
    and "length (m_dialed b) < MaxDialedPeers" "map_of (m_dialed b) (m_selfUuid a) = None"
  shows "let heardByA = fst (onDatagram ipB (beacon_encode (m_cluster b) (m_selfUuid b) (m_routerPort b) tb) now a);
             heardByB = fst (onDatagram ipA (beacon_encode (m_cluster a) (m_selfUuid a) (m_routerPort a) ta) now b)
    in (if m_cluster a = m_cluster b then (heardByA = []) \<noteq> (heardByB = []) else heardByA = [] \<and> heardByB = [])"
  using assms by (auto simp: Let_def onDatagram_beacon)

theorem one_side_dials_witness:
  "(fst (onDatagram ''10.0.0.2'' (beacon_encode ''c'' ''v'' 2 0) 0 (new_discovery ''c'' ''u'' 1 0)) = []) \<noteq>
   (fst (onDatagram ''10.0.0.1'' (beacon_encode ''c'' ''u'' 1 0) 0 (new_discovery ''c'' ''v'' 2 0)) = [])"
  using one_side_dials[of "new_discovery ''c'' ''u'' 1 0" "new_discovery ''c'' ''v'' 2 0" "''10.0.0.2''" 0 0
      "''10.0.0.1''" 0]
  by (simp add: new_discovery_def MaxDialedPeers_def)

text \<open>An expiry pass drops exactly the peers whose last beacon is more than five beacon intervals
  old and keeps the entries of all others unchanged.\<close>

lemma expiry_exact:
  assumes "discovery_ok d"
  shows "(Drop u \<in> set (fst (expireStale now d)) \<longleftrightarrow>
      (\<exists>e. map_of (m_dialed d) u = Some e \<and> 5 * BeaconInterval < now - pe_lastSeen e)) \<and>
    map_of (m_dialed (snd (expireStale now d))) u =
      (case map_of (m_dialed d) u of
         None \<Rightarrow> None | Some e \<Rightarrow> if 5 * BeaconInterval < now - pe_lastSeen e then None else Some e)"
proof -
  have ok: "umap_ok (m_dialed d)" using assms by (simp add: discovery_ok_def)
  have st: "stale now (k, e) \<longleftrightarrow> 5 * BeaconInterval < now - pe_lastSeen e" for k e
    by (simp add: stale_def m_peerTimeout_def MissedBeaconsBeforeDrop_def mult.commute)
  have "Drop u \<in> set (fst (expireStale now d)) \<longleftrightarrow> (\<exists>e. (u, e) \<in> set (m_dialed d) \<and> stale now (u, e))"
    by (force simp: expireStale_def image_iff)
  then show ?thesis
    by (simp add: umap_mem_iff[OF ok] st expireStale_def map_of_filter_umap[OF ok] split: option.splits)
qed

text \<open>A running listener hears every beacon a broker of a legal cluster sends, whole.\<close>

lemma listener_hears:
  assumes "ls_running l" and "isValidClusterName cluster" and "CHR ''|'' \<notin> set uuid" and "length uuid = 36" and "rp \<noteq> 0"
  shows "listener_pass (Some (ip, beacon_encode cluster uuid rp tp, True)) l =
    Some (ip, \<lparr>b_cluster = cluster, b_uuid = uuid, b_routerPort = rp, b_tapPort = tp\<rparr>)"
proof -
  have "take MAX_DATAGRAM_SIZE (beacon_encode cluster uuid rp tp) = beacon_encode cluster uuid rp tp"
    using beacon_fits[OF assms(2,4)] by simp
  moreover have "beacon_decode (beacon_encode cluster uuid rp tp) = Some \<lparr>b_cluster = cluster, b_uuid = uuid, b_routerPort = rp, b_tapPort = tp\<rparr>"
    using beacon_decode_encode[of cluster uuid rp tp] assms by (simp add: isValidClusterName_def)
  moreover have "beacon_encode cluster uuid rp tp \<noteq> []" by (simp add: beacon_encode_def)
  ultimately show ?thesis using assms(1) by (simp add: listener_pass_def udp_receive_def MAX_DATAGRAM_SIZE_def)
qed

end
