(* ===== verification/Broker_State.thy ===== *)
theory Broker_State
  imports Subscription_Registry Message_Id_Set Zmq_Worker Discovery Uuid
begin

unbundle bit_operations_syntax

text \<open>The state of \<^verbatim>\<open>Broker\<close> (\<^verbatim>\<open>server/broker.h\<close>) and the part of \<^verbatim>\<open>server/broker.cpp\<close> that keeps the interest of a
  broker and its peer links in step: \<^verbatim>\<open>noteTopicSubscribed\<close>, \<^verbatim>\<open>noteTopicUnsubscribed\<close>,
  \<^verbatim>\<open>noteMeshInterestChange\<close>, \<^verbatim>\<open>sendInterestTo\<close>, \<^verbatim>\<open>addPeer\<close>, \<^verbatim>\<open>removePeer\<close> and the message callback of a
  link. A broker is one record, and every member function is a function on it. What its sockets were
  given is recorded in \<^verbatim>\<open>b_net\<close>, refused groups included; whether the ROUTER socket takes a group
  for a client is an arbitrary function of that record (\<^verbatim>\<open>env_router\<close>). Logging is left out.\<close>

section \<open>State\<close>

record client_state =
  lastSeen :: time
  droppedMessages :: u64

text \<open>One link this broker dialed. The flag is shared with the link's own thread in the code.\<close>

record peer_link =
  pl_address :: string
  pl_linkId :: string
  pl_worker :: "envelope zmq_worker"
  pl_active :: bool

text \<open>A group offered to the ROUTER socket for a client, with whether it was taken, or a message shown to
  the inspector tap.\<close>

datatype net_event = ToClient string string string bool | Tap string string

record broker = seen_windows +
  m_brokerId :: string
  m_clientTimeout :: time
  m_cleanupInterval :: time
  m_clients :: "(string, client_state) umap"
  m_subscriptions :: registry
  m_interest :: "string list"
  m_interestSaturated :: bool
  m_interestWildcard :: bool
  m_peers :: "(string, peer_link) umap"
  m_peerInboundQueue :: "envelope safe_queue"
  m_discovery :: "discovery option"
  m_discoveryEnabled :: bool
  m_clusterName :: string
  m_discoveryPort :: u16
  m_inspectorTcpPort :: u16
  m_inspectorEndpoint :: string
  m_startTime :: time
  m_lastStatsTime :: time
  m_totalMessages :: u64
  m_totalDropped :: u64
  m_rejectedSubscriptions :: u64
  m_msgsInterval :: u64
  m_bytesInterval :: u64
  b_running :: bool
  b_joinable :: bool
  b_lastCleanup :: time
  b_net :: "net_event list"

definition MaxMessagesPerWake :: nat where "MaxMessagesPerWake = 1000"
definition MaxRemovalsPerSweep :: nat where "MaxRemovalsPerSweep = 16"
definition MaxInterestTopics :: nat where "MaxInterestTopics = 1000"
definition MaxListedSubscriptions :: nat where "MaxListedSubscriptions = 64"

text \<open>\<^verbatim>\<open>Broker::Broker\<close>; the client timeout in milliseconds, and the broker's own uuid as drawn.\<close>

definition new_broker :: "nat \<Rightarrow> string \<Rightarrow> broker" where
  "new_broker clientTimeout uuid =
     \<lparr>m_seenCurrent = new_id_set DedupSetCapacity, m_seenPrevious = new_id_set DedupSetCapacity,
      m_brokerId = uuid, m_clientTimeout = int clientTimeout * 1000000,
      m_cleanupInterval = int (min 2000 (clientTimeout div 2)) * 1000000,
      m_clients = [], m_subscriptions = empty_registry, m_interest = [], m_interestSaturated = False,
      m_interestWildcard = False, m_peers = [], m_peerInboundQueue = new_queue default_max_size,
      m_discovery = None, m_discoveryEnabled = False, m_clusterName = '''', m_discoveryPort = 5670,
      m_inspectorTcpPort = 0, m_inspectorEndpoint = ''ipc:///tmp/broker_inspector.sock'',
      m_startTime = 0, m_lastStatsTime = 0, m_totalMessages = 0, m_totalDropped = 0,
      m_rejectedSubscriptions = 0, m_msgsInterval = 0, m_bytesInterval = 0, b_running = False,
      b_joinable = False, b_lastCleanup = 0, b_net = []\<rparr>"

section \<open>Sockets\<close>

text \<open>The statistics message of \<^verbatim>\<open>broker.proto\<close>. The two rates are quotients of doubles; the message carries
  their operands: messages, bytes and elapsed nanoseconds.\<close>

record client_info =
  ci_id :: string
  ci_dropped_messages :: u64
  ci_subscription_count :: u32
  ci_subscriptions :: "string list"

record system_stats =
  st_broker_id :: string
  st_clients_count :: nat
  st_peers_count :: nat
  st_rates :: "u64 \<times> u64 \<times> time"
  st_total_msgs :: u64
  st_uptime_sec :: int
  st_cluster :: string
  st_total_dropped :: u64
  st_total_rejected_subs :: u64
  st_connected_clients :: "client_info list"

text \<open>What is outside the program: the header codec, the packing of the statistics into an \<^verbatim>\<open>Any\<close>, and the
  ROUTER socket's willingness to take a group.\<close>

record broker_env =
  env_codec :: header_codec
  env_pack :: "system_stats \<Rightarrow> string"
  env_router :: "net_event list \<Rightarrow> string \<Rightarrow> bool"

definition sendTo :: "broker_env \<Rightarrow> string \<Rightarrow> string \<Rightarrow> string \<Rightarrow> broker \<Rightarrow> bool \<times> broker" where
  "sendTo env identity hb pl b =
     (let ok = env_router env (b_net b) identity
      in (ok, b\<lparr>b_net := b_net b @ [ToClient identity hb pl ok]\<rparr>))"

definition tap :: "string \<Rightarrow> string \<Rightarrow> broker \<Rightarrow> broker" where
  "tap hb pl b = b\<lparr>b_net := b_net b @ [Tap hb pl]\<rparr>"

section \<open>Interest\<close>

definition isPropagatableTopic :: "string \<Rightarrow> bool" where
  "isPropagatableTopic t \<longleftrightarrow> t \<noteq> [] \<and> t \<noteq> WILDCARD_TOPIC \<and> \<not> isReservedKey t"

text \<open>Queue control messages on one link, or on all of them, in iteration order.\<close>

definition link_control :: "string \<Rightarrow> string \<Rightarrow> peer_link \<Rightarrow> peer_link" where
  "link_control k t p =
     p\<lparr>pl_worker := snd (writeControlMessage (pl_worker p) (makeControl k (pl_linkId p) t))\<rparr>"

definition map_links :: "(peer_link \<Rightarrow> peer_link) \<Rightarrow> broker \<Rightarrow> broker" where
  "map_links f b = b\<lparr>m_peers := map (\<lambda>(k, p). (k, f p)) (m_peers b)\<rparr>"

definition noteTopicSubscribed :: "string \<Rightarrow> broker \<Rightarrow> broker" where
  "noteTopicSubscribed t b =
     (if t = WILDCARD_TOPIC then
        (if m_interestWildcard b then b
         else map_links (link_control SUBSCRIBE WILDCARD_TOPIC) (b\<lparr>m_interestWildcard := True\<rparr>))
      else if \<not> isPropagatableTopic t then b
      else if m_interestSaturated b \<or> t \<in> set (m_interest b) then b
      else
        (let b1 = b\<lparr>m_interest := oset_insert t (m_interest b)\<rparr>;
             saturatedNow = (MaxInterestTopics < length (m_interest b1));
             b2 = (if saturatedNow then b1\<lparr>m_interestSaturated := True\<rparr> else b1);
             wanted = (if saturatedNow then WILDCARD_TOPIC else t)
         in map_links (link_control SUBSCRIBE wanted) b2))"

definition noteTopicUnsubscribed :: "string \<Rightarrow> broker \<Rightarrow> broker" where
  "noteTopicUnsubscribed t b =
     (if t = WILDCARD_TOPIC then
        (if \<not> m_interestWildcard b then b
         else
           (let b1 = b\<lparr>m_interestWildcard := False\<rparr>
            in if m_interestSaturated b then b1
               else map_links
                      (\<lambda>p. fold (link_control SUBSCRIBE) (m_interest b)
                             (link_control UNSUBSCRIBE WILDCARD_TOPIC p)) b1))
      else if \<not> isPropagatableTopic t then b
      else if m_interestSaturated b \<or> t \<notin> set (m_interest b) then b
      else map_links (link_control UNSUBSCRIBE t) (b\<lparr>m_interest := oset_erase t (m_interest b)\<rparr>))"

definition noteMeshInterestChange :: "string \<Rightarrow> bool \<Rightarrow> broker \<Rightarrow> broker" where
  "noteMeshInterestChange t wantedBefore b =
     (let wantedNow = hasMeshSubscriber (m_subscriptions b) t
      in if wantedNow = wantedBefore then b
         else if wantedNow then noteTopicSubscribed t b
         else noteTopicUnsubscribed t b)"

text \<open>\<^verbatim>\<open>sendInterestTo\<close>, on a link that may not be in the table yet.\<close>

definition sendInterestTo :: "broker \<Rightarrow> peer_link \<Rightarrow> peer_link" where
  "sendInterestTo b p =
     (if m_interestSaturated b \<or> m_interestWildcard b
      then link_control SUBSCRIBE WILDCARD_TOPIC p
      else fold (link_control SUBSCRIBE) (m_interest b) p)"

section \<open>Peer links\<close>

text \<open>\<^verbatim>\<open>Detail::peerLinkId\<close>: the first eight bytes of the broker id and the top 32 bits of the key's FNV-1a hash.\<close>

definition key_hash :: "string \<Rightarrow> u64" where
  "key_hash k = fold (fnv_step 1099511628211) k 14695981039346656037"

definition peerLinkId :: "string \<Rightarrow> string \<Rightarrow> string" where
  "peerLinkId brokerId k =
     ''BrokerLink-'' @ take 8 brokerId @ ''-'' @
     map (\<lambda>i. hexChars ! unat (drop_bit (60 - i * 4) (key_hash k) AND 0xf)) [0..<8]"

definition link_config :: "string \<Rightarrow> string \<Rightarrow> connection_config" where
  "link_config address linkId =
     \<lparr>cfg_address = address, cfg_clientId = linkId, keepAliveTime = 3000, keepAliveTimeout = 10000\<rparr>"

text \<open>\<^verbatim>\<open>addPeer\<close> in its two parts: the link is made and told the broker's interest, without a lock; then it is
  started and entered into the table under the lock, unless the key or the address is linked already.
  Opening the sockets may throw; \<^verbatim>\<open>opens\<close> is whether it does not.\<close>

definition make_link :: "broker \<Rightarrow> string \<Rightarrow> string \<Rightarrow> peer_link" where
  "make_link b k address =
     (let linkId = peerLinkId (m_brokerId b) k
      in sendInterestTo b
           \<lparr>pl_address = address, pl_linkId = linkId, pl_worker = new_worker (link_config address linkId),
            pl_active = True\<rparr>)"

definition enter_link :: "string \<Rightarrow> peer_link \<Rightarrow> broker \<Rightarrow> broker" where
  "enter_link k p b =
     (if map_of (m_peers b) k \<noteq> None then b
      else if list_ex (\<lambda>(_, q). pl_address q = pl_address p) (m_peers b) then b
      else b\<lparr>m_peers := AList.update k (p\<lparr>pl_worker := worker_start (pl_worker p)\<rparr>) (m_peers b)\<rparr>)"

definition addPeer :: "bool \<Rightarrow> string \<Rightarrow> string \<Rightarrow> broker \<Rightarrow> broker" where
  "addPeer opens k address b = (if opens then enter_link k (make_link b k address) b else b)"

text \<open>\<^verbatim>\<open>removePeer\<close>: the link leaves the table, queues a DISCONNECT and is stopped. The result carries the
  stopped link.\<close>

definition disconnectPeerLink :: "string \<Rightarrow> peer_link \<Rightarrow> peer_link" where
  "disconnectPeerLink brokerId p =
     p\<lparr>pl_worker := snd (writeControlMessage (pl_worker p) (makeControl DISCONNECT brokerId ''''))\<rparr>"

definition removePeer :: "string \<Rightarrow> broker \<Rightarrow> peer_link option \<times> broker" where
  "removePeer k b =
     (case map_of (m_peers b) k of
        None \<Rightarrow> (None, b)
      | Some p \<Rightarrow>
          (let p' = disconnectPeerLink (m_brokerId b) p
           in (Some (p'\<lparr>pl_worker := worker_stop (pl_worker p')\<rparr>),
               b\<lparr>m_peers := AList.delete k (m_peers b)\<rparr>)))"

definition connectToPeer :: "bool \<Rightarrow> string \<Rightarrow> broker \<Rightarrow> broker" where
  "connectToPeer opens address b = addPeer opens address address b"

definition disconnectFromPeer :: "string \<Rightarrow> broker \<Rightarrow> peer_link option \<times> broker" where
  "disconnectFromPeer address b = removePeer address b"

text \<open>The effects discovery asks for, in order; every dial says whether it opened its sockets.\<close>

fun apply_discovery :: "(string \<Rightarrow> bool) \<Rightarrow> discovery_effect list \<Rightarrow> broker \<Rightarrow> broker" where
  "apply_discovery opens [] b = b"
| "apply_discovery opens (Dial u a # es) b = apply_discovery opens es (addPeer (opens u) u a b)"
| "apply_discovery opens (Drop u # es) b = apply_discovery opens es (snd (removePeer u b))"

text \<open>The message callback of a link, run on that link's thread.\<close>

definition link_message :: "string \<Rightarrow> envelope \<Rightarrow> broker \<Rightarrow> broker" where
  "link_message k e b =
     (case map_of (m_peers b) k of
        None \<Rightarrow> b
      | Some p \<Rightarrow>
          if handler_key (header e) = UNLINK
          then b\<lparr>m_peers := AList.update k (p\<lparr>pl_active := False\<rparr>) (m_peers b)\<rparr>
          else if handler_key (header e) = RESET
          then b\<lparr>m_peers := AList.update k (sendInterestTo b p) (m_peers b)\<rparr>
          else (case push_timeout e (m_peerInboundQueue b) of
                  Some (_, q) \<Rightarrow> b\<lparr>m_peerInboundQueue := q\<rparr>
                | None \<Rightarrow> b))"

end
