(* ===== verification/Broker.thy ===== *)
theory Broker
  imports Broker_State Text_Config
begin

text \<open>The broker thread of \<^verbatim>\<open>server/broker.cpp\<close>: sessions and control keys (\<^verbatim>\<open>handleClientMessage\<close>), routing
  (\<^verbatim>\<open>deliverToSubscribers\<close>, \<^verbatim>\<open>floodPeers\<close>), the pipeline of one message (\<^verbatim>\<open>processMessage\<close>), the turns of its
  loop (\<^verbatim>\<open>run\<close>), statistics, start and stop. Functions that look an id up in the seen windows return
  \<^verbatim>\<open>None\<close> if the probe never ends; \<^verbatim>\<open>Broker_Ok\<close> shows that they always return.\<close>

section \<open>Clients\<close>

definition touch_client :: "time \<Rightarrow> string \<Rightarrow> broker \<Rightarrow> broker" where
  "touch_client now c b =
     b\<lparr>m_clients :=
        AList.update c
          (case map_of (m_clients b) c of
             None \<Rightarrow> \<lparr>lastSeen = now, droppedMessages = 0\<rparr>
           | Some st \<Rightarrow> st\<lparr>lastSeen := now\<rparr>) (m_clients b)\<rparr>"

definition removeClient :: "string \<Rightarrow> broker \<Rightarrow> broker" where
  "removeClient c b =
     (let meshTopics =
            (case subscriptionsOf (m_subscriptions b) c of
               None \<Rightarrow> []
             | Some held \<Rightarrow> filter (hasMeshSubscriber (m_subscriptions b)) (map fst held));
          b1 = b\<lparr>m_subscriptions := reg_removeClient (m_subscriptions b) c,
                 m_clients := AList.delete c (m_clients b)\<rparr>
      in fold (\<lambda>t. noteMeshInterestChange t True) meshTopics b1)"

definition is_inbound_link :: "string \<Rightarrow> bool" where
  "is_inbound_link c \<longleftrightarrow> take 11 c = ''BrokerLink-''"

definition control_frame :: "broker_env \<Rightarrow> string \<Rightarrow> broker \<Rightarrow> string" where
  "control_frame env k b = encodeHeader (env_codec env) (makeControlHeader k (m_brokerId b) '''')"

definition unlinkInboundPeers :: "broker_env \<Rightarrow> broker \<Rightarrow> broker" where
  "unlinkInboundPeers env b =
     fold (\<lambda>c b'. removeClient c (snd (sendTo env c (control_frame env UNLINK b) '''' b')))
       (filter is_inbound_link (map fst (m_clients b))) b"

definition canSubscribe :: "broker \<Rightarrow> string \<Rightarrow> string \<Rightarrow> bool" where
  "canSubscribe b c t =
     (case subscriptionsOf (m_subscriptions b) c of
        None \<Rightarrow> True
      | Some topics \<Rightarrow> map_of topics t \<noteq> None \<or> length topics < MAX_SUBSCRIPTIONS_PER_CLIENT)"

definition noteRejectedSubscription :: "broker \<Rightarrow> broker" where
  "noteRejectedSubscription b = b\<lparr>m_rejectedSubscriptions := m_rejectedSubscriptions b + 1\<rparr>"

definition noteDroppedTo :: "string \<Rightarrow> broker \<Rightarrow> broker" where
  "noteDroppedTo c b =
     (let b1 = (case map_of (m_clients b) c of
                  None \<Rightarrow> b
                | Some st \<Rightarrow>
                    b\<lparr>m_clients := AList.update c (st\<lparr>droppedMessages := droppedMessages st + 1\<rparr>) (m_clients b)\<rparr>)
      in b1\<lparr>m_totalDropped := m_totalDropped b1 + 1\<rparr>)"

definition notePeerDrop :: "broker \<Rightarrow> broker" where
  "notePeerDrop b = b\<lparr>m_totalDropped := m_totalDropped b + 1\<rparr>"

section \<open>Control keys\<close>

definition handle_subscribe :: "message_header \<Rightarrow> string \<Rightarrow> string \<Rightarrow> broker \<Rightarrow> broker" where
  "handle_subscribe h pl c b =
     (if topic h = [] then b
      else if MAX_TOPIC_LENGTH_BYTES < length (topic h) then noteRejectedSubscription b
      else if \<not> canSubscribe b c (topic h) then noteRejectedSubscription b
      else
        (let wantedFromMesh = hasMeshSubscriber (m_subscriptions b) (topic h);
             (changed, r) = subscribe (m_subscriptions b) c (topic h) (decodeSubscribeScope pl);
             b1 = b\<lparr>m_subscriptions := r\<rparr>
         in if changed then noteMeshInterestChange (topic h) wantedFromMesh b1 else b1))"

definition handle_unsubscribe :: "message_header \<Rightarrow> string \<Rightarrow> broker \<Rightarrow> broker" where
  "handle_unsubscribe h c b =
     (let wantedFromMesh = hasMeshSubscriber (m_subscriptions b) (topic h);
          (changed, r) = unsubscribe (m_subscriptions b) c (topic h);
          b1 = b\<lparr>m_subscriptions := r\<rparr>
      in if changed then noteMeshInterestChange (topic h) wantedFromMesh b1 else b1)"

definition handle_set_cluster :: "broker_env \<Rightarrow> string \<Rightarrow> broker \<Rightarrow> broker" where
  "handle_set_cluster env newCluster b =
     (if \<not> isValidClusterName newCluster then b
      else
        (case m_discovery b of
           None \<Rightarrow> b
         | Some d \<Rightarrow>
             if newCluster = m_clusterName b then b
             else
               (let b1 = unlinkInboundPeers env (b\<lparr>m_clusterName := newCluster\<rparr>);
                    (effects, d') = disc_setCluster newCluster d
                in apply_discovery (\<lambda>_. True) effects (b1\<lparr>m_discovery := Some d'\<rparr>))))"

text \<open>\<^verbatim>\<open>handleClientMessage\<close>: whether the message ends here, and the broker after it.\<close>

definition handleClientMessage ::
  "broker_env \<Rightarrow> time \<Rightarrow> message_header \<Rightarrow> string \<Rightarrow> string \<Rightarrow> broker \<Rightarrow> bool \<times> broker" where
  "handleClientMessage env now h pl c b =
     (let k = handler_key h in
      if k = DISCONNECT then (True, removeClient c b)
      else
        (let newClient = (map_of (m_clients b) c = None);
             b1 = touch_client now c b;
             b2 = (if newClient \<and> k \<noteq> CONNECT
                   then snd (sendTo env c (control_frame env RESET b1) '''' b1) else b1)
         in if k = CONNECT \<or> k = HEARTBEAT
            then (True, if k = HEARTBEAT
                        then snd (sendTo env c (control_frame env HEARTBEAT_ACK b2) '''' b2) else b2)
            else if k = SUBSCRIBE then (True, handle_subscribe h pl c b2)
            else if k = UNSUBSCRIBE then (True, handle_unsubscribe h c b2)
            else if k = SET_CLUSTER then (True, handle_set_cluster env pl b2)
            else (False, b2)))"

section \<open>Routing\<close>

definition deliver :: "broker_env \<Rightarrow> string \<Rightarrow> string \<Rightarrow> string \<Rightarrow> bool \<Rightarrow> subscriber \<Rightarrow> broker \<Rightarrow> broker" where
  "deliver env hb pl senderId isFromPeer s b =
     (if \<not> isFromPeer \<and> clientId s = senderId then b
      else if \<not> scopeAccepts (scope s) (\<not> isFromPeer) then b
      else if map_of (m_clients b) (clientId s) = None then b
      else
        (let (ok, b1) = sendTo env (clientId s) hb pl b
         in if ok then b1 else noteDroppedTo (clientId s) b1))"

definition served_exactly :: "subscriber list option \<Rightarrow> string \<Rightarrow> bool \<Rightarrow> bool" where
  "served_exactly exactSubs c isLocal =
     (case exactSubs of
        None \<Rightarrow> False
      | Some subs \<Rightarrow>
          (case find (\<lambda>s. clientId s = c) subs of
             None \<Rightarrow> False
           | Some e \<Rightarrow> scopeAccepts (scope e) isLocal))"

definition deliverToSubscribers ::
  "broker_env \<Rightarrow> message_header \<Rightarrow> string \<Rightarrow> string \<Rightarrow> string \<Rightarrow> bool \<Rightarrow> broker \<Rightarrow> broker" where
  "deliverToSubscribers env h hb pl senderId isFromPeer b =
     (let exactSubs = subscribersOf (m_subscriptions b) (topic h);
          wildcardSubs =
            (if topic h = WILDCARD_TOPIC then None else subscribersOf (m_subscriptions b) WILDCARD_TOPIC);
          send = deliver env hb pl senderId isFromPeer;
          b1 = (case exactSubs of None \<Rightarrow> b | Some subs \<Rightarrow> fold send subs b)
      in case wildcardSubs of
           None \<Rightarrow> b1
         | Some subs \<Rightarrow>
             fold (\<lambda>s b'. if served_exactly exactSubs (clientId s) (\<not> isFromPeer) then b' else send s b')
               subs b1)"

definition flood_link :: "wire_message \<Rightarrow> peer_link \<Rightarrow> bool \<times> peer_link" where
  "flood_link m p =
     (if \<not> pl_active p then (True, p)
      else (let (ok, w) = writeEncoded (pl_worker p) m in (ok, p\<lparr>pl_worker := w\<rparr>)))"

definition floodPeers :: "string \<Rightarrow> string \<Rightarrow> broker \<Rightarrow> broker" where
  "floodPeers hb pl b =
     (let m = makeWireMessage hb pl
      in fold (\<lambda>_. notePeerDrop) (filter (\<lambda>(k, p). \<not> fst (flood_link m p)) (m_peers b))
           (map_links (\<lambda>p. snd (flood_link m p)) b))"

section \<open>One message\<close>

definition count_message :: "nat \<Rightarrow> broker \<Rightarrow> broker" where
  "count_message sz b =
     b\<lparr>m_totalMessages := m_totalMessages b + 1, m_msgsInterval := m_msgsInterval b + 1,
       m_bytesInterval := m_bytesInterval b + of_nat sz\<rparr>"

definition stamp :: "u64 \<times> u64 \<Rightarrow> string \<Rightarrow> message_header \<Rightarrow> message_header" where
  "stamp g brokerId h =
     (if message_uuid h = []
      then h\<lparr>message_uuid := generateBinaryUUID (fst g) (snd g), origin_broker_id := brokerId\<rparr> else h)"

text \<open>What the environment supplies while one message is processed: the clock and two random draws.\<close>

type_synonym tick = "time \<times> u64 \<times> u64"

text \<open>After the duplicate check: tap, dispatch, delivery, flooding.\<close>

definition route_message ::
  "broker_env \<Rightarrow> time \<Rightarrow> message_header \<Rightarrow> string \<Rightarrow> string \<Rightarrow> bool \<Rightarrow> broker \<Rightarrow> broker" where
  "route_message env now h pl senderId isFromPeer b =
     (let hb = encodeHeader (env_codec env) h;
          b1 = tap hb pl b;
          (handled, b2) = (if isFromPeer then (False, b1) else handleClientMessage env now h pl senderId b1)
      in if handled \<or> isReservedKey (handler_key h) then b2
         else floodPeers hb pl (deliverToSubscribers env h hb pl senderId isFromPeer b2))"

definition processMessage ::
  "broker_env \<Rightarrow> tick \<Rightarrow> message_header \<Rightarrow> string \<Rightarrow> string \<Rightarrow> bool \<Rightarrow> broker \<Rightarrow> broker option" where
  "processMessage env inp h0 pl senderId isFromPeer b =
     (let h = stamp (snd inp) (m_brokerId b) h0;
          b1 = (if isFromPeer
                then count_message (length (encodeHeader (env_codec env) h) + length pl) b else b)
      in if isReservedKey (handler_key h)
         then Some (route_message env (fst inp) h pl senderId isFromPeer b1)
         else
           (case isDuplicate b1 (message_uuid h) of
              None \<Rightarrow> None
            | Some (True, b2) \<Rightarrow> Some b2
            | Some (False, b2) \<Rightarrow> Some (route_message env (fst inp) h pl senderId isFromPeer b2)))"

section \<open>The loop\<close>

text \<open>One group read from the ROUTER socket. A lone identity frame and a header that does not decode are
  dropped; frames past the payload are discarded.\<close>

definition client_group :: "broker_env \<Rightarrow> tick \<Rightarrow> string list \<Rightarrow> broker \<Rightarrow> broker option" where
  "client_group env inp frames b =
     (case frames of
        identity # headerFrame # rest \<Rightarrow>
          (case decodeHeaderFrame (env_codec env) headerFrame of
             None \<Rightarrow> Some b
           | Some h \<Rightarrow>
               (let pl = (case rest of [] \<Rightarrow> '''' | p # _ \<Rightarrow> p)
                in processMessage env inp h pl identity False
                     (count_message (length headerFrame + length pl) b)))
      | _ \<Rightarrow> Some b)"

text \<open>The drain of the ROUTER socket: the groups left for the next wake-up and the number taken.\<close>

fun client_drain ::
  "broker_env \<Rightarrow> (nat \<Rightarrow> tick) \<Rightarrow> nat \<Rightarrow> string list list \<Rightarrow> broker \<Rightarrow> (string list list \<times> nat \<times> broker) option" where
  "client_drain env inp i [] b = Some ([], i, b)"
| "client_drain env inp i (g # gs) b =
     (if i < MaxMessagesPerWake
      then (case client_group env (inp i) g b of
              None \<Rightarrow> None
            | Some b' \<Rightarrow> client_drain env inp (Suc i) gs b')
      else Some (g # gs, i, b))"

fun peer_drain :: "broker_env \<Rightarrow> (nat \<Rightarrow> tick) \<Rightarrow> nat \<Rightarrow> envelope list \<Rightarrow> broker \<Rightarrow> broker option" where
  "peer_drain env inp i [] b = Some b"
| "peer_drain env inp i (e # es) b =
     (case processMessage env (inp i) (header e) (payload e) ''PEER'' True b of
        None \<Rightarrow> None
      | Some b' \<Rightarrow> peer_drain env inp (Suc i) es b')"

fun sweep_clients :: "time \<Rightarrow> nat \<Rightarrow> (string, client_state) umap \<Rightarrow> broker \<Rightarrow> broker" where
  "sweep_clients now removed [] b = b"
| "sweep_clients now removed ((c, st) # cs) b =
     (if removed < MaxRemovalsPerSweep
      then if m_clientTimeout b < now - lastSeen st
           then sweep_clients now (Suc removed) cs (removeClient c b)
           else sweep_clients now removed cs b
      else b)"

definition cleanup :: "time \<Rightarrow> broker \<Rightarrow> broker" where
  "cleanup now b =
     (if m_cleanupInterval b < now - b_lastCleanup b
      then (sweep_clients now 0 (m_clients b) b)\<lparr>b_lastCleanup := now\<rparr> else b)"

definition client_info_of :: "broker \<Rightarrow> string \<times> client_state \<Rightarrow> client_info" where
  "client_info_of b e =
     (let topics = held_topics (m_subscriptions b) (fst e)
      in \<lparr>ci_id = fst e, ci_dropped_messages = droppedMessages (snd e),
          ci_subscription_count = of_nat (length topics),
          ci_subscriptions = take MaxListedSubscriptions (map fst topics)\<rparr>)"

definition stats_of :: "time \<Rightarrow> broker \<Rightarrow> system_stats" where
  "stats_of now b =
     \<lparr>st_broker_id = m_brokerId b, st_clients_count = length (m_clients b),
      st_peers_count = length (m_peers b),
      st_rates = (m_msgsInterval b, m_bytesInterval b, max (now - m_lastStatsTime b) 1000000),
      st_total_msgs = m_totalMessages b, st_uptime_sec = (now - m_startTime b) div 1000000000,
      st_cluster = m_clusterName b, st_total_dropped = m_totalDropped b,
      st_total_rejected_subs = m_rejectedSubscriptions b,
      st_connected_clients = map (client_info_of b) (m_clients b)\<rparr>"

definition send_stats :: "broker_env \<Rightarrow> string \<Rightarrow> string \<Rightarrow> subscriber \<Rightarrow> broker \<Rightarrow> broker" where
  "send_stats env hb pl s b =
     (if \<not> scopeAccepts (scope s) True then b
      else
        (let (ok, b1) = sendTo env (clientId s) hb pl b
         in if ok then b1 else noteDroppedTo (clientId s) b1))"

definition broadcastStats :: "broker_env \<Rightarrow> time \<Rightarrow> broker \<Rightarrow> broker" where
  "broadcastStats env now b =
     (let hb = encodeHeader (env_codec env) (makeControlHeader SYS_STATS ''BROKER_SYSTEM'' SYS_STATS);
          pl = env_pack env (stats_of now b);
          b1 = tap hb pl b
      in case subscribersOf (m_subscriptions b1) SYS_STATS of
           None \<Rightarrow> b1
         | Some subs \<Rightarrow> fold (send_stats env hb pl) subs b1)"

definition stats_turn :: "broker_env \<Rightarrow> time \<Rightarrow> time \<Rightarrow> broker \<Rightarrow> broker" where
  "stats_turn env now statsNow b =
     (if 1000000000 < now - m_lastStatsTime b
      then (broadcastStats env statsNow b)\<lparr>m_lastStatsTime := now, m_msgsInterval := 0, m_bytesInterval := 0\<rparr>
      else b)"

text \<open>One turn of the loop of \<^verbatim>\<open>run\<close>: client groups, peer messages, sweep, statistics.\<close>

definition broker_turn ::
  "broker_env \<Rightarrow> (nat \<Rightarrow> tick) \<Rightarrow> time \<Rightarrow> time \<Rightarrow> string list list \<Rightarrow> broker \<Rightarrow> (string list list \<times> broker) option" where
  "broker_turn env inp now statsNow arrivals b =
     (case client_drain env inp 0 arrivals b of
        None \<Rightarrow> None
      | Some (left, i, b1) \<Rightarrow>
          (let (batch, q) = drainTo (m_peerInboundQueue b1)
           in case peer_drain env inp i batch (b1\<lparr>m_peerInboundQueue := q\<rparr>) of
                None \<Rightarrow> None
              | Some b2 \<Rightarrow> Some (left, stats_turn env now statsNow (cleanup now b2))))"

section \<open>Start, stop and configuration\<close>

fun parseTcpPort :: "string list \<Rightarrow> u16" where
  "parseTcpPort [] = 0"
| "parseTcpPort (addr # addrs) =
     (if take 6 addr \<noteq> ''tcp://'' \<or> CHR '':'' \<notin> set addr then parseTcpPort addrs
      else
        (case parsePort (rev (takeWhile (\<lambda>c. c \<noteq> CHR '':'') (rev addr))) False of
           Some p \<Rightarrow> p
         | None \<Rightarrow> parseTcpPort addrs))"

definition enableDiscovery :: "string \<Rightarrow> u16 \<Rightarrow> broker \<Rightarrow> broker" where
  "enableDiscovery cluster port b =
     (if \<not> isValidClusterName cluster then b
      else b\<lparr>m_discoveryEnabled := True, m_clusterName := cluster, m_discoveryPort := port\<rparr>)"

definition enableRemoteInspector :: "u16 \<Rightarrow> broker \<Rightarrow> broker" where
  "enableRemoteInspector port b = b\<lparr>m_inspectorTcpPort := port\<rparr>"

definition setInspectorEndpoint :: "string \<Rightarrow> broker \<Rightarrow> broker" where
  "setInspectorEndpoint endpoint b = (if endpoint = [] then b else b\<lparr>m_inspectorEndpoint := endpoint\<rparr>)"

definition broker_start :: "time \<Rightarrow> string list \<Rightarrow> broker \<Rightarrow> broker" where
  "broker_start now addrs b =
     (if b_joinable b then b
      else
        (let b1 = b\<lparr>m_peerInboundQueue := queue_reset (m_peerInboundQueue b), b_running := True,
                    m_startTime := now, m_lastStatsTime := now\<rparr>;
             routerPort = parseTcpPort addrs;
             b2 = (if m_discoveryEnabled b \<and> routerPort \<noteq> 0
                   then b1\<lparr>m_discovery :=
                          Some (new_discovery (m_clusterName b) (m_brokerId b) routerPort (m_inspectorTcpPort b))\<rparr>
                   else b1)
         in b2\<lparr>b_joinable := True, b_lastCleanup := now\<rparr>))"

definition broker_stop :: "broker \<Rightarrow> peer_link list \<times> broker" where
  "broker_stop b =
     (map (\<lambda>(_, p). let p' = disconnectPeerLink (m_brokerId b) p in p'\<lparr>pl_worker := worker_stop (pl_worker p')\<rparr>)
        (m_peers b),
      b\<lparr>b_running := False, m_peerInboundQueue := queue_stop (m_peerInboundQueue b), b_joinable := False,
        m_peers := []\<rparr>)"

end
