(* ===== verification/Broker_Interest.thy ===== *)
theory Broker_Interest
  imports Broker_State
begin

text \<open>The interest of a broker and what its links have been told. \<^verbatim>\<open>interest_of\<close> relates the interest fields
  to the set of topics wanted from the mesh; \<^verbatim>\<open>link_synced\<close> relates them to one link: the subscriptions the
  far broker holds for the link once it has read everything that is still queued. Each operation on the
  interest keeps both.\<close>

section \<open>Frames\<close>

lemma map_links_frame [simp]:
  "m_brokerId (map_links f b) = m_brokerId b" "m_clients (map_links f b) = m_clients b"
  "m_subscriptions (map_links f b) = m_subscriptions b" "m_interest (map_links f b) = m_interest b"
  "m_interestSaturated (map_links f b) = m_interestSaturated b"
  "m_interestWildcard (map_links f b) = m_interestWildcard b"
  "m_peers (map_links f b) = map (\<lambda>(k, p). (k, f p)) (m_peers b)"
  "m_clientTimeout (map_links f b) = m_clientTimeout b" "b_net (map_links f b) = b_net b"
  "m_seenCurrent (map_links f b) = m_seenCurrent b" "m_seenPrevious (map_links f b) = m_seenPrevious b"
  "m_rejectedSubscriptions (map_links f b) = m_rejectedSubscriptions b"
  "m_totalDropped (map_links f b) = m_totalDropped b"
  "m_discovery (map_links f b) = m_discovery b" "m_clusterName (map_links f b) = m_clusterName b"
  by (simp_all add: map_links_def)

lemma note_frame [simp]:
  "m_brokerId (noteMeshInterestChange t w b) = m_brokerId b"
  "m_clients (noteMeshInterestChange t w b) = m_clients b"
  "m_subscriptions (noteMeshInterestChange t w b) = m_subscriptions b"
  "m_clientTimeout (noteMeshInterestChange t w b) = m_clientTimeout b"
  "b_net (noteMeshInterestChange t w b) = b_net b"
  "m_seenCurrent (noteMeshInterestChange t w b) = m_seenCurrent b"
  "m_seenPrevious (noteMeshInterestChange t w b) = m_seenPrevious b"
  "m_rejectedSubscriptions (noteMeshInterestChange t w b) = m_rejectedSubscriptions b"
  "m_discovery (noteMeshInterestChange t w b) = m_discovery b"
  "m_clusterName (noteMeshInterestChange t w b) = m_clusterName b"
  by (simp_all add: noteMeshInterestChange_def noteTopicSubscribed_def noteTopicUnsubscribed_def Let_def)

lemma link_control_frame [simp]:
  "pl_address (link_control k t p) = pl_address p" "pl_linkId (link_control k t p) = pl_linkId p"
  "pl_active (link_control k t p) = pl_active p"
  by (simp_all add: link_control_def)

lemma fold_link_control_frame [simp]:
  "pl_address (fold (link_control k) ts p) = pl_address p" "pl_linkId (fold (link_control k) ts p) = pl_linkId p"
  by (induction ts arbitrary: p) simp_all

section \<open>The interest set\<close>

text \<open>The interest fields describe the set of wanted topics \<^verbatim>\<open>F\<close>. A saturated set is frozen and no longer
  compared with it.\<close>

definition interest_of :: "(string \<Rightarrow> bool) \<Rightarrow> broker \<Rightarrow> bool" where
  "interest_of F b \<longleftrightarrow>
     oset_ok (m_interest b) \<and> (m_interestWildcard b \<longleftrightarrow> F WILDCARD_TOPIC) \<and>
     (\<not> m_interestSaturated b \<longrightarrow> (\<forall>t. t \<in> set (m_interest b) \<longleftrightarrow> isPropagatableTopic t \<and> F t)) \<and>
     length (m_interest b) \<le> MaxInterestTopics + (if m_interestSaturated b then 1 else 0)"

lemma not_propagatable_wildcard [simp]: "\<not> isPropagatableTopic WILDCARD_TOPIC"
  by (simp add: isPropagatableTopic_def)

lemma interest_of_cong:
  "m_interest b' = m_interest b \<Longrightarrow> m_interestSaturated b' = m_interestSaturated b \<Longrightarrow>
   m_interestWildcard b' = m_interestWildcard b \<Longrightarrow> interest_of F b' = interest_of F b"
  by (simp add: interest_of_def)

text \<open>The branches of the two updates, with what they leave.\<close>

lemma noteTopicSubscribed_cases [case_names wild topic widen none]:
  assumes "\<And>b'. t = WILDCARD_TOPIC \<Longrightarrow> \<not> m_interestWildcard b \<Longrightarrow> b' = b\<lparr>m_interestWildcard := True\<rparr> \<Longrightarrow>
      noteTopicSubscribed t b = map_links (link_control SUBSCRIBE WILDCARD_TOPIC) b' \<Longrightarrow> P"
    and "\<And>b'. isPropagatableTopic t \<Longrightarrow> \<not> m_interestSaturated b \<Longrightarrow> t \<notin> set (m_interest b) \<Longrightarrow>
      length (m_interest b) < MaxInterestTopics \<Longrightarrow> b' = b\<lparr>m_interest := oset_insert t (m_interest b)\<rparr> \<Longrightarrow>
      noteTopicSubscribed t b = map_links (link_control SUBSCRIBE t) b' \<Longrightarrow> P"
    and "\<And>b'. isPropagatableTopic t \<Longrightarrow> \<not> m_interestSaturated b \<Longrightarrow> t \<notin> set (m_interest b) \<Longrightarrow>
      b' = b\<lparr>m_interest := oset_insert t (m_interest b), m_interestSaturated := True\<rparr> \<Longrightarrow>
      noteTopicSubscribed t b = map_links (link_control SUBSCRIBE WILDCARD_TOPIC) b' \<Longrightarrow> P"
    and "noteTopicSubscribed t b = b \<Longrightarrow> (t = WILDCARD_TOPIC \<Longrightarrow> m_interestWildcard b) \<Longrightarrow>
      (isPropagatableTopic t \<Longrightarrow> m_interestSaturated b \<or> t \<in> set (m_interest b)) \<Longrightarrow> P"
  shows P
proof (cases "t = WILDCARD_TOPIC")
  case True
  then show P using assms(1)[OF True _ refl] assms(4)
    by (cases "m_interestWildcard b") (simp_all add: noteTopicSubscribed_def)
next
  case False
  consider "\<not> isPropagatableTopic t \<or> m_interestSaturated b \<or> t \<in> set (m_interest b)"
    | "isPropagatableTopic t" "\<not> m_interestSaturated b" "t \<notin> set (m_interest b)" "length (m_interest b) < MaxInterestTopics"
    | "isPropagatableTopic t" "\<not> m_interestSaturated b" "t \<notin> set (m_interest b)" "\<not> length (m_interest b) < MaxInterestTopics"
    by blast
  then show P
  proof cases
    case 1
    then show P using False by (intro assms(4)) (auto simp: noteTopicSubscribed_def)
  next
    case 2
    then show P using False by (intro assms(2)[OF _ _ _ _ refl]) (simp_all add: noteTopicSubscribed_def length_oset_insert)
  next
    case 3
    then show P using False by (intro assms(3)[OF _ _ _ refl]) (simp_all add: noteTopicSubscribed_def length_oset_insert)
  qed
qed

lemma noteTopicUnsubscribed_cases [case_names wild saturated topic none]:
  assumes "\<And>b'. t = WILDCARD_TOPIC \<Longrightarrow> m_interestWildcard b \<Longrightarrow> \<not> m_interestSaturated b \<Longrightarrow>
      b' = b\<lparr>m_interestWildcard := False\<rparr> \<Longrightarrow>
      noteTopicUnsubscribed t b =
        map_links (\<lambda>p. fold (link_control SUBSCRIBE) (m_interest b) (link_control UNSUBSCRIBE WILDCARD_TOPIC p)) b' \<Longrightarrow> P"
    and "t = WILDCARD_TOPIC \<Longrightarrow> m_interestSaturated b \<Longrightarrow>
      noteTopicUnsubscribed t b = b\<lparr>m_interestWildcard := False\<rparr> \<Longrightarrow> P"
    and "\<And>b'. isPropagatableTopic t \<Longrightarrow> \<not> m_interestSaturated b \<Longrightarrow> t \<in> set (m_interest b) \<Longrightarrow>
      b' = b\<lparr>m_interest := oset_erase t (m_interest b)\<rparr> \<Longrightarrow>
      noteTopicUnsubscribed t b = map_links (link_control UNSUBSCRIBE t) b' \<Longrightarrow> P"
    and "noteTopicUnsubscribed t b = b \<Longrightarrow> (t = WILDCARD_TOPIC \<Longrightarrow> \<not> m_interestWildcard b) \<Longrightarrow>
      (isPropagatableTopic t \<Longrightarrow> m_interestSaturated b \<or> t \<notin> set (m_interest b)) \<Longrightarrow> P"
  shows P
proof (cases "t = WILDCARD_TOPIC")
  case True
  consider "\<not> m_interestWildcard b" | "m_interestWildcard b" "m_interestSaturated b"
    | "m_interestWildcard b" "\<not> m_interestSaturated b" by blast
  then show P
  proof cases
    case 1
    then show P using True by (intro assms(4)) (simp_all add: noteTopicUnsubscribed_def)
  next
    case 2
    then show P using True by (intro assms(2)) (simp_all add: noteTopicUnsubscribed_def)
  next
    case 3
    then show P using True by (intro assms(1)[OF _ _ _ refl]) (simp_all add: noteTopicUnsubscribed_def)
  qed
next
  case False
  show P
  proof (cases "isPropagatableTopic t \<and> \<not> m_interestSaturated b \<and> t \<in> set (m_interest b)")
    case True
    then show P using False by (intro assms(3)[OF _ _ _ refl]) (simp_all add: noteTopicUnsubscribed_def)
  next
    case False
    then show P using \<open>t \<noteq> WILDCARD_TOPIC\<close> by (intro assms(4)) (auto simp: noteTopicUnsubscribed_def)
  qed
qed

lemma interest_ofI:
  assumes "oset_ok (m_interest b)" "m_interestWildcard b \<longleftrightarrow> F WILDCARD_TOPIC"
    "\<And>t. \<not> m_interestSaturated b \<Longrightarrow> t \<in> set (m_interest b) \<longleftrightarrow> isPropagatableTopic t \<and> F t"
    "length (m_interest b) \<le> MaxInterestTopics + (if m_interestSaturated b then 1 else 0)"
  shows "interest_of F b"
  unfolding interest_of_def using assms by blast

lemma interest_ofD:
  assumes "interest_of F b"
  shows "oset_ok (m_interest b)" "m_interestWildcard b \<longleftrightarrow> F WILDCARD_TOPIC"
    "\<And>t. \<not> m_interestSaturated b \<Longrightarrow> t \<in> set (m_interest b) \<longleftrightarrow> isPropagatableTopic t \<and> F t"
    "length (m_interest b) \<le> MaxInterestTopics + (if m_interestSaturated b then 1 else 0)"
  using assms unfolding interest_of_def by blast+

lemma interest_of_wildcard:
  assumes "interest_of F b"
  shows "interest_of (F(WILDCARD_TOPIC := v)) (b\<lparr>m_interestWildcard := v\<rparr>)"
proof (rule interest_ofI)
  show "x \<in> set (m_interest (b\<lparr>m_interestWildcard := v\<rparr>)) \<longleftrightarrow> isPropagatableTopic x \<and> (F(WILDCARD_TOPIC := v)) x"
    if "\<not> m_interestSaturated (b\<lparr>m_interestWildcard := v\<rparr>)" for x
    using that interest_ofD(3)[OF assms, of x] by auto
qed (use interest_ofD(1,4)[OF assms] in simp_all)

lemma interest_of_topic:
  assumes b: "interest_of F b" and t: "isPropagatableTopic t"
    and I: "oset_ok (m_interest b')"
      "set (m_interest b') = (if v then insert t (set (m_interest b)) else set (m_interest b) - {t})"
    and b': "m_interestWildcard b' = m_interestWildcard b" "m_interestSaturated b \<longrightarrow> m_interestSaturated b'"
      "length (m_interest b') \<le> MaxInterestTopics + (if m_interestSaturated b' then 1 else 0)"
  shows "interest_of (F(t := v)) b'"
proof (rule interest_ofI)
  have "t \<noteq> WILDCARD_TOPIC" using t by auto
  then show "m_interestWildcard b' \<longleftrightarrow> (F(t := v)) WILDCARD_TOPIC"
    using b' interest_ofD(2)[OF b] by simp
  show "x \<in> set (m_interest b') \<longleftrightarrow> isPropagatableTopic x \<and> (F(t := v)) x" if "\<not> m_interestSaturated b'" for x
    using that b'(2) I(2) t interest_ofD(3)[OF b, of x] by auto
qed (use I b' in simp_all)

lemma interest_of_same:
  assumes b: "interest_of F b" and wild: "t = WILDCARD_TOPIC \<Longrightarrow> m_interestWildcard b = v"
    and t: "isPropagatableTopic t \<Longrightarrow> m_interestSaturated b \<or> (t \<in> set (m_interest b) \<longleftrightarrow> v)"
  shows "interest_of (F(t := v)) b"
proof (rule interest_ofI)
  show "m_interestWildcard b \<longleftrightarrow> (F(t := v)) WILDCARD_TOPIC"
    using wild interest_ofD(2)[OF b] by auto
  show "x \<in> set (m_interest b) \<longleftrightarrow> isPropagatableTopic x \<and> (F(t := v)) x" if "\<not> m_interestSaturated b" for x
    using that t interest_ofD(3)[OF b, of x] by auto
qed (use interest_ofD(1,4)[OF b] in simp_all)

lemma interest_of_map_links [simp]: "interest_of F (map_links f b) = interest_of F b"
  by (rule interest_of_cong) simp_all

lemma interest_of_subscribed:
  assumes b: "interest_of F b"
  shows "interest_of (F(t := True)) (noteTopicSubscribed t b)"
proof (cases t b rule: noteTopicSubscribed_cases)
  case (wild b')
  then show ?thesis using interest_of_wildcard[OF b] by simp
next
  case (topic b')
  then show ?thesis
    using interest_ofD(1)[OF b] by (simp add: interest_of_topic[OF b] length_oset_insert)
next
  case (widen b')
  then show ?thesis
    using interest_ofD(1,4)[OF b] by (simp add: interest_of_topic[OF b] length_oset_insert)
next
  case none
  then show ?thesis using interest_of_same[OF b, of t True] by simp
qed

lemma length_oset_erase: "length (oset_erase t s) \<le> length s"
  by (simp add: oset_erase_def length_remove1)

lemma interest_of_unsubscribed:
  assumes b: "interest_of F b"
  shows "interest_of (F(t := False)) (noteTopicUnsubscribed t b)"
proof (cases t b rule: noteTopicUnsubscribed_cases)
  case (wild b')
  then show ?thesis using interest_of_wildcard[OF b] by simp
next
  case saturated
  then show ?thesis using interest_of_wildcard[OF b] by simp
next
  case (topic b')
  then show ?thesis
    using interest_ofD(1,4)[OF b] length_oset_erase[of t "m_interest b"]
    by (simp, intro interest_of_topic[OF b]) simp_all
next
  case none
  then show ?thesis using interest_of_same[OF b, of t False] by simp
qed

lemma interest_of_change:
  assumes "interest_of F b" "F t = before"
  shows "interest_of (F(t := hasMeshSubscriber (m_subscriptions b) t)) (noteMeshInterestChange t before b)"
  using assms interest_of_subscribed[of F b t] interest_of_unsubscribed[of F b t]
  by (auto simp: noteMeshInterestChange_def Let_def fun_upd_idem)

section \<open>What a link has been told\<close>

text \<open>The far broker reads the control messages of a link in order: the set of topics it holds for the link.\<close>

definition view_step :: "envelope \<Rightarrow> string set \<Rightarrow> string set" where
  "view_step e V =
     (if handler_key (header e) = SUBSCRIBE then insert (topic (header e)) V
      else if handler_key (header e) = UNSUBSCRIBE then V - {topic (header e)} else V)"

definition link_view :: "envelope list \<Rightarrow> string set \<Rightarrow> string set" where
  "link_view es V = fold view_step es V"

text \<open>A view serves the broker's interest and asks for no topic outside it.\<close>

definition serves :: "broker \<Rightarrow> string set \<Rightarrow> bool" where
  "serves b V \<longleftrightarrow>
     (WILDCARD_TOPIC \<in> V \<longleftrightarrow> m_interestSaturated b \<or> m_interestWildcard b) \<and>
     V - {WILDCARD_TOPIC} \<subseteq> set (m_interest b) \<and>
     (\<not> m_interestSaturated b \<and> \<not> m_interestWildcard b \<longrightarrow> V = set (m_interest b))"

definition link_queue :: "peer_link \<Rightarrow> envelope safe_queue" where
  "link_queue p = m_controlQueue (pl_worker p)"

definition backed_up :: "peer_link \<Rightarrow> bool" where
  "backed_up p \<longleftrightarrow> m_maxSize (link_queue p) \<le> length (m_queue (link_queue p))"

text \<open>The far broker holds \<^verbatim>\<open>V\<close> for the link now; after the queued messages it will serve the interest, unless
  the queue ran full and a message was refused.\<close>

definition link_synced :: "broker \<Rightarrow> string set \<Rightarrow> peer_link \<Rightarrow> bool" where
  "link_synced b V p \<longleftrightarrow>
     \<not> m_stop (link_queue p) \<and> (backed_up p \<or> serves b (link_view (m_queue (link_queue p)) V))"

text \<open>Each link by its key; nothing is said of a link whose far side is not tracked.\<close>

type_synonym far_views = "string \<Rightarrow> string set option"

definition links_synced :: "broker \<Rightarrow> far_views \<Rightarrow> bool" where
  "links_synced b V \<longleftrightarrow> list_all (\<lambda>(k, p). \<forall>U. V k = Some U \<longrightarrow> link_synced b U p) (m_peers b)"

lemma view_step_control [simp]:
  "view_step (makeControl SUBSCRIBE i t) V = insert t V"
  "view_step (makeControl UNSUBSCRIBE i t) V = V - {t}"
  by (simp_all add: view_step_def makeControl_def makeControlHeader_def empty_header_def key_defs)

lemma link_view_append [simp]: "link_view (es @ [e]) V = view_step e (link_view es V)"
  by (simp add: link_view_def)

lemma link_control_queue:
  "\<not> m_stop (link_queue p) \<Longrightarrow>
   link_queue (link_control k t p) =
     (if backed_up p then link_queue p
      else (link_queue p)\<lparr>m_queue := m_queue (link_queue p) @ [makeControl k (pl_linkId p) t]\<rparr>)"
  by (auto simp: link_queue_def link_control_def writeControlMessage_def enqueue_def queue_ops hasRoom_def
      backed_up_def Let_def)

lemma link_control_running [simp]:
  "\<not> m_stop (link_queue p) \<Longrightarrow> \<not> m_stop (link_queue (link_control k t p))"
  by (simp add: link_control_queue)

lemma link_control_backed_up:
  "\<not> m_stop (link_queue p) \<Longrightarrow> backed_up p \<Longrightarrow> backed_up (link_control k t p)"
  by (simp add: backed_up_def link_control_queue)

text \<open>A subscribe or unsubscribe queued on a link, seen as an operation on the view.\<close>

definition told :: "string set \<Rightarrow> peer_link \<Rightarrow> string set option" where
  "told V p = (if backed_up p then None else Some (link_view (m_queue (link_queue p)) V))"

lemma link_synced_told:
  "link_synced b V p \<longleftrightarrow>
     \<not> m_stop (link_queue p) \<and> (case told V p of None \<Rightarrow> True | Some W \<Rightarrow> serves b W)"
  by (simp add: link_synced_def told_def)

lemma told_control:
  assumes "\<not> m_stop (link_queue p)"
  shows "told V (link_control SUBSCRIBE t p) = None \<or>
      (\<exists>W. told V p = Some W \<and> told V (link_control SUBSCRIBE t p) = Some (insert t W))"
    and "told V (link_control UNSUBSCRIBE t p) = None \<or>
      (\<exists>W. told V p = Some W \<and> told V (link_control UNSUBSCRIBE t p) = Some (W - {t}))"
  using assms by (auto simp: told_def backed_up_def link_control_queue)

lemma told_fold_subscribe:
  "\<not> m_stop (link_queue p) \<Longrightarrow>
   \<not> m_stop (link_queue (fold (link_control SUBSCRIBE) ts p)) \<and>
   (told V (fold (link_control SUBSCRIBE) ts p) = None \<or>
    (\<exists>W. told V p = Some W \<and> told V (fold (link_control SUBSCRIBE) ts p) = Some (W \<union> set ts)))"
proof (induction ts arbitrary: p)
  case (Cons t ts)
  let ?p = "link_control SUBSCRIBE t p"
  have "\<not> m_stop (link_queue ?p)" using Cons.prems by simp
  note IH = Cons.IH[OF this]
  show ?case using IH told_control(1)[OF Cons.prems, of V t] by auto
next
  case Nil
  then show ?case by (cases "told V p") auto
qed

lemma links_synced_map:
  assumes "links_synced b V" "m_peers b' = m_peers b"
    and "\<And>U p. link_synced b U p \<Longrightarrow> link_synced b' U (f p)"
  shows "links_synced (map_links f b') V"
proof -
  have "link_synced (map_links f b') = link_synced b'"
    by (simp add: fun_eq_iff link_synced_def serves_def)
  then show ?thesis using assms by (auto simp: links_synced_def list_all_iff split: prod.splits)
qed

text \<open>The one step every change of interest takes on a link, by what it does to the view.\<close>

lemma link_synced_subscribe:
  assumes "link_synced b U p" "\<And>W. serves b W \<Longrightarrow> serves b' (insert t W)"
  shows "link_synced b' U (link_control SUBSCRIBE t p)"
  using assms told_control(1)[of p U t] by (auto simp: link_synced_told split: option.splits)

lemma link_synced_unsubscribe:
  assumes "link_synced b U p" "\<And>W. serves b W \<Longrightarrow> serves b' (W - {t})"
  shows "link_synced b' U (link_control UNSUBSCRIBE t p)"
  using assms told_control(2)[of p U t] by (auto simp: link_synced_told split: option.splits)

lemma link_synced_subscribe_all:
  assumes "\<not> m_stop (link_queue p)" "\<And>W. told U p = Some W \<Longrightarrow> serves b' (W \<union> set ts)"
  shows "link_synced b' U (fold (link_control SUBSCRIBE) ts p)"
  using assms(2) told_fold_subscribe[OF assms(1), where V = U and ts = ts] by (auto simp: link_synced_told split: option.splits)

lemma links_synced_same_interest:
  "m_peers b' = m_peers b \<Longrightarrow> m_interest b' = m_interest b \<Longrightarrow>
   m_interestSaturated b' = m_interestSaturated b \<Longrightarrow> m_interestWildcard b' = m_interestWildcard b \<Longrightarrow>
   links_synced b' V = links_synced b V"
  by (simp add: links_synced_def link_synced_def[abs_def] serves_def)

lemma links_synced_subscribed:
  assumes V: "links_synced b V"
  shows "links_synced (noteTopicSubscribed t b) V"
proof (cases t b rule: noteTopicSubscribed_cases)
  case (wild b')
  show ?thesis unfolding wild(4) using wild(1-3)
    by (intro links_synced_map[OF V] link_synced_subscribe) (auto simp: serves_def)
next
  case (topic b')
  show ?thesis unfolding topic(6) using topic(1-5)
    by (intro links_synced_map[OF V] link_synced_subscribe) (auto simp: serves_def)
next
  case (widen b')
  show ?thesis unfolding widen(5) using widen(1-4)
    by (intro links_synced_map[OF V] link_synced_subscribe) (auto simp: serves_def)
next
  case none
  then show ?thesis using V by simp
qed

lemma links_synced_unsubscribed:
  assumes V: "links_synced b V" and b: "interest_of F b"
  shows "links_synced (noteTopicUnsubscribed t b) V"
proof (cases t b rule: noteTopicUnsubscribed_cases)
  case (wild b')
  have W: "WILDCARD_TOPIC \<notin> set (m_interest b)"
    using interest_ofD(3)[OF b wild(3)] by simp
  have "link_synced b' U (fold (link_control SUBSCRIBE) (m_interest b) (link_control UNSUBSCRIBE WILDCARD_TOPIC p))"
    if p: "link_synced b U p" for U p
  proof (rule link_synced_subscribe_all)
    show "\<not> m_stop (link_queue (link_control UNSUBSCRIBE WILDCARD_TOPIC p))"
      using p by (simp add: link_synced_def)
    show "serves b' (W' \<union> set (m_interest b))" if "told U (link_control UNSUBSCRIBE WILDCARD_TOPIC p) = Some W'" for W'
    proof -
      note W' = that
      obtain W0 where "serves b W0" "W' = W0 - {WILDCARD_TOPIC}"
        using W' p told_control(2)[of p U WILDCARD_TOPIC] by (auto simp: link_synced_told)
      then show ?thesis using W wild(2-4) by (auto simp: serves_def)
    qed
  qed
  then show ?thesis unfolding wild(5) using wild(4) by (intro links_synced_map[OF V]) simp_all
next
  case saturated
  then show ?thesis using V by (simp add: links_synced_def link_synced_def[abs_def] serves_def)
next
  case (topic b')
  have I: "oset_ok (m_interest b)" "\<not> isPropagatableTopic WILDCARD_TOPIC" using b by (simp_all add: interest_of_def)
  show ?thesis unfolding topic(5) using topic(1-4) I
    by (intro links_synced_map[OF V] link_synced_unsubscribe) (auto simp: serves_def)
next
  case none
  then show ?thesis using V by simp
qed

lemma links_synced_change:
  "links_synced b V \<Longrightarrow> interest_of F b \<Longrightarrow> links_synced (noteMeshInterestChange t w b) V"
  by (simp add: noteMeshInterestChange_def Let_def links_synced_subscribed links_synced_unsubscribed)

subsection \<open>New links and resets\<close>

lemma link_view_mono: "U \<subseteq> V \<Longrightarrow> link_view es U \<subseteq> link_view es V"
proof (induction es arbitrary: U V)
  case (Cons e es)
  have "view_step e U \<subseteq> view_step e V" using Cons.prems by (auto simp: view_step_def)
  then show ?case using Cons.IH by (simp add: link_view_def)
qed (simp add: link_view_def)

text \<open>Telling a link the whole interest repairs any view that asks for nothing outside it.\<close>

lemma sendInterestTo_synced:
  assumes p: "\<not> m_stop (link_queue p)"
    and W: "\<And>W. told U p = Some W \<Longrightarrow>
      W - {WILDCARD_TOPIC} \<subseteq> set (m_interest b) \<and>
      (WILDCARD_TOPIC \<in> W \<longrightarrow> m_interestSaturated b \<or> m_interestWildcard b)"
    and b: "interest_of F b"
  shows "link_synced b U (sendInterestTo b p)"
proof (cases "m_interestSaturated b \<or> m_interestWildcard b")
  case True
  then show ?thesis
    using p W told_control(1)[OF p, of U WILDCARD_TOPIC]
    by (auto simp: sendInterestTo_def link_synced_told serves_def split: option.splits)
next
  case False
  have "WILDCARD_TOPIC \<notin> set (m_interest b)" using False interest_ofD(3)[OF b, of WILDCARD_TOPIC] by simp
  then have "link_synced b U (fold (link_control SUBSCRIBE) (m_interest b) p)"
    using False W by (intro link_synced_subscribe_all[OF p]) (auto simp: serves_def)
  then show ?thesis using False by (simp add: sendInterestTo_def)
qed

lemma link_synced_reset:
  assumes p: "link_synced b V p" and b: "interest_of F b"
  shows "link_synced b {} (sendInterestTo b p)"
proof (rule sendInterestTo_synced[OF _ _ b])
  show "\<not> m_stop (link_queue p)" using p by (simp add: link_synced_def)
  show "W - {WILDCARD_TOPIC} \<subseteq> set (m_interest b) \<and>
      (WILDCARD_TOPIC \<in> W \<longrightarrow> m_interestSaturated b \<or> m_interestWildcard b)" if "told {} p = Some W" for W
  proof -
    have "W \<subseteq> link_view (m_queue (link_queue p)) V" "serves b (link_view (m_queue (link_queue p)) V)"
      using that p link_view_mono[of "{}" V] by (auto simp: told_def link_synced_def split: if_splits)
    then show ?thesis by (auto simp: serves_def)
  qed
qed

lemma make_link_synced: "interest_of F b \<Longrightarrow> link_synced b {} (make_link b k a)"
  unfolding make_link_def Let_def
  by (rule sendInterestTo_synced)
    (auto simp: link_queue_def new_worker_def new_queue_def told_def link_view_def split: if_splits)

text \<open>The link's thread takes a message off the queue and the far broker reads it.\<close>

lemma link_view_pop: "link_view (e # es) V = link_view es (view_step e V)"
  by (simp add: link_view_def)

end
