(* ===== verification/Broker_Ok.thy ===== *)
theory Broker_Ok
  imports Broker Broker_Interest
begin

text \<open>The invariant of the broker, and that every operation keeps it. \<^verbatim>\<open>broker_ok\<close> holds of the broker alone;
  \<^verbatim>\<open>broker_inv\<close> adds, for a given record of what the far brokers hold for the links, that the links follow the
  interest. Both are carried through the same lemmas.\<close>

definition subs_bounded :: "broker \<Rightarrow> bool" where
  "subs_bounded b \<longleftrightarrow>
     (\<forall>c t s. reg_abs (m_subscriptions b) (c, t) = Some s \<longrightarrow>
        map_of (m_clients b) c \<noteq> None \<and> t \<noteq> [] \<and> length t \<le> MAX_TOPIC_LENGTH_BYTES) \<and>
     (\<forall>c. length (held_topics (m_subscriptions b) c) \<le> MAX_SUBSCRIPTIONS_PER_CLIENT)"

definition peers_ok :: "(string, peer_link) umap \<Rightarrow> bool" where
  "peers_ok ps \<longleftrightarrow> umap_ok ps \<and> distinct (map (\<lambda>kp. pl_address (snd kp)) ps)"

definition broker_ok :: "broker \<Rightarrow> bool" where
  "broker_ok b \<longleftrightarrow>
     windows_ok b \<and> registry_ok (m_subscriptions b) \<and> umap_ok (m_clients b) \<and> peers_ok (m_peers b) \<and>
     interest_of (hasMeshSubscriber (m_subscriptions b)) b \<and> subs_bounded b"

definition broker_inv :: "far_views \<Rightarrow> broker \<Rightarrow> bool" where
  "broker_inv V b \<longleftrightarrow> broker_ok b \<and> links_synced b V"

lemma broker_okD:
  assumes "broker_ok b"
  shows "windows_ok b" "registry_ok (m_subscriptions b)" "umap_ok (m_clients b)" "peers_ok (m_peers b)"
    "interest_of (hasMeshSubscriber (m_subscriptions b)) b" "subs_bounded b"
  using assms by (simp_all add: broker_ok_def)

lemma broker_invD:
  assumes "broker_inv V b"
  shows "broker_ok b" "links_synced b V"
  using assms by (simp_all add: broker_inv_def)

lemma subs_boundedD:
  assumes "subs_bounded b"
  shows "reg_abs (m_subscriptions b) (c, t) = Some s \<Longrightarrow>
      map_of (m_clients b) c \<noteq> None \<and> t \<noteq> [] \<and> length t \<le> MAX_TOPIC_LENGTH_BYTES"
    and "length (held_topics (m_subscriptions b) c) \<le> MAX_SUBSCRIPTIONS_PER_CLIENT"
  using assms unfolding subs_bounded_def by blast+

lemma subs_boundedI:
  assumes "\<And>c t s. reg_abs (m_subscriptions b) (c, t) = Some s \<Longrightarrow>
      map_of (m_clients b) c \<noteq> None \<and> t \<noteq> [] \<and> length t \<le> MAX_TOPIC_LENGTH_BYTES"
    and "\<And>c. length (held_topics (m_subscriptions b) c) \<le> MAX_SUBSCRIPTIONS_PER_CLIENT"
  shows "subs_bounded b"
  using assms unfolding subs_bounded_def by blast

lemma windows_ok_cong:
  "m_seenCurrent b' = m_seenCurrent b \<Longrightarrow> m_seenPrevious b' = m_seenPrevious b \<Longrightarrow> windows_ok b' = windows_ok b"
  by (simp add: windows_ok_def)

section \<open>Operations that leave routing state alone\<close>

text \<open>The fields the invariant reads.\<close>

definition same_core :: "broker \<Rightarrow> broker \<Rightarrow> bool" where
  "same_core b b' \<longleftrightarrow>
     m_subscriptions b' = m_subscriptions b \<and> m_interest b' = m_interest b \<and>
     m_interestSaturated b' = m_interestSaturated b \<and> m_interestWildcard b' = m_interestWildcard b"

lemma broker_inv_core:
  assumes b: "broker_inv V b" and core: "same_core b b'"
    and w: "m_seenCurrent b' = m_seenCurrent b" "m_seenPrevious b' = m_seenPrevious b"
    and c: "umap_ok (m_clients b')" "dom (map_of (m_clients b)) \<subseteq> dom (map_of (m_clients b'))"
    and p: "peers_ok (m_peers b')" "links_synced b V \<Longrightarrow> links_synced b' V"
  shows "broker_inv V b'"
proof -
  note ok = broker_okD[OF broker_invD(1)[OF b]]
  have "interest_of (hasMeshSubscriber (m_subscriptions b')) b'"
    using ok(5) core interest_of_cong[of b' b] by (simp add: same_core_def)
  moreover have "subs_bounded b'"
  proof (rule subs_boundedI)
    show "map_of (m_clients b') d \<noteq> None \<and> t \<noteq> [] \<and> length t \<le> MAX_TOPIC_LENGTH_BYTES"
      if "reg_abs (m_subscriptions b') (d, t) = Some s" for d t s
      using subs_boundedD(1)[OF ok(6), of d t s] that core c(2) by (auto simp: same_core_def)
  qed (use subs_boundedD(2)[OF ok(6)] core in \<open>simp add: same_core_def\<close>)
  moreover have "windows_ok b'" using ok(1) windows_ok_cong[OF w] by simp
  ultimately have "broker_ok b'"
    using ok(2) core c(1) p(1) by (simp add: broker_ok_def same_core_def)
  then show ?thesis
    using b p(2) by (auto simp: broker_inv_def)
qed

lemma broker_inv_net:
  assumes b: "broker_inv V b" and core: "same_core b b'"
    and w: "m_seenCurrent b' = m_seenCurrent b" "m_seenPrevious b' = m_seenPrevious b"
    and c: "umap_ok (m_clients b')" "dom (map_of (m_clients b)) \<subseteq> dom (map_of (m_clients b'))"
    and p: "m_peers b' = m_peers b"
  shows "broker_inv V b'"
proof (rule broker_inv_core[OF b core w c])
  show "peers_ok (m_peers b')" using p broker_okD(4)[OF broker_invD(1)[OF b]] by simp
  show "links_synced b' V" if "links_synced b V"
    using that core p links_synced_same_interest[of b' b V] by (simp add: same_core_def)
qed

lemma clients_ok [simp]: "broker_inv V b \<Longrightarrow> umap_ok (m_clients b)"
  by (simp add: broker_inv_def broker_ok_def)

lemma broker_inv_sendTo: "broker_inv V b \<Longrightarrow> broker_inv V (snd (sendTo env c hb pl b))"
  by (rule broker_inv_net[of V b]) (simp_all add: sendTo_def same_core_def Let_def)

lemma broker_inv_tap: "broker_inv V b \<Longrightarrow> broker_inv V (tap hb pl b)"
  by (rule broker_inv_net[of V b]) (simp_all add: tap_def same_core_def)

lemma broker_inv_count: "broker_inv V b \<Longrightarrow> broker_inv V (count_message n b)"
  by (rule broker_inv_net[of V b]) (simp_all add: count_message_def same_core_def)

lemma broker_inv_touch: "broker_inv V b \<Longrightarrow> broker_inv V (touch_client now c b)"
  by (rule broker_inv_net[of V b]) (auto simp: touch_client_def same_core_def umap_simps)

lemma broker_inv_rejected: "broker_inv V b \<Longrightarrow> broker_inv V (noteRejectedSubscription b)"
  by (rule broker_inv_net[of V b]) (simp_all add: noteRejectedSubscription_def same_core_def)

lemma broker_inv_peer_drop: "broker_inv V b \<Longrightarrow> broker_inv V (notePeerDrop b)"
  by (rule broker_inv_net[of V b]) (simp_all add: notePeerDrop_def same_core_def)

lemma broker_inv_dropped: "broker_inv V b \<Longrightarrow> broker_inv V (noteDroppedTo c b)"
  by (rule broker_inv_net[of V b])
    (auto simp: noteDroppedTo_def same_core_def umap_simps Let_def split: option.splits)

lemma broker_inv_fold:
  "broker_inv V b \<Longrightarrow> (\<And>x b. broker_inv V b \<Longrightarrow> broker_inv V (f x b)) \<Longrightarrow> broker_inv V (fold f xs b)"
  by (induction xs arbitrary: b) auto

lemma broker_inv_deliver: "broker_inv V b \<Longrightarrow> broker_inv V (deliver env hb pl s fp x b)"
  using broker_inv_sendTo[of V b env "clientId x" hb pl]
  by (simp add: deliver_def split_def Let_def broker_inv_dropped)

lemma broker_inv_deliverToSubscribers:
  "broker_inv V b \<Longrightarrow> broker_inv V (deliverToSubscribers env h hb pl s fp b)"
  by (auto simp: deliverToSubscribers_def Let_def intro!: broker_inv_fold broker_inv_deliver split: option.splits)

lemma broker_inv_stats: "broker_inv V b \<Longrightarrow> broker_inv V (send_stats env hb pl s b)"
  using broker_inv_sendTo[of V b env "clientId s" hb pl]
  by (simp add: send_stats_def split_def Let_def broker_inv_dropped)

lemma broker_inv_broadcastStats: "broker_inv V b \<Longrightarrow> broker_inv V (broadcastStats env now b)"
  by (auto simp: broadcastStats_def Let_def intro!: broker_inv_fold broker_inv_stats broker_inv_tap split: option.splits)

section \<open>Links\<close>

lemma peers_ok_map:
  "(\<And>p. pl_address (f p) = pl_address p) \<Longrightarrow> peers_ok (map (\<lambda>(k, p). (k, f p)) ps) = peers_ok ps"
  by (simp add: peers_ok_def umap_ok_def comp_def split_def)

lemma broker_inv_map_links:
  assumes b: "broker_inv V b" and f: "\<And>p. pl_address (f p) = pl_address p" "\<And>p. link_queue (f p) = link_queue p"
  shows "broker_inv V (map_links f b)"
proof (rule broker_inv_core[OF b])
  show "peers_ok (m_peers (map_links f b))"
    using f(1) broker_okD(4)[OF broker_invD(1)[OF b]] by (simp add: peers_ok_map)
  show "links_synced (map_links f b) V" if "links_synced b V"
    using that by (rule links_synced_map) (simp_all add: link_synced_def backed_up_def f)
qed (use b in \<open>simp_all add: same_core_def\<close>)

lemma flood_link_frame:
  "pl_address (snd (flood_link m p)) = pl_address p" "link_queue (snd (flood_link m p)) = link_queue p"
  by (simp_all add: flood_link_def link_queue_def writeEncoded_def split_def Let_def)

lemma broker_inv_flood: "broker_inv V b \<Longrightarrow> broker_inv V (floodPeers hb pl b)"
  unfolding floodPeers_def Let_def
  by (intro broker_inv_fold broker_inv_map_links broker_inv_peer_drop) (simp_all add: flood_link_frame)

lemma peers_ok_delete: "peers_ok ps \<Longrightarrow> peers_ok (AList.delete k ps)"
  by (simp add: peers_ok_def AList.delete_eq distinct_map_filter)

lemma broker_inv_removePeer: "broker_inv V b \<Longrightarrow> broker_inv V (snd (removePeer k b))"
proof (cases "map_of (m_peers b) k")
  case (Some p)
  assume b: "broker_inv V b"
  show ?thesis
  proof (rule broker_inv_core[OF b])
    show "peers_ok (m_peers (snd (removePeer k b)))"
      using Some broker_okD(4)[OF broker_invD(1)[OF b]] by (simp add: removePeer_def Let_def peers_ok_delete)
    show "links_synced (snd (removePeer k b)) V" if "links_synced b V"
      using that Some
      by (auto simp: removePeer_def Let_def links_synced_def list_all_iff AList.delete_eq link_synced_def serves_def)
  qed (use b Some in \<open>simp_all add: same_core_def removePeer_def Let_def\<close>)
qed (simp add: removePeer_def)

section \<open>Sessions\<close>

text \<open>The registry changed on one topic; the interest follows.\<close>

lemma subs_bounded_cong:
  "m_subscriptions b' = m_subscriptions b \<Longrightarrow> m_clients b' = m_clients b \<Longrightarrow> subs_bounded b' = subs_bounded b"
  by (simp add: subs_bounded_def)

lemma peers_ok_change: "peers_ok (m_peers b) \<Longrightarrow> peers_ok (m_peers (noteMeshInterestChange t w b))"
  by (simp add: noteMeshInterestChange_def noteTopicSubscribed_def noteTopicUnsubscribed_def Let_def peers_ok_map)

lemma broker_inv_change:
  assumes b: "broker_inv V b" and r: "registry_ok r"
    and others: "\<And>t'. t' \<noteq> t \<Longrightarrow> hasMeshSubscriber r t' = hasMeshSubscriber (m_subscriptions b) t'"
    and bound: "subs_bounded (b\<lparr>m_subscriptions := r\<rparr>)"
  shows "broker_inv V (noteMeshInterestChange t (hasMeshSubscriber (m_subscriptions b) t) (b\<lparr>m_subscriptions := r\<rparr>))"
    (is "broker_inv V (noteMeshInterestChange t ?w ?b)")
proof -
  note ok = broker_okD[OF broker_invD(1)[OF b]]
  let ?b' = "noteMeshInterestChange t ?w ?b"
  have i: "interest_of (hasMeshSubscriber (m_subscriptions b)) ?b"
    using ok(5) interest_of_cong[of ?b b] by simp
  have "(hasMeshSubscriber (m_subscriptions b))(t := hasMeshSubscriber r t) = hasMeshSubscriber r"
    by (intro ext) (simp add: others)
  with interest_of_change[OF i refl, of t]
  have int: "interest_of (hasMeshSubscriber (m_subscriptions ?b')) ?b'" by simp
  have "subs_bounded ?b'" by (rule iffD2[OF subs_bounded_cong bound]) simp_all
  moreover have "windows_ok ?b'" by (rule iffD2[OF windows_ok_cong ok(1)]) simp_all
  moreover have "peers_ok (m_peers ?b')" using ok(4) by (intro peers_ok_change) simp
  ultimately have "broker_ok ?b'" using int r ok(3) by (simp add: broker_ok_def)
  moreover have "links_synced ?b' V" if "links_synced b V"
  proof (rule links_synced_change[OF _ i])
    show "links_synced ?b V" by (rule iffD2[OF links_synced_same_interest that]) simp_all
  qed
  ultimately show ?thesis using b by (auto simp: broker_inv_def)
qed

lemma length_omap_le:
  fixes m m' :: "(string, origin) omap"
  assumes "omap_ok m" "omap_ok m'" "dom (map_of m') \<subseteq> dom (map_of m)"
  shows "length m' \<le> length m"
proof -
  have "length xs = card (dom (map_of xs))" if "omap_ok xs" for xs :: "(string, origin) omap"
    using distinct_card[OF omap_ok_distinct[OF that]] by (simp add: dom_map_of_conv_image_fst)
  from this[OF assms(1)] this[OF assms(2)] show ?thesis
    using card_mono[OF finite_dom_map_of assms(3)] by simp
qed

lemma dom_held: "t \<in> dom (map_of (held_topics r c)) \<longleftrightarrow> reg_abs r (c, t) \<noteq> None"
  by (auto simp: reg_abs_def dom_def)

lemma subs_bounded_less:
  assumes "subs_bounded b" "registry_ok (m_subscriptions b)" "registry_ok r"
    and "\<And>c t. reg_abs r (c, t) = None \<or> reg_abs r (c, t) = reg_abs (m_subscriptions b) (c, t)"
    and "\<And>c t. reg_abs r (c, t) \<noteq> None \<Longrightarrow> map_of (m_clients b') c \<noteq> None"
    and "m_subscriptions b' = r"
  shows "subs_bounded b'"
proof -
  have "dom (map_of (held_topics r c)) \<subseteq> dom (map_of (held_topics (m_subscriptions b) c))" for c
  proof
    fix t assume "t \<in> dom (map_of (held_topics r c))"
    then show "t \<in> dom (map_of (held_topics (m_subscriptions b) c))"
      using assms(4)[of c t] unfolding dom_held by auto
  qed
  then have len: "length (held_topics r c) \<le> length (held_topics (m_subscriptions b) c)" for c
    using assms(2,3) by (intro length_omap_le) simp_all
  show ?thesis
  proof (rule subs_boundedI)
    show "map_of (m_clients b') c \<noteq> None \<and> t \<noteq> [] \<and> length t \<le> MAX_TOPIC_LENGTH_BYTES"
      if "reg_abs (m_subscriptions b') (c, t) = Some s" for c t s
    proof -
      have "reg_abs r (c, t) = Some s" using that assms(6) by simp
      moreover from this have "map_of (m_clients b') c \<noteq> None" by (intro assms(5)[of c t]) simp
      ultimately show ?thesis
        using assms(4)[of c t] subs_boundedD(1)[OF assms(1), of c t s] by simp
    qed
    show "length (held_topics (m_subscriptions b') c) \<le> MAX_SUBSCRIPTIONS_PER_CLIENT" for c
      using le_trans[OF len subs_boundedD(2)[OF assms(1)]] assms(6) by simp
  qed
qed

lemma broker_inv_unsubscribe: "broker_inv V b \<Longrightarrow> broker_inv V (handle_unsubscribe h c b)"
proof -
  assume b: "broker_inv V b"
  note ok = broker_okD[OF broker_invD(1)[OF b]]
  let ?r = "snd (unsubscribe (m_subscriptions b) c (topic h))"
  have r: "registry_ok ?r" "reg_abs ?r = (reg_abs (m_subscriptions b))((c, topic h) := None)"
    using ok(2) by (simp_all add: reg.unsub_invar reg.unsub_held)
  show ?thesis
  proof (cases "fst (unsubscribe (m_subscriptions b) c (topic h))")
    case True
    have "subs_bounded (b\<lparr>m_subscriptions := ?r\<rparr>)"
    proof (rule subs_bounded_less[OF ok(6,2) r(1)])
      show "map_of (m_clients (b\<lparr>m_subscriptions := ?r\<rparr>)) d \<noteq> None" if "reg_abs ?r (d, t) \<noteq> None" for d t
        using that subs_boundedD(1)[OF ok(6), of d t] r(2) by (auto split: if_splits)
    qed (simp_all add: r)
    then show ?thesis
      using True r(1) broker_inv_change[OF b r(1), of "topic h"] ok(2)
      by (simp add: handle_unsubscribe_def split_def Let_def reg.mesh_unsub_other)
  next
    case False
    then have "unsubscribe (m_subscriptions b) c (topic h) = (False, m_subscriptions b)"
      by (simp add: reg.unsub_hit unsubscribe_miss)
    then show ?thesis using b by (simp add: handle_unsubscribe_def)
  qed
qed

lemma held_topics_subscribe:
  assumes "registry_ok r"
  shows "length (held_topics (snd (subscribe r c t s)) d) =
    length (held_topics r d) + (if d = c \<and> reg_abs r (c, t) = None then 1 else 0)"
proof (cases "reg_abs r (c, t) = Some s")
  case True
  then show ?thesis by (simp add: subscribe_same)
next
  case False
  have "held_topics (snd (subscribe r c t s)) d = (if d = c then omap_put t s (held_topics r c) else held_topics r d)"
    by (simp add: held_topics_def subscribe_clientTopics[OF False] umap_simps)
  then show ?thesis
    using length_omap_put[OF omap_ok_held[OF assms], of t s c] by (simp add: reg_abs_def)
qed

lemma canSubscribe_room:
  assumes "registry_ok (m_subscriptions b)" "canSubscribe b c t" "reg_abs (m_subscriptions b) (c, t) = None"
  shows "length (held_topics (m_subscriptions b) c) < MAX_SUBSCRIPTIONS_PER_CLIENT"
  using assms
  by (auto simp: canSubscribe_def subscriptionsOf_eq reg_abs_def MAX_SUBSCRIPTIONS_PER_CLIENT_def split: if_splits)

lemma broker_inv_subscribe:
  assumes b: "broker_inv V b" and c: "map_of (m_clients b) c \<noteq> None"
  shows "broker_inv V (handle_subscribe h pl c b)"
proof -
  note ok = broker_okD[OF broker_invD(1)[OF b]]
  define t s where "t = topic h" and "s = decodeSubscribeScope pl"
  let ?r = "snd (subscribe (m_subscriptions b) c t s)"
  have r: "registry_ok ?r" "reg_abs ?r = (reg_abs (m_subscriptions b))((c, t) \<mapsto> s)"
    using ok(2) by (simp_all add: reg.sub_invar reg.sub_held)
  show ?thesis
  proof (cases "t \<noteq> [] \<and> length t \<le> MAX_TOPIC_LENGTH_BYTES \<and> canSubscribe b c t")
    case t: True
    show ?thesis
    proof (cases "fst (subscribe (m_subscriptions b) c t s)")
      case True
      have "length (held_topics ?r d) \<le> MAX_SUBSCRIPTIONS_PER_CLIENT" for d
        using t canSubscribe_room[OF ok(2), of c t] subs_boundedD(2)[OF ok(6), of d]
        by (simp add: held_topics_subscribe[OF ok(2)] Suc_le_eq)
      moreover have "map_of (m_clients b) d \<noteq> None \<and> u \<noteq> [] \<and> length u \<le> MAX_TOPIC_LENGTH_BYTES"
        if "reg_abs ?r (d, u) = Some s'" for d u s'
        using that c t subs_boundedD(1)[OF ok(6), of d u s'] r(2) by (auto split: if_splits)
      ultimately have "subs_bounded (b\<lparr>m_subscriptions := ?r\<rparr>)"
        by (intro subs_boundedI) simp_all
      then show ?thesis
        using True t r(1) broker_inv_change[OF b r(1), of t] ok(2)
        by (simp add: handle_subscribe_def split_def Let_def reg.mesh_sub_other t_def s_def)
    next
      case False
      then have "subscribe (m_subscriptions b) c t s = (False, m_subscriptions b)"
        by (simp add: reg.sub_fresh subscribe_same)
      then show ?thesis using b t by (simp add: handle_subscribe_def t_def s_def)
    qed
  next
    case False
    then show ?thesis using b by (auto simp: handle_subscribe_def t_def broker_inv_rejected)
  qed
qed

subsection \<open>Removal\<close>

lemma fold_note_frame [simp]:
  "m_brokerId (fold (\<lambda>t. noteMeshInterestChange t w) ts b) = m_brokerId b"
  "m_clients (fold (\<lambda>t. noteMeshInterestChange t w) ts b) = m_clients b"
  "m_subscriptions (fold (\<lambda>t. noteMeshInterestChange t w) ts b) = m_subscriptions b"
  "m_clientTimeout (fold (\<lambda>t. noteMeshInterestChange t w) ts b) = m_clientTimeout b"
  "b_net (fold (\<lambda>t. noteMeshInterestChange t w) ts b) = b_net b"
  "m_seenCurrent (fold (\<lambda>t. noteMeshInterestChange t w) ts b) = m_seenCurrent b"
  "m_seenPrevious (fold (\<lambda>t. noteMeshInterestChange t w) ts b) = m_seenPrevious b"
  "m_discovery (fold (\<lambda>t. noteMeshInterestChange t w) ts b) = m_discovery b"
  "m_clusterName (fold (\<lambda>t. noteMeshInterestChange t w) ts b) = m_clusterName b"
  by (induction ts arbitrary: b) simp_all

lemma peers_ok_fold_note:
  "peers_ok (m_peers b) \<Longrightarrow> peers_ok (m_peers (fold (\<lambda>t. noteMeshInterestChange t w) ts b))"
  by (induction ts arbitrary: b) (simp_all add: peers_ok_change)

lemma interest_of_fold_note:
  assumes "interest_of F b" "distinct ts" "\<And>t. t \<in> set ts \<Longrightarrow> F t"
  shows "interest_of (\<lambda>t. if t \<in> set ts then hasMeshSubscriber (m_subscriptions b) t else F t)
      (fold (\<lambda>t. noteMeshInterestChange t True) ts b) \<and>
    (links_synced b V \<longrightarrow> links_synced (fold (\<lambda>t. noteMeshInterestChange t True) ts b) V)"
  using assms
proof (induction ts arbitrary: F b)
  case (Cons t ts)
  let ?b = "noteMeshInterestChange t True b"
  let ?F = "F(t := hasMeshSubscriber (m_subscriptions b) t)"
  have i: "interest_of ?F ?b" using Cons.prems by (intro interest_of_change) simp_all
  have F: "?F u" if "u \<in> set ts" for u using that Cons.prems(2,3) by auto
  have "(\<lambda>u. if u \<in> set ts then hasMeshSubscriber (m_subscriptions ?b) u else ?F u) =
      (\<lambda>u. if u \<in> set (t # ts) then hasMeshSubscriber (m_subscriptions b) u else F u)"
    by (intro ext) simp
  then show ?case
    using Cons.IH[OF i _ F] Cons.prems(2) links_synced_change[OF _ Cons.prems(1), of V t True] by simp
qed simp

lemma removeClient_frame [simp]:
  "m_brokerId (removeClient c b) = m_brokerId b"
  "m_clients (removeClient c b) = AList.delete c (m_clients b)"
  "m_subscriptions (removeClient c b) = reg_removeClient (m_subscriptions b) c"
  "m_clientTimeout (removeClient c b) = m_clientTimeout b" "b_net (removeClient c b) = b_net b"
  "m_seenCurrent (removeClient c b) = m_seenCurrent b" "m_seenPrevious (removeClient c b) = m_seenPrevious b"
  "m_discovery (removeClient c b) = m_discovery b" "m_clusterName (removeClient c b) = m_clusterName b"
  by (simp_all add: removeClient_def Let_def)

lemma held_after_removal:
  "registry_ok r \<Longrightarrow> reg_abs (reg_removeClient r c) (d, t) = (if d = c then None else reg_abs r (d, t))"
  by (simp add: reg.drop_held)

lemma subs_bounded_removal:
  assumes b: "subs_bounded b" "registry_ok (m_subscriptions b)"
    and b': "m_subscriptions b' = reg_removeClient (m_subscriptions b) c" "m_clients b' = AList.delete c (m_clients b)"
  shows "subs_bounded b'"
proof (rule subs_bounded_less[OF b reg.drop_invar[OF b(2)]])
  fix d t
  show "reg_abs (reg_removeClient (m_subscriptions b) c) (d, t) = None \<or>
      reg_abs (reg_removeClient (m_subscriptions b) c) (d, t) = reg_abs (m_subscriptions b) (d, t)"
    using b(2) by (simp add: held_after_removal)
  show "map_of (m_clients b') d \<noteq> None" if "reg_abs (reg_removeClient (m_subscriptions b) c) (d, t) \<noteq> None"
    using that subs_boundedD(1)[OF b(1), of d t] b(2) b'(2) by (auto simp: held_after_removal umap_simps split: if_splits)
qed (simp add: b'(1))

lemma wanted_after_removal:
  assumes r: "registry_ok r"
  shows "(\<lambda>t. if t \<in> set (filter (hasMeshSubscriber r) (map fst (held_topics r c)))
         then hasMeshSubscriber (reg_removeClient r c) t else hasMeshSubscriber r t) =
    hasMeshSubscriber (reg_removeClient r c)"
proof
  fix t
  let ?ts = "filter (hasMeshSubscriber r) (map fst (held_topics r c))"
  show "(if t \<in> set ?ts then hasMeshSubscriber (reg_removeClient r c) t else hasMeshSubscriber r t) =
      hasMeshSubscriber (reg_removeClient r c) t"
  proof (cases "t \<in> set ?ts")
    case False
    then have "reg_abs r (c, t) = None \<or> \<not> hasMeshSubscriber r t"
      by (auto simp: reg_abs_def map_of_eq_None_iff)
    then show ?thesis
      using reg.mesh_drop_other[OF r, of c t] reg.mesh_drop_less[OF r, of c t] False by auto
  qed simp
qed

lemma broker_inv_removeClient:
  assumes b: "broker_inv V b"
  shows "broker_inv V (removeClient c b)"
proof -
  note ok = broker_okD[OF broker_invD(1)[OF b]]
  let ?r = "reg_removeClient (m_subscriptions b) c"
  define ts where "ts = filter (hasMeshSubscriber (m_subscriptions b)) (map fst (held_topics (m_subscriptions b) c))"
  let ?b = "b\<lparr>m_subscriptions := ?r, m_clients := AList.delete c (m_clients b)\<rparr>"
  let ?b' = "fold (\<lambda>t. noteMeshInterestChange t True) ts ?b"
  have eq: "removeClient c b = ?b'"
    by (simp add: removeClient_def ts_def subscriptionsOf_eq[OF ok(2)])
  have ts: "distinct ts" "\<And>t. t \<in> set ts \<Longrightarrow> hasMeshSubscriber (m_subscriptions b) t"
    using omap_ok_distinct[OF omap_ok_held[OF ok(2)], of c] by (auto simp: ts_def distinct_map_filter)
  have i: "interest_of (hasMeshSubscriber (m_subscriptions b)) ?b"
    using ok(5) interest_of_cong[of ?b b] by simp
  have int: "interest_of (hasMeshSubscriber ?r) ?b'"
    using conjunct1[OF interest_of_fold_note[OF i ts]] wanted_after_removal[OF ok(2), of c]
    by (simp add: ts_def cong: if_cong)
  have links: "links_synced ?b' V" if "links_synced b V"
  proof -
    have "links_synced ?b V" by (rule iffD2[OF links_synced_same_interest that]) simp_all
    then show ?thesis using interest_of_fold_note[OF i ts] by blast
  qed
  have "subs_bounded ?b'" by (rule subs_bounded_removal[OF ok(6,2), of _ c]) simp_all
  moreover have "windows_ok ?b'" by (rule iffD2[OF windows_ok_cong ok(1)]) simp_all
  moreover have "peers_ok (m_peers ?b')" using ok(4) by (intro peers_ok_fold_note) simp
  ultimately have "broker_ok ?b'" using int ok(2,3) by (simp add: broker_ok_def reg.drop_invar)
  then show ?thesis unfolding eq using b links by (auto simp: broker_inv_def)
qed

section \<open>The client handler\<close>

lemma broker_inv_unlink: "broker_inv V b \<Longrightarrow> broker_inv V (unlinkInboundPeers env b)"
  unfolding unlinkInboundPeers_def by (intro broker_inv_fold broker_inv_removeClient broker_inv_sendTo)

lemma broker_inv_drops:
  "broker_inv V b \<Longrightarrow> list_all (\<lambda>e. \<exists>u. e = Drop u) es \<Longrightarrow> broker_inv V (apply_discovery opens es b)"
proof (induction opens es b rule: apply_discovery.induct)
  case (3 opens u es b)
  then show ?case using broker_inv_removePeer by simp
qed simp_all

lemma broker_inv_set_cluster: "broker_inv V b \<Longrightarrow> broker_inv V (handle_set_cluster env pl b)"
proof -
  assume b: "broker_inv V b"
  have b1: "broker_inv V (unlinkInboundPeers env (b\<lparr>m_clusterName := pl\<rparr>))"
    by (rule broker_inv_unlink, rule broker_inv_net[OF b]) (use b in \<open>simp_all add: same_core_def\<close>)
  have "broker_inv V ((unlinkInboundPeers env (b\<lparr>m_clusterName := pl\<rparr>))\<lparr>m_discovery := d\<rparr>)" for d
    by (rule broker_inv_net[OF b1]) (use b1 in \<open>simp_all add: same_core_def\<close>)
  then show ?thesis
    using b by (auto simp: handle_set_cluster_def split_def Let_def disc_setCluster_def list_all_iff
        intro!: broker_inv_drops split: option.splits)
qed

lemma touch_client_present: "map_of (m_clients (touch_client now c b)) c \<noteq> None"
  by (simp add: touch_client_def umap_simps)

lemma sendTo_frame [simp]:
  "m_clients (snd (sendTo env c hb pl b)) = m_clients b" "m_peers (snd (sendTo env c hb pl b)) = m_peers b"
  "m_subscriptions (snd (sendTo env c hb pl b)) = m_subscriptions b"
  "m_brokerId (snd (sendTo env c hb pl b)) = m_brokerId b"
  "m_interest (snd (sendTo env c hb pl b)) = m_interest b"
  "b_net (snd (sendTo env c hb pl b)) = b_net b @ [ToClient c hb pl (env_router env (b_net b) c)]"
  "fst (sendTo env c hb pl b) = env_router env (b_net b) c"
  by (simp_all add: sendTo_def Let_def)

text \<open>The broker after the session bookkeeping of \<^verbatim>\<open>handleClientMessage\<close>: the client is known, and was asked to
  rebuild its session if it was not and did not say CONNECT.\<close>

definition greet :: "broker_env \<Rightarrow> time \<Rightarrow> string \<Rightarrow> string \<Rightarrow> broker \<Rightarrow> broker" where
  "greet env now k c b =
     (let b1 = touch_client now c b
      in if map_of (m_clients b) c = None \<and> k \<noteq> CONNECT
         then snd (sendTo env c (control_frame env RESET b1) '''' b1) else b1)"

lemma handleClientMessage_greet:
  "handleClientMessage env now h pl c b =
     (let k = handler_key h; b2 = greet env now k c b in
      if k = DISCONNECT then (True, removeClient c b)
      else if k = CONNECT then (True, b2)
      else if k = HEARTBEAT then (True, snd (sendTo env c (control_frame env HEARTBEAT_ACK b2) '''' b2))
      else if k = SUBSCRIBE then (True, handle_subscribe h pl c b2)
      else if k = UNSUBSCRIBE then (True, handle_unsubscribe h c b2)
      else if k = SET_CLUSTER then (True, handle_set_cluster env pl b2)
      else (False, b2))"
  by (simp add: handleClientMessage_def greet_def Let_def)

lemma greet_present: "map_of (m_clients (greet env now k c b)) c \<noteq> None"
  using touch_client_present[of now c b] by (simp add: greet_def Let_def)

lemma broker_inv_greet: "broker_inv V b \<Longrightarrow> broker_inv V (greet env now k c b)"
  by (simp add: greet_def Let_def broker_inv_touch broker_inv_sendTo)

lemma broker_inv_handle:
  assumes "broker_inv V b"
  shows "broker_inv V (snd (handleClientMessage env now h pl c b))"
proof -
  define g where "g = greet env now (handler_key h) c b"
  have "broker_inv V g" "map_of (m_clients g) c \<noteq> None"
    using broker_inv_greet[OF assms] greet_present unfolding g_def by blast+
  then show ?thesis
    using assms unfolding handleClientMessage_greet Let_def g_def[symmetric]
    by (simp add: broker_inv_removeClient broker_inv_sendTo broker_inv_subscribe broker_inv_unsubscribe
        broker_inv_set_cluster)
qed

section \<open>The pipeline\<close>

lemma broker_inv_route: "broker_inv V b \<Longrightarrow> broker_inv V (route_message env now h pl s fp b)"
  unfolding route_message_def Let_def
  by (auto simp: split_def intro!: broker_inv_flood broker_inv_deliverToSubscribers broker_inv_handle broker_inv_tap)

lemma seen_windows_more:
  fixes b b' :: broker
  assumes "seen_windows.more b' = seen_windows.more b"
  shows "m_clients b' = m_clients b" "m_peers b' = m_peers b" "same_core b b'" "m_brokerId b' = m_brokerId b"
    "b_net b' = b_net b" "m_subscriptions b' = m_subscriptions b"
  using assms by (cases b; cases b'; simp add: same_core_def)+

lemma broker_inv_isDuplicate:
  assumes b: "broker_inv V b"
  shows "\<exists>b'. isDuplicate b u = Some (fst (see (windows_abs b) (dedup_id u)), b') \<and> broker_inv V b' \<and>
    seen_windows.more b' = seen_windows.more b"
proof -
  note ok = broker_okD[OF broker_invD(1)[OF b]]
  obtain b' where b': "isDuplicate b u = Some (fst (see (windows_abs b) (dedup_id u)), b')"
    "windows_ok b'" "seen_windows.more b' = seen_windows.more b"
    by (rule isDuplicate_refines[OF ok(1), of u])
  note same = seen_windows_more[OF b'(3)]
  have "interest_of (hasMeshSubscriber (m_subscriptions b')) b'"
    using ok(5) same(3) interest_of_cong[of b' b] by (simp add: same_core_def)
  moreover have "subs_bounded b'" using ok(6) subs_bounded_cong[OF same(6,1)] by simp
  ultimately have "broker_ok b'" using ok(2-4) b'(2) same by (simp add: broker_ok_def)
  moreover have "links_synced b' V = links_synced b V"
    using same(2,3) by (intro links_synced_same_interest) (simp_all add: same_core_def)
  ultimately have "broker_inv V b'" using b by (simp add: broker_inv_def)
  then show ?thesis using b' by blast
qed

lemma broker_inv_processMessage:
  assumes b: "broker_inv V b"
  shows "\<exists>b'. processMessage env inp h pl s fp b = Some b' \<and> broker_inv V b'"
proof -
  let ?h = "stamp (snd inp) (m_brokerId b) h"
  let ?b = "if fp then count_message (length (encodeHeader (env_codec env) ?h) + length pl) b else b"
  have b1: "broker_inv V ?b" using b by (simp add: broker_inv_count)
  obtain d b2 where "isDuplicate ?b (message_uuid ?h) = Some (d, b2)" "broker_inv V b2"
    using broker_inv_isDuplicate[OF b1, of "message_uuid ?h"] by blast
  then show ?thesis
    using b1 by (cases d) (simp_all add: processMessage_def Let_def broker_inv_route)
qed

lemma broker_inv_client_group:
  "broker_inv V b \<Longrightarrow> \<exists>b'. client_group env inp g b = Some b' \<and> broker_inv V b'"
  by (auto simp: client_group_def Let_def intro!: broker_inv_processMessage broker_inv_count split: list.splits option.splits)

lemma broker_inv_client_drain:
  "broker_inv V b \<Longrightarrow> \<exists>left n b'. client_drain env inp i gs b = Some (left, n, b') \<and> broker_inv V b'"
proof (induction env inp i gs b rule: client_drain.induct)
  case (2 env inp i g gs b)
  obtain b' where b': "client_group env (inp i) g b = Some b'" "broker_inv V b'"
    using broker_inv_client_group[OF 2(2)] by blast
  show ?case using 2(1)[OF _ b'] 2(2) b'(1) by simp
qed simp

lemma broker_inv_peer_drain:
  "broker_inv V b \<Longrightarrow> \<exists>b'. peer_drain env inp i es b = Some b' \<and> broker_inv V b'"
proof (induction env inp i es b rule: peer_drain.induct)
  case (2 env inp i e es b)
  obtain b' where b': "processMessage env (inp i) (header e) (payload e) ''PEER'' True b = Some b'" "broker_inv V b'"
    using broker_inv_processMessage[OF 2(2)] by blast
  show ?case using 2(1)[OF b'] b'(1) by simp
qed simp

lemma broker_inv_sweep: "broker_inv V b \<Longrightarrow> broker_inv V (sweep_clients now n cs b)"
  by (induction now n cs b rule: sweep_clients.induct) (simp_all add: broker_inv_removeClient)

lemma broker_inv_cleanup: "broker_inv V b \<Longrightarrow> broker_inv V (cleanup now b)"
  using broker_inv_net[OF broker_inv_sweep[of V b now 0 "m_clients b"], of "cleanup now b"]
    broker_inv_sweep[of V b now 0 "m_clients b"]
  by (cases "m_cleanupInterval b < now - b_lastCleanup b") (simp_all add: cleanup_def same_core_def)

lemma broker_inv_stats_turn: "broker_inv V b \<Longrightarrow> broker_inv V (stats_turn env now statsNow b)"
  using broker_inv_net[OF broker_inv_broadcastStats[of V b env statsNow], of "stats_turn env now statsNow b"]
    broker_inv_broadcastStats[of V b env statsNow]
  by (cases "1000000000 < now - m_lastStatsTime b") (simp_all add: stats_turn_def same_core_def)

lemma broker_inv_turn:
  assumes b: "broker_inv V b"
  shows "\<exists>left b'. broker_turn env inp now statsNow arrivals b = Some (left, b') \<and> broker_inv V b'"
proof -
  obtain left i b1 where b1: "client_drain env inp 0 arrivals b = Some (left, i, b1)" "broker_inv V b1"
    using broker_inv_client_drain[OF b] by blast
  let ?b = "b1\<lparr>m_peerInboundQueue := snd (drainTo (m_peerInboundQueue b1))\<rparr>"
  have "broker_inv V ?b"
    by (rule broker_inv_net[OF b1(2)]) (use b1(2) in \<open>simp_all add: same_core_def\<close>)
  then obtain b2 where "peer_drain env inp i (fst (drainTo (m_peerInboundQueue b1))) ?b = Some b2" "broker_inv V b2"
    using broker_inv_peer_drain by blast
  then show ?thesis
    using b1(1) by (simp add: broker_turn_def split_def Let_def broker_inv_stats_turn broker_inv_cleanup)
qed

section \<open>A fresh broker\<close>

lemma links_synced_untracked [simp]: "links_synced b (\<lambda>_. None)"
  by (simp add: links_synced_def list_all_iff split_def)

lemma broker_inv_untracked: "broker_inv (\<lambda>_. None) b \<longleftrightarrow> broker_ok b"
  by (simp add: broker_inv_def)

lemma broker_inv_new: "broker_inv (\<lambda>_. None) (new_broker timeout uuid)"
proof -
  have "windows_ok (new_broker timeout uuid)"
    using windows_ok_fresh(1) by (simp add: windows_ok_def new_broker_def fresh_windows_def)
  moreover have "\<not> hasMeshSubscriber empty_registry t" for t
    by (simp add: hasMeshSubscriber_def subscribersOf_def empty_registry_def)
  moreover have "held_topics empty_registry c = []" for c
    by (simp add: held_topics_def empty_registry_def)
  ultimately show ?thesis
    by (simp add: broker_inv_def broker_ok_def new_broker_def peers_ok_def interest_of_def subs_bounded_def
        links_synced_def)
qed

end
