(* ===== verification/Broker_Routing.thy ===== *)
theory Broker_Routing
  imports Broker_Ok
begin

text \<open>What the broker does with a message: who receives it, what the links are given, what a repeat and a reserved
  key cause, how sessions are answered and swept.\<close>

section \<open>Delivery\<close>

text \<open>The reference: one send per recipient, a refused one counted against it.\<close>

definition send_once :: "broker_env \<Rightarrow> string \<Rightarrow> string \<Rightarrow> string \<Rightarrow> broker \<Rightarrow> broker" where
  "send_once env hb pl c b =
     (if env_router env (b_net b) c then snd (sendTo env c hb pl b)
      else noteDroppedTo c (snd (sendTo env c hb pl b)))"

definition send_all :: "broker_env \<Rightarrow> string \<Rightarrow> string \<Rightarrow> string list \<Rightarrow> broker \<Rightarrow> broker" where
  "send_all env hb pl cs b = fold (send_once env hb pl) cs b"

text \<open>A subscription that lets a message through, and a client that is to receive it.\<close>

definition eligible :: "broker \<Rightarrow> string \<Rightarrow> bool \<Rightarrow> subscriber \<Rightarrow> bool" where
  "eligible b senderId fp s \<longleftrightarrow>
     (fp \<or> clientId s \<noteq> senderId) \<and> scopeAccepts (scope s) (\<not> fp) \<and> map_of (m_clients b) (clientId s) \<noteq> None"

definition wants :: "broker \<Rightarrow> string \<Rightarrow> bool \<Rightarrow> string \<Rightarrow> bool" where
  "wants b t fp c \<longleftrightarrow>
     (\<exists>s. reg_abs (m_subscriptions b) (c, t) = Some s \<and> scopeAccepts s (\<not> fp)) \<or>
     (\<exists>s. reg_abs (m_subscriptions b) (c, WILDCARD_TOPIC) = Some s \<and> scopeAccepts s (\<not> fp))"

definition receives :: "broker \<Rightarrow> string \<Rightarrow> string \<Rightarrow> bool \<Rightarrow> string \<Rightarrow> bool" where
  "receives b t senderId fp c \<longleftrightarrow>
     wants b t fp c \<and> (fp \<or> c \<noteq> senderId) \<and> map_of (m_clients b) c \<noteq> None"

definition recipients :: "broker \<Rightarrow> string \<Rightarrow> string \<Rightarrow> bool \<Rightarrow> string list" where
  "recipients b t senderId fp =
     map clientId (filter (eligible b senderId fp) (subs_at (m_subscriptions b) t)) @
     (if t = WILDCARD_TOPIC then []
      else map clientId
        (filter (\<lambda>s. eligible b senderId fp s \<and>
             \<not> list_ex (\<lambda>e. clientId e = clientId s \<and> scopeAccepts (scope e) (\<not> fp)) (subs_at (m_subscriptions b) t))
           (subs_at (m_subscriptions b) WILDCARD_TOPIC)))"

lemma noteDroppedTo_dom [simp]: "dom (map_of (m_clients (noteDroppedTo c b))) = dom (map_of (m_clients b))"
  by (auto simp: noteDroppedTo_def Let_def umap_simps split: option.splits)

lemma noteDroppedTo_frame [simp]:
  "b_net (noteDroppedTo c b) = b_net b" "m_totalDropped (noteDroppedTo c b) = m_totalDropped b + 1"
  "m_subscriptions (noteDroppedTo c b) = m_subscriptions b" "m_peers (noteDroppedTo c b) = m_peers b"
  by (simp_all add: noteDroppedTo_def Let_def split: option.splits)

lemma sendTo_dropped [simp]: "m_totalDropped (snd (sendTo env c hb pl b)) = m_totalDropped b"
  by (simp add: sendTo_def Let_def)

lemma send_once_frame [simp]:
  "b_net (send_once env hb pl c b) = b_net b @ [ToClient c hb pl (env_router env (b_net b) c)]"
  "m_totalDropped (send_once env hb pl c b) = m_totalDropped b + (if env_router env (b_net b) c then 0 else 1)"
  "m_subscriptions (send_once env hb pl c b) = m_subscriptions b" "m_peers (send_once env hb pl c b) = m_peers b"
  "dom (map_of (m_clients (send_once env hb pl c b))) = dom (map_of (m_clients b))"
  by (simp_all add: send_once_def)

lemma eligible_cong:
  "dom (map_of (m_clients b')) = dom (map_of (m_clients b)) \<Longrightarrow> eligible b' senderId fp = eligible b senderId fp"
  by (rule ext) (auto simp: eligible_def set_eq_iff domIff)

lemma deliver_once:
  "deliver env hb pl senderId fp s b =
     (if eligible b senderId fp s then send_once env hb pl (clientId s) b else b)"
  by (auto simp: deliver_def eligible_def send_once_def split_def Let_def)

lemma fold_deliver:
  assumes "dom (map_of (m_clients b)) = dom (map_of (m_clients b0))"
  shows "fold (\<lambda>s b'. if P s then b' else deliver env hb pl senderId fp s b') subs b =
    send_all env hb pl (map clientId (filter (\<lambda>s. eligible b0 senderId fp s \<and> \<not> P s) subs)) b"
  using assms
proof (induction subs arbitrary: b)
  case (Cons s subs)
  have "eligible b senderId fp s = eligible b0 senderId fp s"
    by (simp add: eligible_cong[OF Cons.prems])
  then show ?case
    using Cons by (simp add: deliver_once send_all_def)
qed (simp add: send_all_def)

lemma send_all_dom: "dom (map_of (m_clients (send_all env hb pl cs b))) = dom (map_of (m_clients b))"
  by (induction cs arbitrary: b) (simp_all add: send_all_def)

lemma send_all_append: "send_all env hb pl (cs @ ds) b = send_all env hb pl ds (send_all env hb pl cs b)"
  by (simp add: send_all_def)

lemma served_exactly_iff:
  assumes r: "registry_ok r"
  shows "served_exactly (subscribersOf r t) c local \<longleftrightarrow>
    list_ex (\<lambda>e. clientId e = c \<and> scopeAccepts (scope e) local) (subs_at r t)"
proof -
  have d: "distinct (map clientId (subs_at r t))"
    using registry_okD(5)[OF r, of t] by (simp add: subs_describe_def)
  have "(case find (\<lambda>s. clientId s = c) subs of None \<Rightarrow> False | Some e \<Rightarrow> scopeAccepts (scope e) local) \<longleftrightarrow>
      list_ex (\<lambda>e. clientId e = c \<and> scopeAccepts (scope e) local) subs"
    if "distinct (map clientId subs)" for subs :: "subscriber list"
    using that by (induction subs) (auto simp: list_ex_iff image_iff)
  from this[OF d] show ?thesis
    by (simp add: served_exactly_def subscribersOf_eq[OF r])
qed

lemma deliverToSubscribers_all:
  assumes r: "registry_ok (m_subscriptions b)"
  shows "deliverToSubscribers env h hb pl senderId fp b =
    send_all env hb pl (recipients b (topic h) senderId fp) b"
proof -
  let ?r = "m_subscriptions b"
  let ?send = "deliver env hb pl senderId fp"
  let ?b1 = "send_all env hb pl (map clientId (filter (eligible b senderId fp) (subs_at ?r (topic h)))) b"
  have exact: "(case subscribersOf ?r (topic h) of None \<Rightarrow> b | Some subs \<Rightarrow> fold ?send subs b) = ?b1"
    using fold_deliver[OF refl, of "\<lambda>_. False" env hb pl senderId fp "subs_at ?r (topic h)" b]
    by (simp add: subscribersOf_eq[OF r] send_all_def)
  have dom: "dom (map_of (m_clients ?b1)) = dom (map_of (m_clients b))" by (rule send_all_dom)
  show ?thesis
    unfolding deliverToSubscribers_def Let_def exact served_exactly_iff[OF r] recipients_def
    using fold_deliver[OF dom, of "\<lambda>s. list_ex (\<lambda>e. clientId e = clientId s \<and> scopeAccepts (scope e) (\<not> fp)) (subs_at ?r (topic h))"
        env hb pl senderId fp "subs_at ?r WILDCARD_TOPIC"]
    by (simp add: subscribersOf_eq[OF r] send_all_append send_all_def[of _ _ _ "[]"])
qed

text \<open>The groups offered to the ROUTER socket, each with whether it was taken.\<close>

definition offers :: "string \<Rightarrow> string \<Rightarrow> string list \<Rightarrow> bool list \<Rightarrow> net_event list" where
  "offers hb pl cs oks = map2 (\<lambda>c ok. ToClient c hb pl ok) cs oks"

lemma offers_mem: "ToClient c hb' pl' ok \<in> set (offers hb pl cs oks) \<Longrightarrow> c \<in> set cs"
  by (auto simp: offers_def dest: set_zip_leftD)

lemma send_all_net:
  "\<exists>oks. length oks = length cs \<and> b_net (send_all env hb pl cs b) = b_net b @ offers hb pl cs oks \<and>
     m_totalDropped (send_all env hb pl cs b) = m_totalDropped b + of_nat (length (filter Not oks))"
proof (induction cs arbitrary: b)
  case (Cons c cs)
  obtain oks where "length oks = length cs"
    "b_net (send_all env hb pl cs (send_once env hb pl c b)) =
       b_net (send_once env hb pl c b) @ offers hb pl cs oks"
    "m_totalDropped (send_all env hb pl cs (send_once env hb pl c b)) =
       m_totalDropped (send_once env hb pl c b) + of_nat (length (filter Not oks))"
    using Cons.IH by blast
  then show ?case
    by (intro exI[of _ "env_router env (b_net b) c # oks"]) (simp add: send_all_def offers_def)
qed (simp add: send_all_def offers_def)

subsection \<open>Who the recipients are\<close>

lemma subs_at_mem:
  assumes "registry_ok r"
  shows "s \<in> set (subs_at r t) \<longleftrightarrow> reg_abs r (clientId s, t) = Some (scope s)"
  using registry_okD(5)[OF assms, of t] unfolding subs_describe_def
  by (metis (full_types) old.unit.exhaust subscriber.surjective)

lemma subs_at_clients:
  "registry_ok r \<Longrightarrow> distinct (map clientId (subs_at r t))"
  using registry_okD(5)[of r t] by (simp add: subs_describe_def)

lemma exact_recipient:
  assumes "registry_ok r"
  shows "c \<in> clientId ` {s \<in> set (subs_at r t). P (clientId s) (scope s)} \<longleftrightarrow>
    (\<exists>s. reg_abs r (c, t) = Some s \<and> P c s)"
proof
  assume "\<exists>s. reg_abs r (c, t) = Some s \<and> P c s"
  then obtain s where "reg_abs r (c, t) = Some s" "P c s" by blast
  then have "\<lparr>clientId = c, scope = s\<rparr> \<in> {s \<in> set (subs_at r t). P (clientId s) (scope s)}"
    by (simp add: subs_at_mem[OF assms])
  then show "c \<in> clientId ` {s \<in> set (subs_at r t). P (clientId s) (scope s)}" by force
qed (auto simp: subs_at_mem[OF assms])

lemma recipients_set:
  assumes r: "registry_ok (m_subscriptions b)"
  shows "set (recipients b t senderId fp) = {c. receives b t senderId fp c}"
proof (rule set_eqI)
  fix c
  let ?r = "m_subscriptions b"
  let ?ok = "(fp \<or> c \<noteq> senderId) \<and> map_of (m_clients b) c \<noteq> None"
  let ?acc = "\<lambda>t. \<exists>s. reg_abs ?r (c, t) = Some s \<and> scopeAccepts s (\<not> fp)"
  have exact: "c \<in> clientId ` {s \<in> set (subs_at ?r t). eligible b senderId fp s} \<longleftrightarrow> ?acc t \<and> ?ok"
    using exact_recipient[OF r, of c t "\<lambda>c s. scopeAccepts s (\<not> fp) \<and> (fp \<or> c \<noteq> senderId) \<and> map_of (m_clients b) c \<noteq> None"]
    by (auto simp: eligible_def conj_commute conj_left_commute)
  have served: "list_ex (\<lambda>e. clientId e = d \<and> scopeAccepts (scope e) (\<not> fp)) (subs_at ?r t) \<longleftrightarrow>
      (\<exists>s. reg_abs ?r (d, t) = Some s \<and> scopeAccepts s (\<not> fp))" for d
    using exact_recipient[OF r, of d t "\<lambda>_ s. scopeAccepts s (\<not> fp)"] by (auto simp: list_ex_iff)
  have wild: "c \<in> clientId ` {s \<in> set (subs_at ?r WILDCARD_TOPIC). eligible b senderId fp s \<and>
        \<not> (\<exists>s'. reg_abs ?r (clientId s, t) = Some s' \<and> scopeAccepts s' (\<not> fp))} \<longleftrightarrow>
      ?acc WILDCARD_TOPIC \<and> ?ok \<and> \<not> ?acc t"
    using exact_recipient[OF r, of c WILDCARD_TOPIC "\<lambda>d s. scopeAccepts s (\<not> fp) \<and> (fp \<or> d \<noteq> senderId) \<and>
        map_of (m_clients b) d \<noteq> None \<and> \<not> (\<exists>s'. reg_abs ?r (d, t) = Some s' \<and> scopeAccepts s' (\<not> fp))"]
    by (auto simp: eligible_def conj_commute conj_left_commute)
  show "c \<in> set (recipients b t senderId fp) \<longleftrightarrow> c \<in> {c. receives b t senderId fp c}"
    using exact wild
    by (cases "t = WILDCARD_TOPIC") (auto simp: recipients_def served receives_def wants_def)
qed

lemma recipients_distinct:
  assumes r: "registry_ok (m_subscriptions b)"
  shows "distinct (recipients b t senderId fp)"
proof -
  have "distinct (map clientId (filter P (subs_at (m_subscriptions b) u)))" for P u
    using subs_at_clients[OF r, of u] by (rule distinct_map_filter)
  then show ?thesis
    by (auto simp: recipients_def list_ex_iff eligible_def)
qed

text \<open>C8. Delivery is equivalent to its reference: the code walks the exact subscribers and then the
  wildcard ones, looking each wildcard subscriber up among the exact ones; the effect is one send to each client
  that is to receive the message, no client twice, whatever the sends do to the drop counters on the way.\<close>

theorem delivery_reference:
  assumes "registry_ok (m_subscriptions b)"
  shows "\<exists>cs. deliverToSubscribers env h hb pl senderId fp b = send_all env hb pl cs b \<and> distinct cs \<and>
    set cs = {c. receives b (topic h) senderId fp c}"
  using deliverToSubscribers_all[OF assms] recipients_distinct[OF assms] recipients_set[OF assms] by blast

section \<open>One message\<close>

lemma fold_notePeerDrop: "fold (\<lambda>_. notePeerDrop) xs b = b\<lparr>m_totalDropped := m_totalDropped b + of_nat (length xs)\<rparr>"
  by (induction xs arbitrary: b) (simp_all add: notePeerDrop_def add_ac)

lemma floodPeers_frame [simp]:
  "b_net (floodPeers hb pl b) = b_net b" "m_subscriptions (floodPeers hb pl b) = m_subscriptions b"
  "m_clients (floodPeers hb pl b) = m_clients b"
  "m_peers (floodPeers hb pl b) = map (\<lambda>(k, p). (k, snd (flood_link (makeWireMessage hb pl) p))) (m_peers b)"
  by (simp_all add: floodPeers_def fold_notePeerDrop Let_def)

lemma tap_frame [simp]:
  "b_net (tap hb pl b) = b_net b @ [Tap hb pl]" "m_subscriptions (tap hb pl b) = m_subscriptions b"
  "m_clients (tap hb pl b) = m_clients b" "m_peers (tap hb pl b) = m_peers b"
  "m_totalDropped (tap hb pl b) = m_totalDropped b" "m_brokerId (tap hb pl b) = m_brokerId b"
  by (simp_all add: tap_def)

lemma touch_client_frame [simp]:
  "b_net (touch_client now c b) = b_net b" "m_subscriptions (touch_client now c b) = m_subscriptions b"
  "m_peers (touch_client now c b) = m_peers b" "m_brokerId (touch_client now c b) = m_brokerId b"
  "dom (map_of (m_clients (touch_client now c b))) = insert c (dom (map_of (m_clients b)))"
  by (auto simp: touch_client_def umap_simps)

lemma receives_cong:
  assumes "m_subscriptions b' = m_subscriptions b" "\<And>c. c \<noteq> senderId \<or> fp \<Longrightarrow>
      (map_of (m_clients b') c \<noteq> None) = (map_of (m_clients b) c \<noteq> None)"
  shows "receives b' t senderId fp c = receives b t senderId fp c"
  using assms(2)[of c] by (auto simp: receives_def wants_def assms(1))

text \<open>The answer to a sender the broker does not know.\<close>

definition greeting :: "broker_env \<Rightarrow> broker \<Rightarrow> string \<Rightarrow> bool \<Rightarrow> net_event list" where
  "greeting env b senderId fp =
     (if \<not> fp \<and> map_of (m_clients b) senderId = None
      then [ToClient senderId (control_frame env RESET b) '''' (env_router env (b_net b) senderId)] else [])"

lemma not_reserved_keys:
  "\<not> isReservedKey k \<Longrightarrow> k \<noteq> DISCONNECT \<and> k \<noteq> CONNECT \<and> k \<noteq> HEARTBEAT \<and> k \<noteq> SUBSCRIBE \<and> k \<noteq> UNSUBSCRIBE \<and>
   k \<noteq> SET_CLUSTER"
  by auto

lemma handle_data:
  "\<not> isReservedKey (handler_key h) \<Longrightarrow>
   handleClientMessage env now h pl c b = (False, greet env now (handler_key h) c b)"
  using not_reserved_keys[of "handler_key h"] by (simp add: handleClientMessage_greet Let_def)

lemma greet_frame:
  assumes "k \<noteq> CONNECT"
  shows "b_net (greet env now k c b) = b_net b @ greeting env b c False"
    "m_subscriptions (greet env now k c b) = m_subscriptions b" "m_peers (greet env now k c b) = m_peers b"
    "m_totalDropped (greet env now k c b) = m_totalDropped b"
    "dom (map_of (m_clients (greet env now k c b))) = insert c (dom (map_of (m_clients b)))"
  using assms by (simp_all add: greet_def greeting_def Let_def control_frame_def touch_client_def umap_simps)

lemma route_data:
  fixes env :: broker_env and pl senderId :: string and now :: time and fp :: bool
  assumes b: "broker_ok b" and data: "\<not> isReservedKey (handler_key h)"
  defines "hb \<equiv> encodeHeader (env_codec env) h"
  defines "b' \<equiv> route_message env now h pl senderId fp b"
  shows "\<exists>cs oks. distinct cs \<and> set cs = {c. receives b (topic h) senderId fp c} \<and> length oks = length cs \<and>
    b_net b' = b_net b @ [Tap hb pl] @ greeting env (tap hb pl b) senderId fp @ offers hb pl cs oks \<and>
    m_peers b' = map (\<lambda>(k, p). (k, snd (flood_link (makeWireMessage hb pl) p))) (m_peers b)"
proof -
  let ?g = "if fp then tap hb pl b else greet env now (handler_key h) senderId (tap hb pl b)"
  let ?cs = "recipients ?g (topic h) senderId fp"
  have k: "handler_key h \<noteq> CONNECT" using data by auto
  note g = greet_frame[OF k, of env now senderId "tap hb pl b"]
  have subs: "m_subscriptions ?g = m_subscriptions b" using g by simp
  have r: "registry_ok (m_subscriptions ?g)" using broker_okD(2)[OF b] subs by simp
  have eq: "b' = floodPeers hb pl (send_all env hb pl ?cs ?g)"
    unfolding deliverToSubscribers_all[OF r, symmetric]
    using data unfolding b'_def route_message_def Let_def hb_def[symmetric] by (cases fp) (simp_all add: handle_data)
  have dom: "(map_of (m_clients ?g) c \<noteq> None) = (map_of (m_clients b) c \<noteq> None)" if "c \<noteq> senderId \<or> fp" for c
    using that g(5) by (auto simp: set_eq_iff domIff)
  have "receives ?g (topic h) senderId fp c = receives b (topic h) senderId fp c" for c
    by (rule receives_cong[OF subs]) (rule dom)
  then have cs: "set ?cs = {c. receives b (topic h) senderId fp c}" "distinct ?cs"
    using recipients_set[OF r] recipients_distinct[OF r] by simp_all
  obtain oks where "length oks = length ?cs"
    "b_net (send_all env hb pl ?cs ?g) = b_net ?g @ offers hb pl ?cs oks"
    using send_all_net by blast
  moreover have "m_peers (send_all env hb pl cs x) = m_peers x" for cs x
    by (induction cs arbitrary: x) (simp_all add: send_all_def)
  ultimately show ?thesis
    using cs g by (intro exI[of _ ?cs] exI[of _ oks]) (simp add: eq greeting_def)
qed

lemma stamp_key [simp]: "handler_key (stamp g i h) = handler_key h" "topic (stamp g i h) = topic h"
  by (simp_all add: stamp_def)

lemma count_message_frame [simp]:
  "b_net (count_message n b) = b_net b" "m_subscriptions (count_message n b) = m_subscriptions b"
  "m_clients (count_message n b) = m_clients b" "m_peers (count_message n b) = m_peers b"
  "m_brokerId (count_message n b) = m_brokerId b" "windows_abs (count_message n b) = windows_abs b"
  by (simp_all add: count_message_def windows_abs_def)

lemma route_message_windows:
  "windows_abs (route_message env now h pl s fp b) = windows_abs b" if "\<not> isReservedKey (handler_key h)"
proof -
  have f: "windows_abs (floodPeers hb pl x) = windows_abs x" for hb pl x
    by (simp add: floodPeers_def fold_notePeerDrop Let_def windows_abs_def)
  have s1: "windows_abs (send_once env hb pl c x) = windows_abs x" for hb pl c x
    by (simp add: send_once_def sendTo_def noteDroppedTo_def windows_abs_def Let_def split: option.splits)
  have d: "windows_abs (deliver env hb pl s fp y x) = windows_abs x" for hb pl y x
    by (simp add: deliver_once s1)
  have fold: "windows_abs (fold F ys x) = windows_abs x" if "\<And>y x. windows_abs (F y x) = windows_abs x"
    for F :: "subscriber \<Rightarrow> broker \<Rightarrow> broker" and ys x
    using that by (induction ys arbitrary: x) simp_all
  have "windows_abs (deliverToSubscribers env h hb pl s fp x) = windows_abs x" for hb x
    by (auto simp: deliverToSubscribers_def Let_def d fold split: option.splits)
  moreover have "windows_abs (greet env now k c (tap hb pl b)) = windows_abs b" for k c hb
    by (simp add: greet_def sendTo_def touch_client_def tap_def windows_abs_def Let_def)
  moreover have "windows_abs (tap hb pl b) = windows_abs b" for hb
    by (simp add: tap_def windows_abs_def)
  ultimately show ?thesis
    using that by (simp add: route_message_def Let_def split_def handle_data f)
qed

section \<open>Publishing\<close>

lemma greeting_cong:
  "m_clients b' = m_clients b \<Longrightarrow> m_brokerId b' = m_brokerId b \<Longrightarrow> b_net b' = b_net b \<Longrightarrow>
   greeting env b' c fp = greeting env b c fp"
  by (simp add: greeting_def control_frame_def)

lemma see_fresh: "i \<notin> fst w \<union> snd w \<Longrightarrow> \<not> fst (see w i)"
  by (simp add: see_def)

lemma see_again: "i \<in> fst (snd (see w i)) \<union> snd (snd (see w i))"
  by (auto simp: see_def)

text \<open>The broker a message is routed from: counted if it came from a peer, its id remembered.\<close>

lemma processMessage_data:
  fixes env :: broker_env and inp :: tick and h0 :: message_header
  assumes b: "broker_ok b" and data: "\<not> isReservedKey (handler_key h0)"
  defines "h \<equiv> stamp (snd inp) (m_brokerId b) h0"
  shows "\<exists>b1. broker_ok b1 \<and> m_subscriptions b1 = m_subscriptions b \<and> m_clients b1 = m_clients b \<and>
    m_peers b1 = m_peers b \<and> m_brokerId b1 = m_brokerId b \<and> b_net b1 = b_net b \<and>
    windows_abs b1 = snd (see (windows_abs b) (dedup_id (message_uuid h))) \<and>
    processMessage env inp h0 pl senderId fp b =
      Some (if fst (see (windows_abs b) (dedup_id (message_uuid h))) then b1
            else route_message env (fst inp) h pl senderId fp b1)"
proof -
  define c where "c = (if fp then count_message (length (encodeHeader (env_codec env) h) + length pl) b else b)"
  have inv: "broker_inv (\<lambda>_. None) c"
    using b broker_inv_count[of "\<lambda>_. None" b] by (simp add: c_def broker_inv_untracked)
  have frame: "m_subscriptions c = m_subscriptions b" "m_clients c = m_clients b" "m_peers c = m_peers b"
    "m_brokerId c = m_brokerId b" "b_net c = b_net b" "windows_abs c = windows_abs b"
    by (simp_all add: c_def)
  have run: "processMessage env inp h0 pl senderId fp b =
      (case isDuplicate c (message_uuid h) of None \<Rightarrow> None | Some (True, b2) \<Rightarrow> Some b2
       | Some (False, b2) \<Rightarrow> Some (route_message env (fst inp) h pl senderId fp b2))"
  proof -
    have "handler_key h = handler_key h0" by (simp add: h_def)
    then show ?thesis
      unfolding processMessage_def Let_def h_def[symmetric] c_def[symmetric] using data by simp
  qed
  obtain b1 where b1: "isDuplicate c (message_uuid h) = Some (fst (see (windows_abs c) (dedup_id (message_uuid h))), b1)"
    "windows_abs b1 = snd (see (windows_abs c) (dedup_id (message_uuid h)))"
    "seen_windows.more b1 = seen_windows.more c"
    by (rule isDuplicate_refines[OF broker_okD(1)[OF broker_invD(1)[OF inv]], of "message_uuid h"])
  have "broker_ok b1" using broker_inv_isDuplicate[OF inv, of "message_uuid h"] b1(1) by (auto dest: broker_invD)
  then show ?thesis
    using b1 seen_windows_more[OF b1(3)]
    by (intro exI[of _ b1]) (simp add: run frame split: bool.splits)
qed


text \<open>C6. Once a message with an application key has been processed, any message with the same id
  processed next is dropped: nothing more is sent to clients or the tap, nothing is queued on a link, and
  sessions and subscriptions are as before.\<close>

theorem echo_dropped:
  assumes b: "broker_ok b" and data: "\<not> isReservedKey (handler_key h)" "\<not> isReservedKey (handler_key h')"
    and first: "processMessage env inp h pl senderId fp b = Some b1"
    and same: "message_uuid h' = message_uuid (stamp (snd inp) (m_brokerId b) h)" "message_uuid h' \<noteq> []"
  shows "\<exists>b2. processMessage env inp' h' pl' senderId' fp' b1 = Some b2 \<and> b_net b2 = b_net b1 \<and>
    m_peers b2 = m_peers b1 \<and> m_clients b2 = m_clients b1 \<and> m_subscriptions b2 = m_subscriptions b1"
proof -
  let ?h = "stamp (snd inp) (m_brokerId b) h"
  let ?i = "dedup_id (message_uuid ?h)"
  obtain b0 where b0: "windows_abs b0 = snd (see (windows_abs b) ?i)"
    "b1 = (if fst (see (windows_abs b) ?i) then b0 else route_message env (fst inp) ?h pl senderId fp b0)"
    using processMessage_data[OF b data(1), where env = env and inp = inp and pl = pl and senderId = senderId and fp = fp] first by auto
  then have "windows_abs b1 = snd (see (windows_abs b) ?i)"
    using data(1) by (simp add: route_message_windows)
  then have seen: "?i \<in> fst (windows_abs b1) \<union> snd (windows_abs b1)" using see_again by simp
  have h': "stamp (snd inp') (m_brokerId b1) h' = h'" using same(2) by (simp add: stamp_def)
  have "broker_inv (\<lambda>_. None) b" using b by (simp add: broker_inv_untracked)
  then have "broker_ok b1" using broker_inv_processMessage[of _ b env inp h pl senderId fp] first by (auto dest: broker_invD)
  from processMessage_data[OF this data(2), where env = env and inp = inp' and pl = pl' and senderId = senderId' and fp = fp'] show ?thesis
    using seen same(1) unfolding h' by (auto simp: see_def)
qed

section \<open>Control traffic\<close>

text \<open>The broker's own answers: a control header under its id and no payload.\<close>

definition control_event :: "broker_env \<Rightarrow> string \<Rightarrow> net_event \<Rightarrow> bool" where
  "control_event env i ev \<longleftrightarrow>
     (case ev of
        Tap _ _ \<Rightarrow> False
      | ToClient c hb pl ok \<Rightarrow>
          pl = '''' \<and> hb \<in> (\<lambda>k. encodeHeader (env_codec env) (makeControlHeader k i '''')) ` {RESET, HEARTBEAT_ACK, UNLINK})"

text \<open>What is queued for forwarding on each link.\<close>

definition forwards :: "broker \<Rightarrow> (string \<times> wire_message safe_queue) set" where
  "forwards b = (\<lambda>(k, p). (k, m_encodedQueue (pl_worker p))) ` set (m_peers b)"

definition quiet :: "broker_env \<Rightarrow> broker \<Rightarrow> broker \<Rightarrow> bool" where
  "quiet env b b' \<longleftrightarrow>
     m_brokerId b' = m_brokerId b \<and> forwards b' \<subseteq> forwards b \<and>
     (\<exists>evs. b_net b' = b_net b @ evs \<and> list_all (control_event env (m_brokerId b)) evs)"

lemma quietI:
  "m_brokerId b' = m_brokerId b \<Longrightarrow> b_net b' = b_net b \<Longrightarrow> forwards b' \<subseteq> forwards b \<Longrightarrow> quiet env b b'"
  by (simp add: quiet_def)

lemma quiet_refl [simp]: "quiet env b b"
  by (simp add: quietI)

lemma quiet_trans: "quiet env b b' \<Longrightarrow> quiet env b' b'' \<Longrightarrow> quiet env b b''"
  unfolding quiet_def by (elim conjE exE) (auto simp: list_all_append)

lemma quiet_fold: "(\<And>x b. quiet env b (f x b)) \<Longrightarrow> quiet env b (fold f xs b)"
  by (induction xs arbitrary: b) (auto intro: quiet_trans)

lemma quiet_sendTo:
  assumes "k \<in> {RESET, HEARTBEAT_ACK, UNLINK}" "i = m_brokerId b"
  shows "quiet env b (snd (sendTo env c (encodeHeader (env_codec env) (makeControlHeader k i '''')) '''' b))"
  using assms by (auto simp: quiet_def forwards_def control_event_def)

lemma forwards_map_links:
  "(\<And>p. m_encodedQueue (pl_worker (f p)) = m_encodedQueue (pl_worker p)) \<Longrightarrow> forwards (map_links f b) = forwards b"
  by (auto simp: forwards_def image_image split_def)

lemma link_control_encoded [simp]:
  "m_encodedQueue (pl_worker (link_control k t p)) = m_encodedQueue (pl_worker p)"
  by (simp add: link_control_def writeControlMessage_def split_def Let_def)

lemma fold_link_control_encoded [simp]:
  "m_encodedQueue (pl_worker (fold (link_control k) ts p)) = m_encodedQueue (pl_worker p)"
  by (induction ts arbitrary: p) simp_all

lemma quiet_note: "quiet env b (noteMeshInterestChange t w b)"
proof (rule quietI)
  have "forwards (noteTopicSubscribed t b) = forwards b"
    by (cases t b rule: noteTopicSubscribed_cases) (simp_all add: forwards_map_links, simp_all add: forwards_def)
  moreover have "forwards (noteTopicUnsubscribed t b) = forwards b"
    by (cases t b rule: noteTopicUnsubscribed_cases) (simp_all add: forwards_map_links, simp_all add: forwards_def)
  ultimately show "forwards (noteMeshInterestChange t w b) \<subseteq> forwards b"
    by (simp add: noteMeshInterestChange_def Let_def)
qed simp_all

lemma quiet_frame:
  "m_brokerId b' = m_brokerId b \<Longrightarrow> b_net b' = b_net b \<Longrightarrow> m_peers b' = m_peers b \<Longrightarrow> quiet env b b'"
  by (rule quietI) (simp_all add: forwards_def)

lemma quiet_removeClient: "quiet env b (removeClient c b)"
  unfolding removeClient_def Let_def by (rule quiet_trans[OF quiet_frame quiet_fold[OF quiet_note]]) simp_all

lemma quiet_removePeer: "quiet env b (snd (removePeer k b))"
  by (rule quietI) (auto simp: removePeer_def Let_def forwards_def AList.delete_eq split: option.splits)

lemma quiet_drops: "list_all (\<lambda>e. \<exists>u. e = Drop u) es \<Longrightarrow> quiet env b (apply_discovery opens es b)"
proof (induction opens es b rule: apply_discovery.induct)
  case (3 opens u es b)
  then show ?case using quiet_removePeer by (auto intro: quiet_trans)
qed simp_all

lemma quiet_unlink: "quiet env b (unlinkInboundPeers env b)"
proof -
  have "quiet env b (fold (\<lambda>c b'. removeClient c (snd (sendTo env c (control_frame env UNLINK b0) '''' b'))) cs b)"
    if "m_brokerId b0 = m_brokerId b" for cs b0
    using that
  proof (induction cs arbitrary: b)
    case (Cons c cs)
    have "quiet env b (snd (sendTo env c (control_frame env UNLINK b0) '''' b))"
      unfolding control_frame_def using Cons.prems by (intro quiet_sendTo) simp_all
    then have "quiet env b (removeClient c (snd (sendTo env c (control_frame env UNLINK b0) '''' b)))"
      by (rule quiet_trans[OF _ quiet_removeClient])
    from quiet_trans[OF this Cons.IH] Cons.prems show ?case by simp
  qed simp
  then show ?thesis by (simp add: unlinkInboundPeers_def)
qed

lemma quiet_set_cluster: "quiet env b (handle_set_cluster env pl b)"
proof -
  have u: "quiet env b (unlinkInboundPeers env (b\<lparr>m_clusterName := pl\<rparr>))"
    by (rule quiet_trans[OF quiet_frame quiet_unlink]) simp_all
  have "quiet env b (apply_discovery (\<lambda>_. True) es ((unlinkInboundPeers env (b\<lparr>m_clusterName := pl\<rparr>))\<lparr>m_discovery := d\<rparr>))"
    if "list_all (\<lambda>e. \<exists>u. e = Drop u) es" for es d
    by (rule quiet_trans[OF quiet_trans[OF u quiet_frame] quiet_drops[OF that]]) simp_all
  then show ?thesis
    by (simp add: handle_set_cluster_def split_def Let_def disc_setCluster_def list_all_iff split: option.splits)
qed

lemma quiet_subscribe: "quiet env b (handle_subscribe h pl c b)"
  by (auto simp: handle_subscribe_def split_def Let_def noteRejectedSubscription_def
      intro!: quiet_frame quiet_trans[OF quiet_frame quiet_note])

lemma quiet_unsubscribe: "quiet env b (handle_unsubscribe h c b)"
  by (auto simp: handle_unsubscribe_def split_def Let_def intro!: quiet_frame quiet_trans[OF quiet_frame quiet_note])

lemma quiet_greet: "quiet env b (greet env now k c b)"
proof -
  have t: "quiet env b (touch_client now c b)" by (rule quiet_frame) simp_all
  have "quiet env b (snd (sendTo env c (control_frame env RESET (touch_client now c b)) '''' (touch_client now c b)))"
    unfolding control_frame_def by (rule quiet_trans[OF t quiet_sendTo]) simp_all
  then show ?thesis using t by (simp add: greet_def Let_def)
qed

lemma quiet_handle: "quiet env b (snd (handleClientMessage env now h pl c b))"
proof -
  define g where "g = greet env now (handler_key h) c b"
  have g: "quiet env b g" by (simp add: g_def quiet_greet)
  have "quiet env b (snd (sendTo env c (control_frame env HEARTBEAT_ACK g) '''' g))"
    unfolding control_frame_def by (rule quiet_trans[OF g quiet_sendTo]) simp_all
  then show ?thesis
    unfolding handleClientMessage_greet Let_def g_def[symmetric]
    using g quiet_trans[OF g quiet_subscribe] quiet_trans[OF g quiet_unsubscribe] quiet_trans[OF g quiet_set_cluster]
    by (simp add: quiet_removeClient)
qed

text \<open>C9. A message with a reserved key, known or not, from a client or a peer, is shown
  to the tap and never reaches a subscriber or a link: everything else sent is a control answer of this
  broker without payload, and nothing is queued for forwarding.\<close>

theorem reserved_never_routed:
  assumes "isReservedKey (handler_key h)"
    and "hb = encodeHeader (env_codec env) (stamp (snd inp) (m_brokerId b) h)"
  shows "\<exists>b' evs. processMessage env inp h pl senderId fp b = Some b' \<and>
    b_net b' = b_net b @ [Tap hb pl] @ evs \<and> list_all (control_event env (m_brokerId b)) evs \<and>
    forwards b' \<subseteq> forwards b"
proof -
  define c where "c = (if fp then count_message (length hb + length pl) b else b)"
  have c: "m_brokerId c = m_brokerId b" "b_net c = b_net b" "forwards c = forwards b"
    by (simp_all add: c_def forwards_def)
  let ?r = "route_message env (fst inp) (stamp (snd inp) (m_brokerId b) h) pl senderId fp c"
  have "quiet env (tap hb pl c) ?r"
    using assms quiet_handle[of env "tap hb pl c" "fst inp" "stamp (snd inp) (m_brokerId b) h" pl senderId]
    by (simp add: route_message_def Let_def split_def)
  moreover have "forwards (tap hb pl c) = forwards b" using c(3) by (simp add: forwards_def)
  ultimately obtain evs where "b_net ?r = b_net b @ [Tap hb pl] @ evs"
    "list_all (control_event env (m_brokerId b)) evs" "forwards ?r \<subseteq> forwards b"
    using c by (auto simp: quiet_def)
  moreover have "processMessage env inp h pl senderId fp b = Some ?r"
    using assms by (simp add: processMessage_def Let_def c_def)
  ultimately show ?thesis by blast
qed

section \<open>Which side a message is from\<close>

text \<open>Every group read from the ROUTER socket is routed as local traffic, also
  when its sender is the link of another broker that dialed this one: a client whose subscriptions all
  ask for mesh traffic alone is sent nothing of it but control answers.\<close>

lemma inbound_link_is_local:
  assumes b: "broker_ok b" and c: "c \<noteq> senderId"
    and mesh_only: "\<And>t s. reg_abs (m_subscriptions b) (c, t) = Some s \<Longrightarrow> \<not> scopeAccepts s True"
    and data: "\<not> isReservedKey (handler_key h)"
    and run: "processMessage env inp h pl senderId False b = Some b'"
  shows "\<exists>evs. b_net b' = b_net b @ evs \<and> (\<forall>hb pl' ok. ToClient c hb pl' ok \<notin> set evs)"
proof -
  let ?h = "stamp (snd inp) (m_brokerId b) h"
  let ?i = "dedup_id (message_uuid ?h)"
  obtain b1 where b1: "broker_ok b1" "m_subscriptions b1 = m_subscriptions b" "b_net b1 = b_net b"
    "b' = (if fst (see (windows_abs b) ?i) then b1 else route_message env (fst inp) ?h pl senderId False b1)"
    using processMessage_data[OF b data, where env = env and inp = inp and pl = pl and senderId = senderId and fp = False]
      run by auto
  show ?thesis
  proof (cases "fst (see (windows_abs b) ?i)")
    case True
    then show ?thesis using b1 by simp
  next
    case False
    have "\<not> receives b1 (topic h) senderId False c"
      using mesh_only by (auto simp: receives_def wants_def b1(2))
    then show ?thesis
      using route_data[OF b1(1), where h = ?h and env = env and now = "fst inp" and pl = pl and senderId = senderId and fp = False]
        data False b1(3,4) c
      by (auto simp: greeting_def dest!: offers_mem)
  qed
qed

section \<open>Sessions\<close>

text \<open>C19. A HEARTBEAT is answered with one acknowledgement, after a RESET if the session was
  unknown; CONNECT registers a session silently; DISCONNECT forgets the client, its subscriptions and
  nothing else; after any other message the sender has a session that was last seen now.\<close>

theorem session_handshake:
  assumes b: "broker_ok b" and result: "handleClientMessage env now h pl c b = (handled, b')"
  shows "(handler_key h = HEARTBEAT \<longrightarrow> handled \<and>
      (\<exists>ok. b_net b' = b_net b @ greeting env b c False @ [ToClient c (control_frame env HEARTBEAT_ACK b) '''' ok])) \<and>
    (handler_key h = CONNECT \<longrightarrow> handled \<and> b_net b' = b_net b) \<and>
    (handler_key h = DISCONNECT \<longrightarrow> handled \<and> b_net b' = b_net b \<and>
      map_of (m_clients b') = (map_of (m_clients b))(c := None) \<and>
      reg_abs (m_subscriptions b') = (\<lambda>(d, t). if d = c then None else reg_abs (m_subscriptions b) (d, t))) \<and>
    (handler_key h \<notin> {DISCONNECT, SET_CLUSTER} \<longrightarrow> map_option lastSeen (map_of (m_clients b') c) = Some now)"
proof -

  have seen: "map_option lastSeen (map_of (m_clients (greet env now k c b)) c) = Some now" for k
    by (auto simp: greet_def touch_client_def umap_simps Let_def split: option.splits)
  have keep: "m_clients (handle_subscribe h pl c x) = m_clients x" "m_clients (handle_unsubscribe h c x) = m_clients x" for x
    by (simp_all add: handle_subscribe_def handle_unsubscribe_def split_def Let_def noteRejectedSubscription_def)
  have id: "m_brokerId (greet env now k c b) = m_brokerId b" for k
    by (simp add: greet_def Let_def)
  have "handler_key h = HEARTBEAT \<longrightarrow> handled \<and>
      (\<exists>ok. b_net b' = b_net b @ greeting env b c False @ [ToClient c (control_frame env HEARTBEAT_ACK b) '''' ok])"
    using result greet_frame(1)[of HEARTBEAT env now c b] id by (auto simp: handleClientMessage_greet control_frame_def)
  moreover have "handler_key h = CONNECT \<longrightarrow> handled \<and> b_net b' = b_net b"
    using result by (auto simp: handleClientMessage_greet greet_def Let_def)
  moreover have "handler_key h = DISCONNECT \<longrightarrow> handled \<and> b_net b' = b_net b \<and>
      map_of (m_clients b') = (map_of (m_clients b))(c := None) \<and>
      reg_abs (m_subscriptions b') = (\<lambda>(d, t). if d = c then None else reg_abs (m_subscriptions b) (d, t))"
    using result broker_okD(2)[OF b] by (auto simp: handleClientMessage_greet umap_simps reg.drop_held)
  moreover have "handler_key h \<notin> {DISCONNECT, SET_CLUSTER} \<longrightarrow> map_option lastSeen (map_of (m_clients b') c) = Some now"
    using result seen[of "handler_key h"] keep
    by (auto simp: handleClientMessage_greet Let_def split: if_splits)
  ultimately show ?thesis by blast
qed

section \<open>The sweep\<close>

definition expired :: "time \<Rightarrow> broker \<Rightarrow> string \<times> client_state \<Rightarrow> bool" where
  "expired now b e \<longleftrightarrow> m_clientTimeout b < now - lastSeen (snd e)"

lemma sweep_clients_spec:
  "m_clients (sweep_clients now n cs b) =
     fold (\<lambda>e. AList.delete (fst e)) (take (MaxRemovalsPerSweep - n) (filter (expired now b) cs)) (m_clients b)"
proof (induction now n cs b rule: sweep_clients.induct)
  case (2 now n c st cs b)
  have "expired now (removeClient c b) = expired now b" by (simp add: expired_def fun_eq_iff)
  then show ?case using 2 by (auto simp: expired_def take_Cons')
qed simp

lemma fold_delete: "fold (\<lambda>e. AList.delete (fst e)) xs m = filter (\<lambda>e. fst e \<notin> fst ` set xs) m"
  by (induction xs arbitrary: m) (auto simp: AList.delete_eq intro!: filter_cong)

text \<open>C21. A sweep that is due removes exactly the first sixteen of the clients silent for longer
  than the timeout and keeps every other session as it was; one that is not due removes nobody.\<close>

theorem sweep_bounded:
  assumes "broker_ok b"
  shows "m_clients (cleanup now b) =
    (if m_cleanupInterval b < now - b_lastCleanup b
     then filter (\<lambda>e. e \<notin> set (take 16 (filter (expired now b) (m_clients b)))) (m_clients b) else m_clients b)"
proof -
  have d: "distinct (map fst (m_clients b))" using broker_okD(3)[OF assms] by (simp add: umap_ok_def)
  let ?gone = "take 16 (filter (expired now b) (m_clients b))"
  have sub: "set ?gone \<subseteq> set (m_clients b)" by (auto dest: in_set_takeD)
  have "fst e \<in> fst ` set ?gone \<longleftrightarrow> e \<in> set ?gone" if "e \<in> set (m_clients b)" for e
    using d that sub by (auto simp: distinct_map inj_on_def subset_iff)
  then have "filter (\<lambda>e. fst e \<notin> fst ` set ?gone) (m_clients b) = filter (\<lambda>e. e \<notin> set ?gone) (m_clients b)"
    by (intro filter_cong) auto
  then show ?thesis
    by (simp add: cleanup_def sweep_clients_spec fold_delete MaxRemovalsPerSweep_def)
qed

section \<open>Leaving a cluster\<close>

lemma unlink_clients:
  "m_clients (unlinkInboundPeers env b) = filter (\<lambda>e. \<not> is_inbound_link (fst e)) (m_clients b)"
proof -
  have "m_clients (fold (\<lambda>c b'. removeClient c (snd (sendTo env c f '''' b'))) cs b) =
      fold AList.delete cs (m_clients b)" for cs f
    by (induction cs arbitrary: b) simp_all
  moreover have "fold AList.delete cs m = filter (\<lambda>e. fst e \<notin> set cs) m" for cs and m :: "(string, client_state) umap"
    by (induction cs arbitrary: m) (auto simp: AList.delete_eq intro!: filter_cong)
  ultimately show ?thesis
    unfolding unlinkInboundPeers_def by (auto intro!: filter_cong)
qed

lemma apply_drops_peers:
  "map_of (m_peers (apply_discovery opens (map (\<lambda>e. Drop (fst e)) ds) b)) u =
     (if u \<in> fst ` set ds then None else map_of (m_peers b) u)"
proof (induction ds arbitrary: b)
  case (Cons e ds)
  have "map_of (m_peers (snd (removePeer k b))) = (map_of (m_peers b))(k := None)" for k
    by (auto simp: removePeer_def Let_def umap_simps split: option.splits)
  then show ?case using Cons by auto
qed simp

lemma apply_drops_clients [simp]:
  "m_clients (apply_discovery opens (map (\<lambda>e. Drop (fst e)) ds) b) = m_clients b"
  "m_clusterName (apply_discovery opens (map (\<lambda>e. Drop (fst e)) ds) b) = m_clusterName b"
  by (induction ds arbitrary: b) (simp_all add: removePeer_def Let_def split: option.splits)

lemma unlink_frame [simp]:
  "m_clusterName (unlinkInboundPeers env b) = m_clusterName b" "m_discovery (unlinkInboundPeers env b) = m_discovery b"
proof -
  have "m_clusterName (fold (\<lambda>c b'. removeClient c (snd (sendTo env c f '''' b'))) cs b) = m_clusterName b \<and>
      m_discovery (fold (\<lambda>c b'. removeClient c (snd (sendTo env c f '''' b'))) cs b) = m_discovery b" for cs f
    by (induction cs arbitrary: b) (simp_all add: sendTo_def Let_def)
  then show "m_clusterName (unlinkInboundPeers env b) = m_clusterName b" "m_discovery (unlinkInboundPeers env b) = m_discovery b"
    by (simp_all add: unlinkInboundPeers_def)
qed

lemma removeClient_peer_keys: "map fst (m_peers (removeClient c b)) = map fst (m_peers b)"
proof -
  have note_keys: "map fst (m_peers (noteMeshInterestChange t w y)) = map fst (m_peers y)" for t w y
    by (simp add: noteMeshInterestChange_def noteTopicSubscribed_def noteTopicUnsubscribed_def Let_def comp_def split_def)
  have "map fst (m_peers (fold (\<lambda>t. noteMeshInterestChange t w) ts y)) = map fst (m_peers y)" for ts w y
    by (induction ts arbitrary: y) (simp_all add: note_keys)
  then show ?thesis by (simp add: removeClient_def Let_def)
qed

lemma unlink_peer_keys: "map fst (m_peers (unlinkInboundPeers env b)) = map fst (m_peers b)"
proof -
  have "map fst (m_peers (fold (\<lambda>c b'. removeClient c (snd (sendTo env c f '''' b'))) cs b)) = map fst (m_peers b)" for cs f
    by (induction cs arbitrary: b) (simp_all add: removeClient_peer_keys)
  then show ?thesis by (simp add: unlinkInboundPeers_def)
qed

lemma peerLinkId_inbound: "is_inbound_link (peerLinkId i k)"
  by (simp add: is_inbound_link_def peerLinkId_def)

text \<open>C20. When a client moves a broker to another cluster, every session of an inbound peer link,
  recognised by the identity every dialing broker derives for its links, is forgotten while all other
  sessions stay, and every link discovery had dialed is dropped while links added by hand stay.\<close>

theorem cluster_swap:
  assumes "broker_ok b" and "isValidClusterName name" and "name \<noteq> m_clusterName b"
    and "m_discovery b = Some d" and "name \<noteq> m_cluster d" and "b' = handle_set_cluster env name b"
  shows "m_clusterName b' = name \<and>
    m_clients b' = filter (\<lambda>e. \<not> is_inbound_link (fst e)) (m_clients b) \<and>
    map_of (m_clients b') (peerLinkId i k) = None \<and>
    (\<forall>u. map_of (m_peers b') u = None \<longleftrightarrow> map_of (m_peers b) u = None \<or> u \<in> dialed_set d)"
proof -

  have "(map_of (m_peers (unlinkInboundPeers env (b\<lparr>m_clusterName := name\<rparr>))) u = None) = (map_of (m_peers b) u = None)" for u
    unfolding map_of_eq_None_iff_keys unlink_peer_keys by simp
  then have "map_of (m_peers b') u = None \<longleftrightarrow> map_of (m_peers b) u = None \<or> u \<in> dialed_set d" for u
    using assms by (simp add: handle_set_cluster_def disc_setCluster_def apply_drops_peers dialed_set_def
        dom_map_of_conv_image_fst)
  moreover have c: "m_clients b' = filter (\<lambda>e. \<not> is_inbound_link (fst e)) (m_clients b)"
    using assms by (simp add: handle_set_cluster_def disc_setCluster_def unlink_clients)
  moreover have "map_of (m_clients b') (peerLinkId i k) = None"
    unfolding c using peerLinkId_inbound by (auto simp: map_of_eq_None_iff)
  moreover have "m_clusterName b' = name"
    using assms by (simp add: handle_set_cluster_def disc_setCluster_def)
  ultimately show ?thesis by blast
qed

section \<open>Subscriptions taken and given up\<close>

lemma handle_subscribe_held:
  assumes "registry_ok (m_subscriptions b)" "topic h \<noteq> []" "length (topic h) \<le> MAX_TOPIC_LENGTH_BYTES"
    and "canSubscribe b c (topic h)"
  shows "reg_abs (m_subscriptions (handle_subscribe h pl c b)) =
    (reg_abs (m_subscriptions b))((c, topic h) \<mapsto> decodeSubscribeScope pl)"
  using assms reg.sub_held[OF assms(1), of c "topic h" "decodeSubscribeScope pl"]
  by (simp add: handle_subscribe_def split_def Let_def)

lemma handle_unsubscribe_held:
  assumes "registry_ok (m_subscriptions b)"
  shows "reg_abs (m_subscriptions (handle_unsubscribe h c b)) = (reg_abs (m_subscriptions b))((c, topic h) := None)"
  using reg.unsub_held[OF assms, of c "topic h"] by (simp add: handle_unsubscribe_def split_def Let_def)

lemma handle_subscribe_frame [simp]:
  "m_clients (handle_subscribe h pl c b) = m_clients b" "m_brokerId (handle_subscribe h pl c b) = m_brokerId b"
  "b_net (handle_subscribe h pl c b) = b_net b"
  "m_seenCurrent (handle_subscribe h pl c b) = m_seenCurrent b"
  "m_seenPrevious (handle_subscribe h pl c b) = m_seenPrevious b"
  "m_clientTimeout (handle_subscribe h pl c b) = m_clientTimeout b"
  by (simp_all add: handle_subscribe_def split_def Let_def noteRejectedSubscription_def)

section \<open>Witnesses\<close>

text \<open>A broker with one client that holds one topic with a given scope.\<close>

definition demo_env :: broker_env where
  "demo_env = \<lparr>env_codec = marked_codec, env_pack = (\<lambda>_. ''''), env_router = (\<lambda>_ _. True)\<rparr>"

definition demo_broker :: "string \<Rightarrow> broker" where
  "demo_broker scp = handle_subscribe (makeControlHeader SUBSCRIBE ''sub'' ''t'') scp ''sub''
     (touch_client 0 ''sub'' (new_broker 10000 ''b1''))"

definition demo_message :: message_header where
  "demo_message = empty_header\<lparr>handler_key := ''k'', topic := ''t'', message_uuid := ''0123456789abcdef''\<rparr>"

lemma demo_broker_ok: "broker_ok (demo_broker scp)"
  unfolding demo_broker_def
  by (rule broker_invD(1), rule broker_inv_subscribe[OF broker_inv_touch[OF broker_inv_new]]) (rule touch_client_present)

lemma demo_broker_clients: "m_clients (demo_broker scp) = [(''sub'', \<lparr>lastSeen = 0, droppedMessages = 0\<rparr>)]"
  by (simp add: demo_broker_def touch_client_def new_broker_def)

lemma demo_broker_held:
  "reg_abs (m_subscriptions (demo_broker scp)) = [(''sub'', ''t'') \<mapsto> decodeSubscribeScope scp]"
proof -
  have "m_subscriptions (touch_client 0 ''sub'' (new_broker 10000 ''b1'')) = empty_registry"
    by (simp add: new_broker_def)
  moreover have "reg_abs empty_registry = Map.empty" by (rule ext) simp
  ultimately show ?thesis
    unfolding demo_broker_def
    by (subst handle_subscribe_held)
      (simp_all add: makeControlHeader_def empty_header_def MAX_TOPIC_LENGTH_BYTES_def canSubscribe_def subscriptionsOf_def
        empty_registry_def[THEN arg_cong[where f = m_clientTopics]])
qed

lemma demo_broker_id: "m_brokerId (demo_broker scp) = ''b1''"
  by (simp add: demo_broker_def touch_client_def new_broker_def)

lemma demo_broker_times:
  "m_clientTimeout (demo_broker scp) = 10000000000" "m_cleanupInterval (demo_broker scp) = 2000000000"
  "b_lastCleanup (demo_broker scp) = 0"
  by (simp_all add: demo_broker_def touch_client_def new_broker_def handle_subscribe_def noteRejectedSubscription_def
      noteMeshInterestChange_def noteTopicSubscribed_def noteTopicUnsubscribed_def map_links_def split_def Let_def)

lemma demo_broker_windows: "windows_abs (demo_broker scp) = ({}, {})"
  using windows_ok_fresh(2)
  by (simp add: windows_abs_def demo_broker_def touch_client_def new_broker_def fresh_windows_def)

lemma demo_message_stamp [simp]: "stamp g i demo_message = demo_message" "\<not> isReservedKey (handler_key demo_message)"
  by (simp_all add: stamp_def demo_message_def isReservedKey_def)

lemma demo_receives: "receives (demo_broker '''') ''t'' ''pub'' False ''sub''"
  by (simp add: receives_def wants_def demo_broker_held demo_broker_clients decodeSubscribeScope_def scopeAccepts_def
      origin_defs)


theorem delivery_reference_witness:
  "\<exists>cs. deliverToSubscribers demo_env demo_message ''h'' ''x'' ''pub'' False (demo_broker '''') =
       send_all demo_env ''h'' ''x'' cs (demo_broker '''') \<and> distinct cs \<and> ''sub'' \<in> set cs"
  using delivery_reference[OF broker_okD(2)[OF demo_broker_ok], of demo_env demo_message "''h''" "''x''" "''pub''" False]
    demo_receives
  by (auto simp: demo_message_def[THEN arg_cong[where f = topic]])

theorem echo_dropped_witness:
  "\<exists>b1 b2. processMessage demo_env (5, 1, 2) demo_message ''x'' ''pub'' False (demo_broker '''') = Some b1 \<and>
     processMessage demo_env (6, 3, 4) demo_message ''x'' ''PEER'' True b1 = Some b2 \<and> b_net b2 = b_net b1 \<and>
     m_peers b2 = m_peers b1"
proof -
  obtain b1 where b1: "processMessage demo_env (5, 1, 2) demo_message ''x'' ''pub'' False (demo_broker '''') = Some b1"
    using broker_inv_processMessage broker_inv_untracked demo_broker_ok by blast
  have "message_uuid demo_message \<noteq> []" by (simp add: demo_message_def)
  then show ?thesis
    using echo_dropped[OF demo_broker_ok _ _ b1, of demo_message "(6, 3, 4)" "''x''" "''PEER''" True] b1 by auto
qed

theorem reserved_never_routed_witness:
  "\<exists>b' evs. processMessage demo_env (5, 1, 2) (makeControlHeader HEARTBEAT ''c'' '''') '''' ''c'' False (demo_broker '''') = Some b' \<and>
     list_all (control_event demo_env ''b1'') evs \<and> forwards b' \<subseteq> forwards (demo_broker '''')"
  using reserved_never_routed[where h = "makeControlHeader HEARTBEAT ''c'' ''''" and env = demo_env and inp = "(5, 1, 2)"
      and b = "demo_broker ''''" and pl = "''''" and senderId = "''c''" and fp = False]
  by (auto simp: makeControlHeader_def demo_broker_id)

theorem session_handshake_witness:
  "\<exists>b' ok. handleClientMessage demo_env 7 (makeControlHeader HEARTBEAT ''sub'' '''') '''' ''sub'' (demo_broker '''') = (True, b') \<and>
     b_net b' = b_net (demo_broker '''') @ [ToClient ''sub'' (control_frame demo_env HEARTBEAT_ACK (demo_broker '''')) '''' ok]"
proof -
  obtain handled b' where r: "handleClientMessage demo_env 7 (makeControlHeader HEARTBEAT ''sub'' '''') '''' ''sub'' (demo_broker '''') = (handled, b')"
    by (rule prod.exhaust)
  then show ?thesis
    using session_handshake[OF demo_broker_ok r] by (auto simp: makeControlHeader_def greeting_def demo_broker_clients)
qed

theorem sweep_bounded_witness:
  "m_clients (cleanup 20000000000 (demo_broker '''')) = []"
  using sweep_bounded[OF demo_broker_ok, where now = 20000000000 and scp1 = "''''"]
  by (simp add: demo_broker_clients demo_broker_times expired_def)

theorem cluster_swap_witness:
  "map_of (m_clients (handle_set_cluster demo_env ''b''
     ((demo_broker '''')\<lparr>m_discovery := Some (new_discovery ''a'' ''u'' 1 0), m_clusterName := ''a''\<rparr>))) (peerLinkId ''o'' ''k'') = None"
proof -
  let ?b = "(demo_broker '''')\<lparr>m_discovery := Some (new_discovery ''a'' ''u'' 1 0), m_clusterName := ''a''\<rparr>"
  have inv: "broker_inv (\<lambda>_. None) (demo_broker '''')" by (simp add: broker_inv_untracked demo_broker_ok)
  have "broker_inv (\<lambda>_. None) ?b"
    by (rule broker_inv_net[OF inv]) (use inv in \<open>simp_all add: same_core_def\<close>)
  then have ok: "broker_ok ?b" by (rule broker_invD)
  have name: "isValidClusterName ''b''" "''b'' \<noteq> m_clusterName ?b" "m_discovery ?b = Some (new_discovery ''a'' ''u'' 1 0)"
    "''b'' \<noteq> m_cluster (new_discovery ''a'' ''u'' 1 0)"
    by (simp_all add: isValidClusterName_def new_discovery_def)
  show ?thesis using cluster_swap[OF ok name refl, of demo_env "''o''" "''k''"] by blast
qed

end
