(* ===== verification/Subscription_Protocol.thy ===== *)
theory Subscription_Protocol
  imports Wire_Frame
begin

text \<open>The subscription protocol between the two ends of a connection: what a sequence of control messages leaves
  subscribed. Clients and peer links write such sequences; a broker reads them into its registry.\<close>

definition sub_step :: "envelope \<Rightarrow> (string \<rightharpoonup> origin) \<Rightarrow> (string \<rightharpoonup> origin)" where
  "sub_step e m =
     (if handler_key (header e) = SUBSCRIBE then m(topic (header e) \<mapsto> decodeSubscribeScope (payload e))
      else if handler_key (header e) = UNSUBSCRIBE then m(topic (header e) := None) else m)"

definition sub_view :: "envelope list \<Rightarrow> (string \<rightharpoonup> origin) \<Rightarrow> (string \<rightharpoonup> origin)" where
  "sub_view es m = fold sub_step es m"

text \<open>A message the protocol allows: a session key, or a subscription to a topic of legal length.\<close>

definition session_request :: "envelope \<Rightarrow> bool" where
  "session_request e \<longleftrightarrow>
     handler_key (header e) \<in> {CONNECT, HEARTBEAT} \<or>
     handler_key (header e) \<in> {SUBSCRIBE, UNSUBSCRIBE} \<and>
       topic (header e) \<noteq> [] \<and> length (topic (header e)) \<le> MAX_TOPIC_LENGTH_BYTES"

lemma sub_view_Nil [simp]: "sub_view [] m = m"
  by (simp add: sub_view_def)

lemma sub_view_Cons: "sub_view (e # es) m = sub_view es (sub_step e m)"
  by (simp add: sub_view_def)

lemma sub_view_append [simp]: "sub_view (es @ [e]) m = sub_step e (sub_view es m)"
  by (simp add: sub_view_def)

lemma sub_step_control [simp]:
  "sub_step \<lparr>header = makeControlHeader SUBSCRIBE i t, payload = pl\<rparr> m = m(t \<mapsto> decodeSubscribeScope pl)"
  "sub_step (makeControl UNSUBSCRIBE i t) m = m(t := None)"
  "sub_step (makeControl CONNECT i t) m = m"
  by (simp_all add: sub_step_def makeControl_def makeControlHeader_def empty_header_def)

lemma dom_sub_step_mono: "dom m \<subseteq> dom m' \<Longrightarrow> dom (sub_step e m) \<subseteq> dom (sub_step e m')"
  by (auto simp: sub_step_def)

lemma dom_sub_view_mono: "dom m \<subseteq> dom m' \<Longrightarrow> dom (sub_view es m) \<subseteq> dom (sub_view es m')"
proof (induction es arbitrary: m m')
  case (Cons e es)
  then show ?case using dom_sub_step_mono by (simp add: sub_view_Cons)
qed simp

lemma card_sub_step: "finite (dom m) \<Longrightarrow> card (dom (sub_step e m)) \<le> Suc (card (dom m)) \<and> finite (dom (sub_step e m))"
  by (simp add: sub_step_def card_insert_if card_Diff1_le le_SucI)

end
