(* ===== verification/Broker_Run.thy ===== *)
theory Broker_Run
  imports Broker_Routing Subscription_Protocol
begin

text \<open>Runs of the broker: any interleaving of turns of its loop, messages and sends of its links, peers added and
  removed by hand or by discovery, start and stop. Beside the broker a run keeps what the far broker of each link
  has read of it.\<close>

section \<open>Links\<close>

lemma sendInterestTo_frame [simp]:
  "pl_address (sendInterestTo b p) = pl_address p" "pl_linkId (sendInterestTo b p) = pl_linkId p"
  by (simp_all add: sendInterestTo_def)

lemma make_link_address [simp]: "pl_address (make_link b k a) = a"
  by (simp add: make_link_def Let_def)

lemma update_fresh: "map_of m k = None \<Longrightarrow> AList.update k v m = m @ [(k, v)]"
  by (induction m) (auto split: if_splits)

lemma update_same_address:
  assumes "peers_ok ps" "map_of ps k = Some p" "pl_address q = pl_address p"
  shows "peers_ok (AList.update k q ps)"
proof -
  have "map (\<lambda>kp. pl_address (snd kp)) (AList.update k q ps) = map (\<lambda>kp. pl_address (snd kp)) ps"
    using assms(2,3) by (induction ps) (auto split: if_splits)
  then show ?thesis using assms(1) by (simp add: peers_ok_def)
qed

lemma links_synced_upd:
  assumes "umap_ok (m_peers b)"
  shows "links_synced b V \<longleftrightarrow> (\<forall>k p U. map_of (m_peers b) k = Some p \<longrightarrow> V k = Some U \<longrightarrow> link_synced b U p)"
  unfolding links_synced_def list_all_iff using assms by (auto simp flip: umap_mem_iff)

text \<open>One link replaced, with its far side.\<close>

lemma broker_inv_set_link:
  assumes b: "broker_inv V b" and p: "map_of (m_peers b) k = Some p" "pl_address q = pl_address p"
    and q: "\<And>U. v = Some U \<Longrightarrow> link_synced b U q"
  shows "broker_inv (V(k := v)) (b\<lparr>m_peers := AList.update k q (m_peers b)\<rparr>)" (is "broker_inv _ ?b")
proof -
  note ok = broker_okD[OF broker_invD(1)[OF b]]
  have peers: "peers_ok (m_peers ?b)" using update_same_address[OF ok(4) p] by simp
  have "broker_inv (\<lambda>_. None) ?b"
    by (rule broker_inv_core[of _ b])
      (use b peers in \<open>simp_all add: broker_inv_def same_core_def broker_ok_def\<close>)
  moreover have same: "link_synced ?b = link_synced b"
    by (simp add: fun_eq_iff link_synced_def serves_def)
  have "links_synced ?b (V(k := v))"
    using broker_invD(2)[OF b] peers ok(4) q
    by (subst links_synced_upd) (auto simp: peers_ok_def links_synced_upd same umap_simps split: if_splits)
  ultimately show ?thesis by (simp add: broker_inv_def)
qed

lemma link_synced_start:
  "link_synced b U (p\<lparr>pl_worker := worker_start (pl_worker p)\<rparr>) = link_synced b U p"
  by (simp add: link_synced_def link_queue_def backed_up_def worker_start_def)

text \<open>Entering a link: refused if its key or address is taken, and then nothing changes.\<close>

definition linked :: "broker \<Rightarrow> string \<Rightarrow> bool" where
  "linked b k \<longleftrightarrow> map_of (m_peers b) k \<noteq> None"

lemma broker_inv_addPeer:
  assumes b: "broker_inv V b"
  shows "broker_inv (if \<not> linked b k \<and> linked (addPeer opens k a b) k then V(k \<mapsto> {}) else V) (addPeer opens k a b)"
proof (cases "addPeer opens k a b = b")
  case True
  then show ?thesis using b by simp
next
  case False
  note ok = broker_okD[OF broker_invD(1)[OF b]]
  let ?p = "(make_link b k a)\<lparr>pl_worker := worker_start (pl_worker (make_link b k a))\<rparr>"
  let ?b = "b\<lparr>m_peers := m_peers b @ [(k, ?p)]\<rparr>"
  have new: "map_of (m_peers b) k = None" "\<not> list_ex (\<lambda>(_, q). pl_address q = a) (m_peers b)"
    and eq: "addPeer opens k a b = ?b"
    using False by (auto simp: addPeer_def enter_link_def update_fresh split: if_splits)
  have peers: "peers_ok (m_peers ?b)"
    using ok(4) new by (auto simp: peers_ok_def umap_ok_def map_of_eq_None_iff list_ex_iff)
  have "broker_inv (\<lambda>_. None) ?b"
    by (rule broker_inv_core[of _ b])
      (use b peers in \<open>simp_all add: broker_inv_def same_core_def broker_ok_def\<close>)
  moreover have same: "link_synced ?b = link_synced b"
    by (simp add: fun_eq_iff link_synced_def serves_def)
  have "link_synced b {} ?p" using make_link_synced[OF ok(5)] by (simp only: link_synced_start)
  then have "links_synced ?b (V(k \<mapsto> {}))"
    using broker_invD(2)[OF b] peers ok(4) new(1)
    by (subst links_synced_upd) (auto simp: peers_ok_def links_synced_upd same map_add_def split: if_splits option.splits)
  moreover have "linked ?b k" using new(1) by (simp add: linked_def)
  ultimately show ?thesis using new(1) unfolding eq by (simp add: broker_inv_def linked_def)
qed

lemma broker_inv_link_message:
  assumes b: "broker_inv V b"
  shows "broker_inv (if handler_key (header e) = RESET \<and> linked b k then V(k := map_option (\<lambda>_. {}) (V k)) else V)
    (link_message k e b)"
proof (cases "map_of (m_peers b) k")
  case None
  then show ?thesis using b by (simp add: link_message_def linked_def)
next
  case (Some p)
  note ok = broker_okD[OF broker_invD(1)[OF b]]
  have p: "\<And>U. V k = Some U \<Longrightarrow> link_synced b U p"
    using broker_invD(2)[OF b] ok(4) Some by (simp add: peers_ok_def links_synced_upd)
  consider "handler_key (header e) = UNLINK" | "handler_key (header e) = RESET"
    | "handler_key (header e) \<noteq> UNLINK" "handler_key (header e) \<noteq> RESET" by blast
  then show ?thesis
  proof cases
    case 1
    have "broker_inv (V(k := V k)) (b\<lparr>m_peers := AList.update k (p\<lparr>pl_active := False\<rparr>) (m_peers b)\<rparr>)"
      using p by (intro broker_inv_set_link[OF b Some]) (simp_all add: link_synced_def link_queue_def backed_up_def)
    then show ?thesis using Some 1 by (simp add: link_message_def)
  next
    case 2
    have "broker_inv (V(k := map_option (\<lambda>_. {}) (V k))) (b\<lparr>m_peers := AList.update k (sendInterestTo b p) (m_peers b)\<rparr>)"
      using p link_synced_reset[OF _ ok(5)] by (intro broker_inv_set_link[OF b Some]) auto
    then show ?thesis using Some 2 by (simp add: link_message_def linked_def)
  next
    case 3
    have "broker_inv V (b\<lparr>m_peerInboundQueue := q\<rparr>)" for q
      by (rule broker_inv_net[OF b]) (use b in \<open>simp_all add: same_core_def\<close>)
    then show ?thesis using Some 3 b by (auto simp: link_message_def split: option.splits)
  qed
qed

text \<open>The link's thread takes control messages off its queue and the far broker reads them. If the queue was full
  a message may have been refused, and the far side is no longer tracked.\<close>

definition link_take :: "nat \<Rightarrow> peer_link \<Rightarrow> peer_link" where
  "link_take n p =
     p\<lparr>pl_worker := (pl_worker p)\<lparr>m_controlQueue := (link_queue p)\<lparr>m_queue := drop n (m_queue (link_queue p))\<rparr>\<rparr>\<rparr>"

definition link_sends :: "string \<Rightarrow> nat \<Rightarrow> broker \<times> far_views \<Rightarrow> broker \<times> far_views" where
  "link_sends k n s =
     (case map_of (m_peers (fst s)) k of
        None \<Rightarrow> s
      | Some p \<Rightarrow>
          ((fst s)\<lparr>m_peers := AList.update k (link_take n p) (m_peers (fst s))\<rparr>,
           (snd s)(k := if backed_up p then None
                        else map_option (link_view (take n (m_queue (link_queue p)))) (snd s k))))"

lemma link_view_take_drop: "link_view (drop n es) (link_view (take n es) V) = link_view es V"
  by (simp add: link_view_def fold_append[symmetric, THEN fun_cong, unfolded comp_def])

lemma broker_inv_link_sends:
  assumes b: "broker_inv V b"
  shows "broker_inv (snd (link_sends k n (b, V))) (fst (link_sends k n (b, V)))"
proof (cases "map_of (m_peers b) k")
  case None
  then show ?thesis using b by (simp add: link_sends_def)
next
  case (Some p)
  note ok = broker_okD[OF broker_invD(1)[OF b]]
  have p: "\<And>U. V k = Some U \<Longrightarrow> link_synced b U p"
    using broker_invD(2)[OF b] ok(4) Some by (simp add: peers_ok_def links_synced_upd)
  have "link_synced b U (link_take n p)"
    if "(if backed_up p then None else map_option (link_view (take n (m_queue (link_queue p)))) (V k)) = Some U" for U
  proof -
    note U = that
    obtain W where "V k = Some W" "U = link_view (take n (m_queue (link_queue p))) W" "\<not> backed_up p"
      using U by (auto split: if_splits)
    then show ?thesis
      using p[of W] by (simp add: link_synced_def link_take_def link_queue_def link_view_take_drop)
  qed
  then show ?thesis
    using broker_inv_set_link[OF b Some, of "link_take n p"] Some by (simp add: link_sends_def link_take_def)
qed

section \<open>Runs\<close>

datatype broker_act =
    BrokerTurn "nat \<Rightarrow> tick" time time "string list list"
  | LinkHears string envelope
  | LinkSends string nat
  | AddPeer bool string string
  | RemovePeer string
  | Discover bool discovery_event
  | StartBroker time "string list"
  | StopBroker
  | EnableDiscovery string u16
  | EnableRemoteInspector u16
  | SetInspectorEndpoint string

text \<open>The far side of a link that is new starts empty.\<close>

definition track :: "broker \<Rightarrow> string \<Rightarrow> broker \<Rightarrow> far_views \<Rightarrow> far_views" where
  "track b k b' V = (if \<not> linked b k \<and> linked b' k then V(k \<mapsto> {}) else V)"

fun track_discovery :: "bool \<Rightarrow> discovery_effect list \<Rightarrow> broker \<times> far_views \<Rightarrow> broker \<times> far_views" where
  "track_discovery opens [] s = s"
| "track_discovery opens (Dial u a # es) (b, V) =
     track_discovery opens es (addPeer opens u a b, track b u (addPeer opens u a b) V)"
| "track_discovery opens (Drop u # es) (b, V) = track_discovery opens es (snd (removePeer u b), V)"

fun broker_exec :: "broker_env \<Rightarrow> broker_act \<Rightarrow> broker \<times> far_views \<Rightarrow> (broker \<times> far_views) option" where
  "broker_exec env (BrokerTurn inp now statsNow arrivals) (b, V) =
     map_option (\<lambda>(_, b'). (b', V)) (broker_turn env inp now statsNow arrivals b)"
| "broker_exec env (LinkHears k e) (b, V) =
     Some (link_message k e b,
           if handler_key (header e) = RESET \<and> linked b k then V(k := map_option (\<lambda>_. {}) (V k)) else V)"
| "broker_exec env (LinkSends k n) s = Some (link_sends k n s)"
| "broker_exec env (AddPeer opens k a) (b, V) =
     Some (addPeer opens k a b, track b k (addPeer opens k a b) V)"
| "broker_exec env (RemovePeer k) (b, V) = Some (snd (removePeer k b), V)"
| "broker_exec env (Discover opens ev) (b, V) =
     (case m_discovery b of
        None \<Rightarrow> Some (b, V)
      | Some d \<Rightarrow>
          (let (effects, d') = disc_exec ev d
           in Some (track_discovery opens effects (b\<lparr>m_discovery := Some d'\<rparr>, V))))"
| "broker_exec env (StartBroker now addrs) (b, V) = Some (broker_start now addrs b, V)"
| "broker_exec env StopBroker (b, V) = Some (snd (broker_stop b), V)"
| "broker_exec env (EnableDiscovery cluster port) (b, V) = Some (enableDiscovery cluster port b, V)"
| "broker_exec env (EnableRemoteInspector port) (b, V) = Some (enableRemoteInspector port b, V)"
| "broker_exec env (SetInspectorEndpoint endpoint) (b, V) = Some (setInspectorEndpoint endpoint b, V)"

fun broker_run :: "broker_env \<Rightarrow> broker_act list \<Rightarrow> broker \<times> far_views \<Rightarrow> (broker \<times> far_views) option" where
  "broker_run env [] s = Some s"
| "broker_run env (a # as) s =
     (case broker_exec env a s of None \<Rightarrow> None | Some s' \<Rightarrow> broker_run env as s')"

lemma track_discovery_apply: "fst (track_discovery opens es s) = apply_discovery (\<lambda>_. opens) es (fst s)"
  by (induction opens es s rule: track_discovery.induct) simp_all

lemma broker_inv_track_discovery:
  "broker_inv (snd s) (fst s) \<Longrightarrow>
   broker_inv (snd (track_discovery opens es s)) (fst (track_discovery opens es s))"
proof (induction opens es s rule: track_discovery.induct)
  case (2 opens u a es b V)
  then show ?case using broker_inv_addPeer[of V b u opens a] by (simp add: track_def)
next
  case (3 opens u es b V)
  then show ?case using broker_inv_removePeer by simp
qed simp

lemma broker_inv_start: "broker_inv V b \<Longrightarrow> broker_inv V (broker_start now addrs b)"
  by (rule broker_inv_net[of V b]) (simp_all add: broker_start_def same_core_def Let_def)

lemma broker_inv_stop: "broker_inv V b \<Longrightarrow> broker_inv V (snd (broker_stop b))"
  by (rule broker_inv_core[of V b])
    (simp_all add: broker_stop_def same_core_def peers_ok_def links_synced_def)

lemma broker_inv_configure:
  assumes b: "broker_inv V b"
  shows "broker_inv V (enableDiscovery cluster port b)" "broker_inv V (enableRemoteInspector port b)"
    "broker_inv V (setInspectorEndpoint endpoint b)"
proof -
  have c: "umap_ok (m_clients b)" using broker_okD(3) broker_invD(1)[OF b] by blast
  show "broker_inv V (enableDiscovery cluster port b)" "broker_inv V (enableRemoteInspector port b)"
    "broker_inv V (setInspectorEndpoint endpoint b)"
    by (rule broker_inv_net[OF b];
        simp add: c enableDiscovery_def enableRemoteInspector_def setInspectorEndpoint_def same_core_def)+
qed

lemma broker_exec_inv:
  assumes "broker_inv (snd s) (fst s)"
  shows "\<exists>s'. broker_exec env a s = Some s' \<and> broker_inv (snd s') (fst s')"
proof -
  obtain b V where s: "s = (b, V)" and b: "broker_inv V b" using assms by (cases s) simp
  have d: "broker_inv V (b\<lparr>m_discovery := d\<rparr>)" for d
    by (rule broker_inv_net[OF b]) (use b in \<open>simp_all add: same_core_def\<close>)
  show ?thesis
  proof (cases a)
    case (BrokerTurn inp now statsNow arrivals)
    then show ?thesis using broker_inv_turn[OF b, of env inp now statsNow arrivals] by (auto simp: s)
  next
    case (LinkHears k e)
    then show ?thesis using broker_inv_link_message[OF b, of e k] by (simp add: s)
  next
    case (Discover opens ev)
    show ?thesis
    proof (cases "m_discovery b")
      case None
      then show ?thesis using b Discover by (simp add: s)
    next
      case (Some x)
      let ?s = "track_discovery opens (fst (disc_exec ev x)) (b\<lparr>m_discovery := Some (snd (disc_exec ev x))\<rparr>, V)"
      have "broker_exec env a s = Some ?s" using Some Discover by (simp add: s split_def Let_def)
      moreover have "broker_inv (snd ?s) (fst ?s)" using d by (intro broker_inv_track_discovery) simp
      ultimately show ?thesis by blast
    qed
  next
    case (AddPeer opens k x)
    then show ?thesis using broker_inv_addPeer[OF b, of k opens x] by (simp add: s track_def)
  qed (use b in \<open>simp_all add: s broker_inv_link_sends broker_inv_removePeer broker_inv_start broker_inv_stop
        broker_inv_configure\<close>)
qed

lemma broker_run_inv:
  "broker_inv (snd s) (fst s) \<Longrightarrow> \<exists>s'. broker_run env as s = Some s' \<and> broker_inv (snd s') (fst s')"
proof (induction "as" arbitrary: s)
  case (Cons a as)
  obtain s1 where "broker_exec env a s = Some s1" "broker_inv (snd s1) (fst s1)"
    using broker_exec_inv[OF Cons.prems] by blast
  then show ?case using Cons.IH by simp
qed simp

section \<open>What holds in every run\<close>

lemma broker_run_new:
  "\<exists>b V. broker_run env acts (new_broker timeout uuid, \<lambda>_. None) = Some (b, V) \<and> broker_inv V b"
  using broker_run_inv[of "(new_broker timeout uuid, \<lambda>_. None)" env acts] broker_inv_new by auto

lemma broker_run_newD:
  "broker_run env acts (new_broker timeout uuid, \<lambda>_. None) = Some (b, V) \<Longrightarrow> broker_inv V b"
  using broker_run_new[of env acts timeout uuid] by auto

text \<open>C1. Every run of a new broker, however configuration, turns, links, peers and discovery interleave,
  completes each of its steps; and in every state it reaches the topics it asks its peers for are exactly
  those some client holds with a scope that takes mesh traffic (until the set saturates), at most 1001 of
  them, every subscription belongs to a connected client and names a topic of 1 to 512 bytes, and no
  client holds more than 10000.\<close>

theorem broker_invariant:
  "\<exists>b V. broker_run env acts (new_broker timeout uuid, \<lambda>_. None) = Some (b, V) \<and>
    (m_interestSaturated b \<or> (\<forall>t. t \<in> set (m_interest b) \<longleftrightarrow>
       isPropagatableTopic t \<and> (\<exists>c s. reg_abs (m_subscriptions b) (c, t) = Some s \<and> scopeAccepts s False))) \<and>
    length (m_interest b) \<le> 1001 \<and>
    (\<forall>c t s. reg_abs (m_subscriptions b) (c, t) = Some s \<longrightarrow>
       map_of (m_clients b) c \<noteq> None \<and> 0 < length t \<and> length t \<le> 512) \<and>
    (\<forall>c. length (held_topics (m_subscriptions b) c) \<le> 10000)"
proof -
  obtain b V where run: "broker_run env acts (new_broker timeout uuid, \<lambda>_. None) = Some (b, V)" and "broker_inv V b"
    using broker_run_new by blast
  then have ok: "broker_ok b" by (auto dest: broker_invD)
  note i = interest_ofD[OF broker_okD(5)[OF ok]] and s = subs_boundedD[OF broker_okD(6)[OF ok]]
  have "m_interestSaturated b \<or> (\<forall>t. t \<in> set (m_interest b) \<longleftrightarrow>
       isPropagatableTopic t \<and> (\<exists>c s. reg_abs (m_subscriptions b) (c, t) = Some s \<and> scopeAccepts s False))"
    using i(3) by (simp add: hasMeshSubscriber_iff[OF broker_okD(2)[OF ok]]) blast
  moreover have "length (m_interest b) \<le> 1001"
    using i(4) by (simp add: MaxInterestTopics_def split: if_splits)
  ultimately show ?thesis
    using run s by (simp add: MAX_TOPIC_LENGTH_BYTES_def MAX_SUBSCRIPTIONS_PER_CLIENT_def) blast
qed


lemma fold_subscribe_length:
  "\<not> m_stop (link_queue p) \<Longrightarrow>
   length (m_queue (link_queue (fold (link_control SUBSCRIBE) ts p))) \<le> length (m_queue (link_queue p)) + length ts \<and>
   m_maxSize (link_queue (fold (link_control SUBSCRIBE) ts p)) = m_maxSize (link_queue p)"
proof (induction ts arbitrary: p)
  case (Cons x ts)
  have "length (m_queue (link_queue (link_control SUBSCRIBE x p))) \<le> Suc (length (m_queue (link_queue p))) \<and>
      m_maxSize (link_queue (link_control SUBSCRIBE x p)) = m_maxSize (link_queue p)"
    using Cons.prems by (simp add: link_control_queue)
  then show ?case using Cons.IH[of "link_control SUBSCRIBE x p"] Cons.prems by simp
qed simp

lemma make_link_room:
  assumes "\<not> m_interestSaturated b" "\<not> m_interestWildcard b" "length (m_interest b) \<le> MaxInterestTopics"
  shows "\<not> backed_up (make_link b k a)"
  using assms fold_subscribe_length[of "\<lparr>pl_address = a, pl_linkId = peerLinkId (m_brokerId b) k,
      pl_worker = new_worker (link_config a (peerLinkId (m_brokerId b) k)), pl_active = True\<rparr>" "m_interest b"]
  by (simp add: make_link_def sendInterestTo_def Let_def backed_up_def link_queue_def new_worker_def new_queue_def
      MaxInterestTopics_def CONTROL_BACKLOG_LIMIT_def MAX_SUBSCRIPTIONS_PER_CLIENT_def)


section \<open>The far side of a connection\<close>

text \<open>What a broker holds for one client.\<close>

definition holds :: "broker \<Rightarrow> string \<Rightarrow> string \<rightharpoonup> origin" where
  "holds b c = (\<lambda>t. reg_abs (m_subscriptions b) (c, t))"

lemma client_group_frames:
  assumes "codec_ok (env_codec env)"
  shows "client_group env inp (group_frames (Some c) (encodeHeader (env_codec env) h) pl) b =
    processMessage env inp h pl c False (count_message (length (encodeHeader (env_codec env) h) + length pl) b)"
  using assms by (simp add: client_group_def group_frames_def)

lemma dom_holds: "dom (holds b c) = set (map fst (held_topics (m_subscriptions b) c))"
  by (auto simp: holds_def reg_abs_def dom_map_of_conv_image_fst[symmetric])

lemma card_holds:
  "registry_ok (m_subscriptions b) \<Longrightarrow> card (dom (holds b c)) = length (held_topics (m_subscriptions b) c)"
  unfolding dom_holds using distinct_card[OF omap_ok_distinct[OF omap_ok_held]] by fastforce

lemma finite_holds: "finite (dom (holds b c))"
  by (simp add: dom_holds)

lemma canSubscribe_card:
  "registry_ok (m_subscriptions b) \<Longrightarrow> card (dom (holds b c)) < MAX_SUBSCRIPTIONS_PER_CLIENT \<Longrightarrow> canSubscribe b c t"
  by (simp add: canSubscribe_def subscriptionsOf_eq card_holds)

lemma process_request:
  assumes b: "broker_ok b" and e: "session_request e" and room: "card (dom (holds b c)) < MAX_SUBSCRIPTIONS_PER_CLIENT"
  shows "\<exists>b'. processMessage env inp (header e) (payload e) c False b = Some b' \<and> broker_ok b' \<and>
    holds b' c = sub_step e (holds b c)"
proof -
  let ?h = "stamp (snd inp) (m_brokerId b) (header e)"
  let ?k = "handler_key (header e)"
  define g where "g = greet env (fst inp) ?k c (tap (encodeHeader (env_codec env) ?h) (payload e) b)"
  have k: "?k = CONNECT \<or> ?k = HEARTBEAT \<or>
      (?k = SUBSCRIBE \<or> ?k = UNSUBSCRIBE) \<and> topic (header e) \<noteq> [] \<and> length (topic (header e)) \<le> MAX_TOPIC_LENGTH_BYTES"
    using e by (auto simp: session_request_def)
  have g: "m_subscriptions g = m_subscriptions b" by (simp add: g_def greet_def Let_def)
  then have r: "registry_ok (m_subscriptions g)" "holds g c = holds b c"
    using broker_okD(2)[OF b] by (simp_all add: holds_def)
  let ?b' = "if ?k = CONNECT then g
    else if ?k = HEARTBEAT then snd (sendTo env c (control_frame env HEARTBEAT_ACK g) [] g)
    else if ?k = SUBSCRIBE then handle_subscribe ?h (payload e) c g else handle_unsubscribe ?h c g"
  have run: "processMessage env inp (header e) (payload e) c False b = Some ?b'"
    using k by (auto simp: processMessage_def route_message_def handleClientMessage_greet Let_def g_def)
  have "canSubscribe g c (topic ?h)" using canSubscribe_card r room by simp
  then have "holds ?b' c = sub_step e (holds b c)"
    using k g handle_subscribe_held[OF r(1), of ?h c "payload e"] handle_unsubscribe_held[OF r(1), of ?h c]
    by (auto simp: holds_def sub_step_def fun_eq_iff)
  moreover have "broker_ok ?b'"
    using broker_inv_processMessage[of "\<lambda>_. None" b env inp "header e" "payload e" c False] b run
    by (simp add: broker_inv_untracked)
  ultimately show ?thesis using run by blast
qed

lemma count_ok: "broker_ok b \<Longrightarrow> broker_ok (count_message n b)"
  using broker_inv_count[of "\<lambda>_. None" b n] by (simp add: broker_inv_untracked)

text \<open>The groups a client or a link puts on the wire for a list of messages.\<close>

definition request_groups :: "header_codec \<Rightarrow> string \<Rightarrow> envelope list \<Rightarrow> string list list" where
  "request_groups pb c es = map (\<lambda>e. group_frames (Some c) (encodeHeader pb (header e)) (payload e)) es"

lemma drain_requests:
  assumes "codec_ok (env_codec env)"
  shows "broker_ok b \<Longrightarrow> list_all session_request es \<Longrightarrow> i + length es \<le> MaxMessagesPerWake \<Longrightarrow>
    card (dom (holds b c)) + length es \<le> MAX_SUBSCRIPTIONS_PER_CLIENT \<Longrightarrow>
    \<exists>b'. client_drain env inp i (request_groups (env_codec env) c es) b = Some ([], i + length es, b') \<and>
      broker_ok b' \<and> holds b' c = sub_view es (holds b c)"
proof (induction es arbitrary: b i)
  case (Cons e es)
  let ?n = "length (encodeHeader (env_codec env) (header e)) + length (payload e)"
  let ?b = "count_message ?n b"
  have held: "holds ?b c = holds b c" by (simp add: holds_def)
  obtain b1 where b1: "processMessage env (inp i) (header e) (payload e) c False ?b = Some b1" "broker_ok b1"
    "holds b1 c = sub_step e (holds b c)"
    using process_request[OF count_ok[OF Cons.prems(1)], of e ?n c env "inp i"] Cons.prems(2,4) held by auto
  have "card (dom (holds b1 c)) + length es \<le> MAX_SUBSCRIPTIONS_PER_CLIENT"
    using card_sub_step[OF finite_holds[of b c], of e] Cons.prems(4) b1(3) by simp
  then show ?case
    using Cons.IH[OF b1(2), of "Suc i"] Cons.prems(2,3) b1(1,3)
    by (simp add: request_groups_def client_group_frames[OF assms] sub_view_Cons)
qed (simp add: request_groups_def)


section \<open>Witnesses\<close>

theorem broker_invariant_witness:
  "\<exists>b V. broker_run demo_env [EnableDiscovery ''c'' 5670, StartBroker 1 [''tcp://*:5555''], AddPeer True ''k'' ''tcp://h:1'', StopBroker]
       (new_broker 10000 ''b1'', \<lambda>_. None) = Some (b, V) \<and>
     length (m_interest b) \<le> 1001 \<and> (\<forall>c. length (held_topics (m_subscriptions b) c) \<le> 10000)"
  using broker_invariant[of demo_env "[EnableDiscovery ''c'' 5670, StartBroker 1 [''tcp://*:5555''], AddPeer True ''k'' ''tcp://h:1'', StopBroker]"
      10000 "''b1''"] by blast

lemma demo_link:
  "broker_run demo_env [AddPeer True ''k'' ''tcp://h:1''] (new_broker 10000 ''b1'', \<lambda>_. None) =
     Some (addPeer True ''k'' ''tcp://h:1'' (new_broker 10000 ''b1''), [''k'' \<mapsto> {}])"
  "map_of (m_peers (addPeer True ''k'' ''tcp://h:1'' (new_broker 10000 ''b1''))) ''k'' =
     Some ((make_link (new_broker 10000 ''b1'') ''k'' ''tcp://h:1'')
       \<lparr>pl_worker := worker_start (pl_worker (make_link (new_broker 10000 ''b1'') ''k'' ''tcp://h:1''))\<rparr>)"
  by (simp_all add: track_def linked_def addPeer_def enter_link_def new_broker_def)




end
