(* ===== verification/Connection_Manager.thy ===== *)
theory Connection_Manager
  imports Subscription_Protocol Zmq_Worker Discovery Uuid Any_Frame
begin

text \<open>The client library, \<^verbatim>\<open>common/connectionmanager.cpp\<close>: the table of message handlers, what it asks the
  broker for, dispatch of incoming messages, sending, requests and replies, and the life of the singleton.
  A handler is an entry with the instance it belongs to, a scope, and the number of its function; dispatch
  returns the calls it makes, and what user code does to the manager inside a call is a parameter. The
  number of scoped handlers is a natural number: its decrement never meets zero, as the invariant shows.\<close>

section \<open>State\<close>

record callback_entry =
  ce_instance :: nat
  ce_func :: "nat option"
  ce_scope :: origin

record conn_manager =
  m_clientId :: string
  m_pWorker :: "envelope zmq_worker option"
  cm_queue :: "envelope safe_queue"
  cm_running :: bool
  m_connected :: bool
  m_msgHandlers :: "(string, callback_entry list) omap"
  m_scopedHandlers :: nat
  t_currentReplyTopic :: string

text \<open>The statics: the one instance, and the registrations made before there is one.\<close>

record client_statics =
  s_instance :: "conn_manager option"
  s_pendingMsgCallbacks :: "(string \<times> nat option \<times> nat \<times> origin) list"

datatype protocol_type = ProtocolZmq | ProtocolOther

definition unionScope :: "callback_entry list \<Rightarrow> origin" where
  "unionScope callbacks = fold (\<lambda>e s. widen s (ce_scope e)) callbacks 0"

section \<open>Sending\<close>

definition sendRawEnvelope :: "envelope \<Rightarrow> conn_manager \<Rightarrow> bool \<times> conn_manager" where
  "sendRawEnvelope e cm =
     (case m_pWorker cm of
        None \<Rightarrow> (False, cm)
      | Some w \<Rightarrow>
          (let (ok, w') = (if isControlMessage (handler_key (header e)) then writeControlMessage w e else writeMessage w e)
           in (ok, cm\<lparr>m_pWorker := Some w'\<rparr>)))"

definition createControlEnvelope :: "conn_manager \<Rightarrow> string \<Rightarrow> string \<Rightarrow> envelope" where
  "createControlEnvelope cm controlKey t = makeControl controlKey (m_clientId cm) t"

definition createSubscribeEnvelope :: "conn_manager \<Rightarrow> string \<Rightarrow> envelope" where
  "createSubscribeEnvelope cm k =
     (let e = makeControl SUBSCRIBE (m_clientId cm) k
      in case map_of (m_msgHandlers cm) k of
           Some callbacks \<Rightarrow> e\<lparr>payload := encodeSubscribeScope (unionScope callbacks)\<rparr>
         | None \<Rightarrow> e)"

definition data_envelope :: "conn_manager \<Rightarrow> string \<Rightarrow> string \<Rightarrow> string \<Rightarrow> envelope" where
  "data_envelope cm k data replyTopic =
     \<lparr>header = empty_header\<lparr>handler_key := k, sender_id := m_clientId cm, topic := k, reply_topic := replyTopic\<rparr>,
      payload = data\<rparr>"

definition sendDataInternal :: "string \<Rightarrow> string \<Rightarrow> conn_manager \<Rightarrow> bool \<times> conn_manager" where
  "sendDataInternal k data cm = sendRawEnvelope (data_envelope cm k data '''') cm"

definition sendReplyEnvelope :: "string \<Rightarrow> conn_manager \<Rightarrow> bool \<times> conn_manager" where
  "sendReplyEnvelope data cm =
     (if t_currentReplyTopic cm = [] then (False, cm)
      else sendRawEnvelope (data_envelope cm (t_currentReplyTopic cm) data '''') cm)"

definition makeReplyTopic :: "string \<Rightarrow> string \<Rightarrow> string" where
  "makeReplyTopic requestTopic uuid =
     (let suffix = ''.'' @ uuid;
          room = (if length suffix < MAX_TOPIC_LENGTH_BYTES then MAX_TOPIC_LENGTH_BYTES - length suffix else 0)
      in take room requestTopic @ suffix)"

section \<open>Handlers\<close>

definition resubscribe :: "string list \<Rightarrow> conn_manager \<Rightarrow> conn_manager" where
  "resubscribe ts cm = fold (\<lambda>t cm'. snd (sendRawEnvelope (createSubscribeEnvelope cm' t) cm')) ts cm"

definition resubscribeAll :: "conn_manager \<Rightarrow> conn_manager" where
  "resubscribeAll cm = resubscribe (map fst (m_msgHandlers cm)) cm"

definition performRegistration :: "string \<Rightarrow> nat option \<Rightarrow> nat \<Rightarrow> origin \<Rightarrow> conn_manager \<Rightarrow> conn_manager" where
  "performRegistration k func inst scp cm =
     (let slot = (case map_of (m_msgHandlers cm) k of None \<Rightarrow> [] | Some callbacks \<Rightarrow> callbacks);
          next_list = slot @ [\<lparr>ce_instance = inst, ce_func = func, ce_scope = scp\<rparr>];
          cm1 = cm\<lparr>m_msgHandlers := omap_put k next_list (m_msgHandlers cm)\<rparr>;
          cm2 = (if scp \<noteq> Origin_Any then cm1\<lparr>m_scopedHandlers := m_scopedHandlers cm1 + 1\<rparr> else cm1)
      in if m_connected cm2 then snd (sendRawEnvelope (createSubscribeEnvelope cm2 k) cm2) else cm2)"

definition performUnregistration :: "string \<Rightarrow> nat \<Rightarrow> conn_manager \<Rightarrow> conn_manager" where
  "performUnregistration k inst cm =
     (case map_of (m_msgHandlers cm) k of
        None \<Rightarrow> cm
      | Some callbacks \<Rightarrow>
          (let scopeBefore = unionScope callbacks;
               next_list = filter (\<lambda>e. ce_instance e \<noteq> inst) callbacks;
               gone = filter (\<lambda>e. ce_instance e = inst \<and> ce_scope e \<noteq> Origin_Any) callbacks;
               cm1 = cm\<lparr>m_scopedHandlers := m_scopedHandlers cm - length gone\<rparr>
           in if next_list = [] then
                (let cm2 = cm1\<lparr>m_msgHandlers := AList.delete k (m_msgHandlers cm1)\<rparr>
                 in snd (sendRawEnvelope (createControlEnvelope cm2 UNSUBSCRIBE k) cm2))
              else
                (let cm2 = cm1\<lparr>m_msgHandlers := omap_put k next_list (m_msgHandlers cm1)\<rparr>
                 in if m_connected cm2 \<and> unionScope next_list \<noteq> scopeBefore
                    then snd (sendRawEnvelope (createSubscribeEnvelope cm2 k) cm2) else cm2)))"

text \<open>The status callback of the worker.\<close>

definition statusHandler :: "bool \<Rightarrow> conn_manager \<Rightarrow> conn_manager" where
  "statusHandler connected cm =
     (let cm1 = cm\<lparr>m_connected := connected\<rparr>
      in if connected
         then resubscribe (map fst (m_msgHandlers cm1)) (snd (sendRawEnvelope (createControlEnvelope cm1 CONNECT '''') cm1))
         else cm1)"

section \<open>Dispatch\<close>

text \<open>A call of user code: its function, the payload, and the reply topic in force.\<close>

type_synonym user_call = "nat \<times> string \<times> string"
type_synonym user_code = "user_call \<Rightarrow> conn_manager \<Rightarrow> conn_manager"

definition is_local :: "envelope \<Rightarrow> conn_manager \<Rightarrow> bool" where
  "is_local e cm =
     (case m_pWorker cm of
        Some w \<Rightarrow>
          if 0 < m_scopedHandlers cm
          then w_brokerId w = [] \<or> origin_broker_id (header e) = w_brokerId w else True
      | None \<Rightarrow> True)"

fun dispatch ::
  "user_code \<Rightarrow> string \<Rightarrow> bool \<Rightarrow> callback_entry list \<Rightarrow> conn_manager \<Rightarrow> user_call list \<times> conn_manager" where
  "dispatch user data isLocal [] cm = ([], cm)"
| "dispatch user data isLocal (e # es) cm =
     (if \<not> scopeAccepts (ce_scope e) isLocal then dispatch user data isLocal es cm
      else
        (case ce_func e of
           None \<Rightarrow> dispatch user data isLocal es cm
         | Some f \<Rightarrow>
             (let c = (f, data, t_currentReplyTopic cm);
                  (calls, cm') = dispatch user data isLocal es (user c cm)
              in (c # calls, cm'))))"

definition handleMessage :: "user_code \<Rightarrow> envelope \<Rightarrow> conn_manager \<Rightarrow> user_call list \<times> conn_manager" where
  "handleMessage user e cm =
     (let t = topic (header e);
          callbacks = map_of (m_msgHandlers cm) t;
          wildcardCallbacks = (if t = WILDCARD_TOPIC then None else map_of (m_msgHandlers cm) WILDCARD_TOPIC)
      in if callbacks = None \<and> wildcardCallbacks = None then ([], cm)
         else
           (let isLocal = is_local e cm;
                cm1 = cm\<lparr>t_currentReplyTopic := reply_topic (header e)\<rparr>;
                (calls1, cm2) = dispatch user (payload e) isLocal (case callbacks of None \<Rightarrow> [] | Some l \<Rightarrow> l) cm1;
                (calls2, cm3) = dispatch user (payload e) isLocal (case wildcardCallbacks of None \<Rightarrow> [] | Some l \<Rightarrow> l) cm2
            in (calls1 @ calls2, cm3\<lparr>t_currentReplyTopic := ''''\<rparr>)))"

definition handleOne :: "user_code \<Rightarrow> envelope \<Rightarrow> conn_manager \<Rightarrow> user_call list \<times> conn_manager" where
  "handleOne user e cm =
     (if handler_key (header e) = RESET then ([], resubscribeAll cm) else handleMessage user e cm)"

fun handle_batch :: "user_code \<Rightarrow> envelope list \<Rightarrow> conn_manager \<Rightarrow> user_call list \<times> conn_manager" where
  "handle_batch user [] cm = ([], cm)"
| "handle_batch user (e # es) cm =
     (if \<not> cm_running cm then ([], cm)
      else
        (let (calls1, cm1) = handleOne user e cm;
             (calls2, cm2) = handle_batch user es cm1
         in (calls1 @ calls2, cm2)))"

text \<open>One round of \<^verbatim>\<open>processingLoop\<close>: None while it waits for a message; otherwise whether the loop goes on.\<close>

definition processing_round :: "user_code \<Rightarrow> conn_manager \<Rightarrow> (bool \<times> user_call list \<times> conn_manager) option" where
  "processing_round user cm =
     (case pop (cm_queue cm) of
        None \<Rightarrow> None
      | Some (None, q) \<Rightarrow> Some (False, [], cm\<lparr>cm_queue := q\<rparr>)
      | Some (Some e, q) \<Rightarrow>
          (let cm1 = cm\<lparr>cm_queue := q\<rparr>
           in if \<not> cm_running cm1 then Some (False, [], cm1)
              else
                (let (calls1, cm2) = handleOne user e cm1;
                     (batch, q') = drainTo (cm_queue cm2);
                     (calls2, cm3) = handle_batch user batch (cm2\<lparr>cm_queue := q'\<rparr>)
                 in Some (True, calls1 @ calls2, cm3))))"

section \<open>Life of the instance\<close>

text \<open>The client id is forced into the 1 to 255 bytes ZeroMQ takes; the draws are those of \<^verbatim>\<open>generateUUID\<close>.\<close>

definition effective_id :: "string \<Rightarrow> string \<Rightarrow> string" where
  "effective_id cid uuid =
     (if cid = [] then ''wisp-'' @ take 8 uuid else if 255 < length cid then take 255 cid else cid)"

definition new_manager :: "connection_config \<Rightarrow> protocol_type \<Rightarrow> string \<Rightarrow> conn_manager" where
  "new_manager cfg protocol uuid =
     (let cid = effective_id (cfg_clientId cfg) uuid
      in \<lparr>m_clientId = cid,
          m_pWorker = (if protocol = ProtocolZmq then Some (worker_start (new_worker (cfg\<lparr>cfg_clientId := cid\<rparr>))) else None),
          cm_queue = new_queue default_max_size, cm_running = True, m_connected = False, m_msgHandlers = [],
          m_scopedHandlers = 0, t_currentReplyTopic = ''''\<rparr>)"

definition cm_init :: "connection_config \<Rightarrow> protocol_type \<Rightarrow> string \<Rightarrow> client_statics \<Rightarrow> client_statics" where
  "cm_init cfg protocol uuid s =
     (case s_instance s of
        Some _ \<Rightarrow> s
      | None \<Rightarrow>
          \<lparr>s_instance =
             Some (fold (\<lambda>(k, f, i, scp). performRegistration k f i scp) (s_pendingMsgCallbacks s) (new_manager cfg protocol uuid)),
           s_pendingMsgCallbacks = []\<rparr>)"

definition teardown :: "conn_manager \<Rightarrow> conn_manager" where
  "teardown cm =
     cm\<lparr>cm_running := False, cm_queue := queue_stop (cm_queue cm), m_pWorker := map_option worker_stop (m_pWorker cm)\<rparr>"

text \<open>\<^verbatim>\<open>shutdown\<close>, from the processing thread or another; the result carries the instance torn down.\<close>

definition cm_shutdown :: "bool \<Rightarrow> client_statics \<Rightarrow> conn_manager option \<times> client_statics" where
  "cm_shutdown onProcessingThread s =
     (case s_instance s of
        None \<Rightarrow> (None, s)
      | Some cm \<Rightarrow>
          if onProcessingThread then (None, s)
          else
            (let cm1 = cm\<lparr>cm_running := False\<rparr>;
                 cm2 = (case m_pWorker cm1 of
                          Some w \<Rightarrow>
                            if m_connected cm1
                            then cm1\<lparr>m_pWorker := Some (snd (writeControlMessage w (createControlEnvelope cm1 DISCONNECT '''')))\<rparr>
                            else cm1
                        | None \<Rightarrow> cm1)
             in (Some (teardown cm2), s\<lparr>s_instance := None\<rparr>)))"

definition cm_isConnected :: "client_statics \<Rightarrow> bool" where
  "cm_isConnected s = (case s_instance s of None \<Rightarrow> False | Some cm \<Rightarrow> m_connected cm)"

definition isInitialized :: "client_statics \<Rightarrow> bool" where
  "isInitialized s \<longleftrightarrow> s_instance s \<noteq> None"

definition registerInternal :: "string \<Rightarrow> nat option \<Rightarrow> nat \<Rightarrow> origin \<Rightarrow> client_statics \<Rightarrow> client_statics" where
  "registerInternal k func inst scp s =
     (case s_instance s of
        Some cm \<Rightarrow> s\<lparr>s_instance := Some (performRegistration k func inst scp cm)\<rparr>
      | None \<Rightarrow> s\<lparr>s_pendingMsgCallbacks := s_pendingMsgCallbacks s @ [(k, func, inst, scp)]\<rparr>)"

definition cm_unregisterCallback :: "string \<Rightarrow> nat \<Rightarrow> client_statics \<Rightarrow> client_statics" where
  "cm_unregisterCallback k inst s =
     (case s_instance s of
        Some cm \<Rightarrow> s\<lparr>s_instance := Some (performUnregistration k inst cm)\<rparr>
      | None \<Rightarrow> s\<lparr>s_pendingMsgCallbacks :=
                  filter (\<lambda>(k', _, i, _). \<not> (k' = k \<and> i = inst)) (s_pendingMsgCallbacks s)\<rparr>)"

text \<open>The static entry points apply a member to the instance, if there is one.\<close>

definition with_instance :: "(conn_manager \<Rightarrow> bool \<times> conn_manager) \<Rightarrow> client_statics \<Rightarrow> bool \<times> client_statics" where
  "with_instance f s =
     (case s_instance s of
        None \<Rightarrow> (False, s)
      | Some cm \<Rightarrow> (let (ok, cm') = f cm in (ok, s\<lparr>s_instance := Some cm'\<rparr>)))"

definition cm_sendMessage :: "string \<Rightarrow> string \<Rightarrow> client_statics \<Rightarrow> bool \<times> client_statics" where
  "cm_sendMessage k message s = with_instance (sendDataInternal k message) s"

definition sendEncodedWithReply :: "string \<Rightarrow> string \<Rightarrow> string \<Rightarrow> client_statics \<Rightarrow> bool \<times> client_statics" where
  "sendEncodedWithReply k data replyTopic s =
     (if s_instance s = None \<or> replyTopic = [] \<or> isReservedKey replyTopic \<or> MAX_TOPIC_LENGTH_BYTES < length replyTopic
      then (False, s)
      else with_instance (\<lambda>cm. sendRawEnvelope (data_envelope cm k data replyTopic) cm) s)"

definition cm_setCluster :: "string \<Rightarrow> client_statics \<Rightarrow> bool \<times> client_statics" where
  "cm_setCluster name s =
     (if \<not> isValidClusterName name then (False, s) else cm_sendMessage SET_CLUSTER name s)"

definition replyToSenderEncoded :: "string \<Rightarrow> client_statics \<Rightarrow> bool \<times> client_statics" where
  "replyToSenderEncoded data s = with_instance (sendReplyEnvelope data) s"

subsection \<open>Requests\<close>

text \<open>\<^verbatim>\<open>sendRequest\<close> up to its wait, and after it. The reply handler is function \<^verbatim>\<open>f\<close> of instance \<^verbatim>\<open>p\<close>, the promise;
  the first reply fulfils it.\<close>

definition request_begin :: "bool \<Rightarrow> string \<Rightarrow> string \<Rightarrow> string \<Rightarrow> nat \<Rightarrow> nat \<Rightarrow> conn_manager \<Rightarrow> bool \<times> conn_manager" where
  "request_begin onProcessingThread requestTopic data uuid f p cm =
     (if onProcessingThread then (False, cm)
      else
        (let replyTopic = makeReplyTopic requestTopic uuid;
             cm1 = performRegistration replyTopic (Some f) p Origin_Any cm;
             (sent, cm2) = sendRawEnvelope (data_envelope cm1 requestTopic data replyTopic) cm1
         in if sent then (True, cm2) else (False, performUnregistration replyTopic p cm2)))"

definition set_promise :: "string \<Rightarrow> string option \<Rightarrow> string option" where
  "set_promise v p = (case p of None \<Rightarrow> Some v | Some _ \<Rightarrow> p)"

definition request_end :: "string \<Rightarrow> string \<Rightarrow> string option \<Rightarrow> nat \<Rightarrow> conn_manager \<Rightarrow> string option \<times> conn_manager" where
  "request_end requestTopic uuid promise p cm =
     (promise, performUnregistration (makeReplyTopic requestTopic uuid) p cm)"

subsection \<open>Waiting\<close>

text \<open>\<^verbatim>\<open>waitForConnection\<close> against the states its instance goes through before the timeout.\<close>

fun wait_states :: "conn_manager list \<Rightarrow> conn_manager \<Rightarrow> bool" where
  "wait_states [] cm = m_connected cm"
| "wait_states (next_state # rest) cm =
     (if m_connected cm \<or> \<not> cm_running cm then m_connected cm else wait_states rest next_state)"

definition cm_waitForConnection :: "conn_manager list \<Rightarrow> client_statics \<Rightarrow> bool" where
  "cm_waitForConnection later s = (case s_instance s of None \<Rightarrow> False | Some cm \<Rightarrow> wait_states later cm)"

text \<open>\<^verbatim>\<open>flush\<close> is the \<^verbatim>\<open>sync\<close> of the worker, entered here.\<close>

definition cm_flush :: "conn_manager \<Rightarrow> sync_phase \<times> conn_manager" where
  "cm_flush cm =
     (case m_pWorker cm of
        None \<Rightarrow> (SyncReturned False, cm)
      | Some w \<Rightarrow> (let (p, w') = sync_begin w in (p, cm\<lparr>m_pWorker := Some w'\<rparr>)))"

section \<open>Payloads\<close>

text \<open>How a value of a type travels: \<^verbatim>\<open>DataSerializer\<close>, protobuf, string or trivially copyable struct. What the
  serializer and the message classes do is theirs; a struct is its bytes.\<close>

datatype 'm payload_kind =
    Serialized "'m \<Rightarrow> string" "string \<Rightarrow> 'm option"
  | ProtobufKind "'m message_type"
  | PlainString "'m \<Rightarrow> string" "string \<Rightarrow> 'm"
  | Trivial nat "'m \<Rightarrow> string" "string \<Rightarrow> 'm"

fun encodePayload :: "'m payload_kind \<Rightarrow> 'm \<Rightarrow> string" where
  "encodePayload (Serialized ser des) v = ser v"
| "encodePayload (ProtobufKind T) v = encode_any T v"
| "encodePayload (PlainString to_s of_s) v = to_s v"
| "encodePayload (Trivial n to_b of_b) v = to_b v"

fun decodePayload :: "'m payload_kind \<Rightarrow> string \<Rightarrow> 'm option" where
  "decodePayload (Serialized ser des) raw = des raw"
| "decodePayload (ProtobufKind T) raw = tryUnpack T raw"
| "decodePayload (PlainString to_s of_s) raw = Some (of_s raw)"
| "decodePayload (Trivial n to_b of_b) raw = (if length raw \<noteq> n then None else Some (of_b raw))"

end
