(* ===== verification/Connection_Run.thy ===== *)
theory Connection_Run
  imports Connection_Manager
begin

text \<open>Runs of the client library against a broker: registrations and sends from any thread and from inside
  callbacks, status changes of the worker, messages handled, control messages read by the broker, and a broker
  that forgets the client and asks for a RESET. What the broker holds for the client follows the handlers.\<close>

section \<open>The handler table\<close>

lemma scopeAccepts_unionScope: "scopeAccepts (unionScope l) x \<longleftrightarrow> (\<exists>e\<in>set l. scopeAccepts (ce_scope e) x)"
proof -
  have "scopeAccepts (fold (\<lambda>e s. widen s (ce_scope e)) l s0) x \<longleftrightarrow>
      scopeAccepts s0 x \<or> (\<exists>e\<in>set l. scopeAccepts (ce_scope e) x)" for s0
    by (induction l arbitrary: s0) auto
  then show ?thesis by (simp add: unionScope_def)
qed

lemma valid_scope_widen: "valid_scope a \<Longrightarrow> valid_scope b \<Longrightarrow> valid_scope (widen a b)"
  by (auto simp: valid_scope_def widen_def origin_defs)

lemma valid_scope_unionScope:
  assumes "l \<noteq> []" and "\<forall>e\<in>set l. valid_scope (ce_scope e)"
  shows "valid_scope (unionScope l)"
proof -
  have *: "valid_scope s0 \<Longrightarrow> \<forall>e\<in>set l. valid_scope (ce_scope e) \<Longrightarrow>
      valid_scope (fold (\<lambda>e s. widen s (ce_scope e)) l s0)" for s0 and l :: "callback_entry list"
    by (induction l arbitrary: s0) (auto intro: valid_scope_widen)
  obtain e l' where l: "l = e # l'" using assms(1) by (cases l) auto
  have "widen 0 (ce_scope e) = ce_scope e" by (simp add: widen_def)
  with * [of "ce_scope e" l'] assms(2) show ?thesis by (simp add: l unionScope_def)
qed

definition scoped_count :: "(string, callback_entry list) omap \<Rightarrow> nat" where
  "scoped_count m = (\<Sum>(k, l)\<leftarrow>m. length (filter (\<lambda>e. ce_scope e \<noteq> Origin_Any) l))"

definition handlers_ok :: "conn_manager \<Rightarrow> bool" where
  "handlers_ok cm \<longleftrightarrow>
     omap_ok (m_msgHandlers cm) \<and> m_scopedHandlers cm = scoped_count (m_msgHandlers cm) \<and>
     (\<forall>k l. map_of (m_msgHandlers cm) k = Some l \<longrightarrow>
        l \<noteq> [] \<and> (\<forall>e\<in>set l. valid_scope (ce_scope e)) \<and> k \<noteq> [] \<and> length k \<le> MAX_TOPIC_LENGTH_BYTES)"

text \<open>What the handlers between them want of the broker.\<close>

definition wanted :: "conn_manager \<Rightarrow> (string \<rightharpoonup> origin)" where
  "wanted cm = map_option unionScope \<circ> map_of (m_msgHandlers cm)"

lemma scoped_count_put:
  "omap_ok m \<Longrightarrow>
   scoped_count (omap_put k l m) + (case map_of m k of None \<Rightarrow> 0 | Some l0 \<Rightarrow> length (filter (\<lambda>e. ce_scope e \<noteq> Origin_Any) l0)) =
   scoped_count m + length (filter (\<lambda>e. ce_scope e \<noteq> Origin_Any) l)"
proof (induction m)
  case (Cons kl m)
  obtain a b where ab: "kl = (a, b)" by (cases kl)
  have "map_of m k = None" if "k < a"
    using that Cons.prems by (auto simp: ab omap_ok_def map_of_eq_None_iff)
  then show ?case using Cons by (auto simp: ab scoped_count_def omap_ok_def)
qed (simp add: scoped_count_def)

lemma scoped_count_delete:
  "omap_ok m \<Longrightarrow> map_of m k = Some l \<Longrightarrow>
   scoped_count (AList.delete k m) + length (filter (\<lambda>e. ce_scope e \<noteq> Origin_Any) l) = scoped_count m"
proof (induction m)
  case (Cons kl m)
  obtain a b where ab: "kl = (a, b)" by (cases kl)
  have "a \<notin> fst ` set m" using Cons.prems by (auto simp: ab omap_ok_def)
  then have "AList.delete a m = m" by simp
  then show ?case using Cons by (auto simp: ab scoped_count_def omap_ok_def split: if_splits)
qed simp

lemma split_filter: "length (filter (\<lambda>e. ce_instance e \<noteq> i \<and> P e) l) + length (filter (\<lambda>e. ce_instance e = i \<and> P e) l) = length (filter P l)"
  by (induction l) auto

section \<open>Control messages\<close>

definition control_queue :: "conn_manager \<Rightarrow> envelope list" where
  "control_queue cm = (case m_pWorker cm of None \<Rightarrow> [] | Some w \<Rightarrow> m_queue (m_controlQueue w))"

text \<open>The worker is there, and its control queue has room left.\<close>

definition has_room :: "conn_manager \<Rightarrow> bool" where
  "has_room cm \<longleftrightarrow>
     (case m_pWorker cm of
        None \<Rightarrow> False
      | Some w \<Rightarrow> \<not> m_stop (m_controlQueue w) \<and> length (m_queue (m_controlQueue w)) < m_maxSize (m_controlQueue w))"

lemma send_frame [simp]:
  "m_clientId (snd (sendRawEnvelope e cm)) = m_clientId cm" "cm_queue (snd (sendRawEnvelope e cm)) = cm_queue cm"
  "cm_running (snd (sendRawEnvelope e cm)) = cm_running cm" "m_connected (snd (sendRawEnvelope e cm)) = m_connected cm"
  "m_msgHandlers (snd (sendRawEnvelope e cm)) = m_msgHandlers cm"
  "m_scopedHandlers (snd (sendRawEnvelope e cm)) = m_scopedHandlers cm"
  "t_currentReplyTopic (snd (sendRawEnvelope e cm)) = t_currentReplyTopic cm"
  by (simp_all add: sendRawEnvelope_def split: option.splits prod.splits)

lemma send_wanted [simp]: "wanted (snd (sendRawEnvelope e cm)) = wanted cm"
  by (simp add: wanted_def)

lemma send_room:
  assumes "has_room (snd (sendRawEnvelope e cm))"
  shows "has_room cm"
  using assms by (auto simp: has_room_def sendRawEnvelope_def writeControlMessage_def writeMessage_def enqueue_def queue_ops
      split: option.splits if_splits prod.splits)

lemma send_control:
  assumes "has_room (snd (sendRawEnvelope e cm))" and "isControlMessage (handler_key (header e))"
  shows "control_queue (snd (sendRawEnvelope e cm)) = control_queue cm @ [e]"
  using send_room[OF assms(1)] assms(2)
  by (auto simp: has_room_def control_queue_def sendRawEnvelope_def writeControlMessage_def enqueue_def queue_ops
      split: option.splits if_splits prod.splits)

lemma send_data:
  assumes "\<not> isControlMessage (handler_key (header e))"
  shows "control_queue (snd (sendRawEnvelope e cm)) = control_queue cm"
    and "has_room (snd (sendRawEnvelope e cm)) = has_room cm"
  using assms by (auto simp: has_room_def control_queue_def sendRawEnvelope_def writeMessage_def enqueue_def queue_ops
      split: option.splits if_splits prod.splits)

section \<open>What the broker will hold\<close>

text \<open>The subscriptions of a broker with view \<^verbatim>\<open>V\<close> once it has read the queued control messages.\<close>

definition held :: "(string \<rightharpoonup> origin) \<Rightarrow> conn_manager \<Rightarrow> (string \<rightharpoonup> origin)" where
  "held V cm = sub_view (control_queue cm) V"

definition benign :: "envelope \<Rightarrow> bool" where
  "benign e \<longleftrightarrow> \<not> isControlMessage (reply_topic (header e))"

definition legal_topic :: "string \<Rightarrow> bool" where
  "legal_topic k \<longleftrightarrow> k \<noteq> [] \<and> length k \<le> MAX_TOPIC_LENGTH_BYTES"

text \<open>The invariant; \<^verbatim>\<open>p\<close> says that a RESET is still to be handled.\<close>

definition client_inv :: "bool \<Rightarrow> (string \<rightharpoonup> origin) \<Rightarrow> conn_manager \<Rightarrow> bool" where
  "client_inv p V cm \<longleftrightarrow>
     handlers_ok cm \<and> has_room cm \<and> list_all session_request (control_queue cm) \<and>
     \<not> isControlMessage (t_currentReplyTopic cm) \<and>
     dom (held V cm) \<subseteq> dom (wanted cm) \<and> (m_connected cm \<and> \<not> p \<longrightarrow> held V cm = wanted cm)"

lemma subscribe_envelope:
  assumes "handlers_ok cm" and "map_of (m_msgHandlers cm) k = Some l"
  shows "sub_step (createSubscribeEnvelope cm k) m = m(k \<mapsto> unionScope l)"
    and "session_request (createSubscribeEnvelope cm k)"
    and "isControlMessage (handler_key (header (createSubscribeEnvelope cm k)))"
proof -
  have "valid_scope (unionScope l)" using assms by (auto simp: handlers_ok_def intro: valid_scope_unionScope)
  then show "sub_step (createSubscribeEnvelope cm k) m = m(k \<mapsto> unionScope l)"
    using assms(2) by (simp add: createSubscribeEnvelope_def sub_step_def scope_roundtrip)
  show "session_request (createSubscribeEnvelope cm k)"
    using assms by (auto simp: createSubscribeEnvelope_def session_request_def handlers_ok_def)
  show "isControlMessage (handler_key (header (createSubscribeEnvelope cm k)))"
    using assms(2) by (simp add: createSubscribeEnvelope_def isControlMessage_def)
qed

lemma send_subscribe:
  assumes "handlers_ok cm" and "map_of (m_msgHandlers cm) k = Some l"
    and "has_room (snd (sendRawEnvelope (createSubscribeEnvelope cm k) cm))"
  shows "held V (snd (sendRawEnvelope (createSubscribeEnvelope cm k) cm)) = (held V cm)(k \<mapsto> unionScope l)"
    and "list_all session_request (control_queue (snd (sendRawEnvelope (createSubscribeEnvelope cm k) cm))) =
      list_all session_request (control_queue cm)"
  using subscribe_envelope[OF assms(1,2)] send_control[OF assms(3)] by (simp_all add: held_def)

lemma handlers_ok_cong:
  "m_msgHandlers cm' = m_msgHandlers cm \<Longrightarrow> m_scopedHandlers cm' = m_scopedHandlers cm \<Longrightarrow> handlers_ok cm' = handlers_ok cm"
  by (simp add: handlers_ok_def)

lemma handlers_ok_send [simp]: "handlers_ok (snd (sendRawEnvelope e cm)) = handlers_ok cm"
  by (rule handlers_ok_cong) simp_all

subsection \<open>Registration\<close>

definition add_handler :: "string \<Rightarrow> callback_entry \<Rightarrow> conn_manager \<Rightarrow> conn_manager" where
  "add_handler k e cm =
     cm\<lparr>m_msgHandlers := omap_put k ((case map_of (m_msgHandlers cm) k of None \<Rightarrow> [] | Some l \<Rightarrow> l) @ [e]) (m_msgHandlers cm),
        m_scopedHandlers := m_scopedHandlers cm + (if ce_scope e \<noteq> Origin_Any then 1 else 0)\<rparr>"

lemma performRegistration_eq:
  "performRegistration k f i scp cm =
     (let cm2 = add_handler k \<lparr>ce_instance = i, ce_func = f, ce_scope = scp\<rparr> cm
      in if m_connected cm then snd (sendRawEnvelope (createSubscribeEnvelope cm2 k) cm2) else cm2)"
  by (simp add: performRegistration_def add_handler_def Let_def)

lemma handlers_ok_add:
  assumes "handlers_ok cm" and "valid_scope (ce_scope e)" and "legal_topic k"
  shows "handlers_ok (add_handler k e cm)"
proof -
  let ?l = "case map_of (m_msgHandlers cm) k of None \<Rightarrow> [] | Some l \<Rightarrow> l"
  have "scoped_count (omap_put k (?l @ [e]) (m_msgHandlers cm)) = scoped_count (m_msgHandlers cm) + (if ce_scope e \<noteq> Origin_Any then 1 else 0)"
    using scoped_count_put[of "m_msgHandlers cm" k "?l @ [e]"] assms(1)
    by (auto simp: handlers_ok_def split: option.splits)
  then show ?thesis
    using assms by (auto simp: handlers_ok_def add_handler_def legal_topic_def omap_simps split: if_splits option.splits)
qed

lemma add_handler_wanted:
  "wanted (add_handler k e cm) = (wanted cm)(k \<mapsto> unionScope ((case map_of (m_msgHandlers cm) k of None \<Rightarrow> [] | Some l \<Rightarrow> l) @ [e]))"
  by (simp add: wanted_def add_handler_def omap_simps fun_eq_iff)

lemma add_handler_frame [simp]:
  "held V (add_handler k e cm) = held V cm" "has_room (add_handler k e cm) = has_room cm"
  "control_queue (add_handler k e cm) = control_queue cm" "m_connected (add_handler k e cm) = m_connected cm"
  "t_currentReplyTopic (add_handler k e cm) = t_currentReplyTopic cm"
  "cm_queue (add_handler k e cm) = cm_queue cm" "cm_running (add_handler k e cm) = cm_running cm"
  "map_of (m_msgHandlers (add_handler k e cm)) k = Some ((case map_of (m_msgHandlers cm) k of None \<Rightarrow> [] | Some l \<Rightarrow> l) @ [e])"
  by (simp_all add: add_handler_def held_def has_room_def control_queue_def omap_simps)

lemma register_room: "has_room (performRegistration k f i scp cm) \<Longrightarrow> has_room cm"
  by (auto simp: performRegistration_eq Let_def dest: send_room split: if_splits)

lemma register_inv:
  assumes "client_inv p V cm" and "valid_scope scp" and "legal_topic k" and "has_room (performRegistration k f i scp cm)"
  shows "client_inv p V (performRegistration k f i scp cm)"
proof -
  define e where "e = \<lparr>ce_instance = i, ce_func = f, ce_scope = scp\<rparr>"
  define cm2 where "cm2 = add_handler k e cm"
  define l where "l = (case map_of (m_msgHandlers cm) k of None \<Rightarrow> [] | Some l \<Rightarrow> l) @ [e]"
  have ok: "handlers_ok cm2"
    unfolding cm2_def using assms(1-3) by (intro handlers_ok_add) (simp_all add: client_inv_def e_def)
  have l: "map_of (m_msgHandlers cm2) k = Some l" by (simp add: cm2_def l_def)
  have w: "wanted cm2 = (wanted cm)(k \<mapsto> unionScope l)" by (simp add: cm2_def l_def add_handler_wanted)
  have h: "held V cm2 = held V cm" "control_queue cm2 = control_queue cm" "m_connected cm2 = m_connected cm"
    "t_currentReplyTopic cm2 = t_currentReplyTopic cm" "has_room cm2 = has_room cm"
    by (simp_all add: cm2_def)
  have eq: "performRegistration k f i scp cm = (if m_connected cm then snd (sendRawEnvelope (createSubscribeEnvelope cm2 k) cm2) else cm2)"
    by (simp add: performRegistration_eq cm2_def e_def Let_def)
  show ?thesis
  proof (cases "m_connected cm")
    case True
    have r: "has_room (snd (sendRawEnvelope (createSubscribeEnvelope cm2 k) cm2))" using assms(4) by (simp add: eq True)
    have "client_inv p V (snd (sendRawEnvelope (createSubscribeEnvelope cm2 k) cm2))"
      using assms(1) send_subscribe[OF ok l r] ok r by (auto simp: client_inv_def h w)
    then show ?thesis by (simp add: eq True)
  next
    case False
    have "client_inv p V cm2" using assms(1) ok False by (auto simp: client_inv_def h w)
    then show ?thesis by (simp add: eq False)
  qed
qed

subsection \<open>Unregistration\<close>

definition drop_handlers :: "string \<Rightarrow> callback_entry list \<Rightarrow> callback_entry list \<Rightarrow> conn_manager \<Rightarrow> conn_manager" where
  "drop_handlers k gone keep cm =
     cm\<lparr>m_scopedHandlers := m_scopedHandlers cm - length gone,
        m_msgHandlers := (if keep = [] then AList.delete k (m_msgHandlers cm) else omap_put k keep (m_msgHandlers cm))\<rparr>"

abbreviation kept :: "nat \<Rightarrow> callback_entry list \<Rightarrow> callback_entry list" where
  "kept i l \<equiv> filter (\<lambda>e. ce_instance e \<noteq> i) l"

abbreviation dropped :: "nat \<Rightarrow> callback_entry list \<Rightarrow> callback_entry list" where
  "dropped i l \<equiv> filter (\<lambda>e. ce_instance e = i \<and> ce_scope e \<noteq> Origin_Any) l"

lemma performUnregistration_eq:
  assumes "map_of (m_msgHandlers cm) k = Some l"
  shows "performUnregistration k i cm =
    (let cm2 = drop_handlers k (dropped i l) (kept i l) cm
     in if kept i l = [] then snd (sendRawEnvelope (createControlEnvelope cm2 UNSUBSCRIBE k) cm2)
        else if m_connected cm \<and> unionScope (kept i l) \<noteq> unionScope l
        then snd (sendRawEnvelope (createSubscribeEnvelope cm2 k) cm2) else cm2)"
  using assms by (simp add: performUnregistration_def drop_handlers_def Let_def)

lemma performUnregistration_none: "map_of (m_msgHandlers cm) k = None \<Longrightarrow> performUnregistration k i cm = cm"
  by (simp add: performUnregistration_def)

lemma drop_handlers_frame [simp]:
  "held V (drop_handlers k g l cm) = held V cm" "has_room (drop_handlers k g l cm) = has_room cm"
  "control_queue (drop_handlers k g l cm) = control_queue cm" "m_connected (drop_handlers k g l cm) = m_connected cm"
  "t_currentReplyTopic (drop_handlers k g l cm) = t_currentReplyTopic cm"
  "cm_queue (drop_handlers k g l cm) = cm_queue cm" "cm_running (drop_handlers k g l cm) = cm_running cm"
  "l \<noteq> [] \<Longrightarrow> map_of (m_msgHandlers (drop_handlers k g l cm)) k = Some l"
  by (simp_all add: drop_handlers_def held_def has_room_def control_queue_def omap_simps)

lemma drop_handlers_wanted:
  "wanted (drop_handlers k g l cm) = (wanted cm)(k := if l = [] then None else Some (unionScope l))"
  by (simp add: wanted_def drop_handlers_def omap_simps fun_eq_iff delete_conv')

lemma handlers_ok_drop:
  assumes "handlers_ok cm" and l: "map_of (m_msgHandlers cm) k = Some l"
  shows "handlers_ok (drop_handlers k (dropped i l) (kept i l) cm)"
proof -
  let ?keep = "kept i l"
  have ok: "omap_ok (m_msgHandlers cm)" using assms(1) by (simp add: handlers_ok_def)
  have n: "length (filter (\<lambda>e. ce_scope e \<noteq> Origin_Any) ?keep) + length (dropped i l) = length (filter (\<lambda>e. ce_scope e \<noteq> Origin_Any) l)"
    using split_filter[of i "\<lambda>e. ce_scope e \<noteq> Origin_Any" l] by (simp add: conj_commute)
  show ?thesis
  proof (cases "?keep = []")
    case True
    have "scoped_count (AList.delete k (m_msgHandlers cm)) = scoped_count (m_msgHandlers cm) - length (dropped i l)"
      using scoped_count_delete[OF ok l] n True by simp
    then show ?thesis using assms True ok
      by (auto simp: handlers_ok_def drop_handlers_def delete_conv' split: if_splits)
  next
    case False
    have "scoped_count (omap_put k ?keep (m_msgHandlers cm)) = scoped_count (m_msgHandlers cm) - length (dropped i l)"
      using scoped_count_put[OF ok, of k ?keep] n l by simp
    moreover have "omap_ok (omap_put k ?keep (m_msgHandlers cm))" using ok by simp
    ultimately show ?thesis using assms False
      by (simp add: handlers_ok_def drop_handlers_def omap_simps)
  qed
qed

lemma unregister_room: "has_room (performUnregistration k i cm) \<Longrightarrow> has_room cm"
  by (cases "map_of (m_msgHandlers cm) k")
    (auto simp: performUnregistration_none performUnregistration_eq Let_def dest: send_room split: if_splits)

lemma send_unsubscribe:
  assumes "legal_topic k" and "has_room (snd (sendRawEnvelope (createControlEnvelope cm UNSUBSCRIBE k) cm))"
  shows "held V (snd (sendRawEnvelope (createControlEnvelope cm UNSUBSCRIBE k) cm)) = (held V cm)(k := None)"
    and "list_all session_request (control_queue (snd (sendRawEnvelope (createControlEnvelope cm UNSUBSCRIBE k) cm))) =
      list_all session_request (control_queue cm)"
  using send_control[OF assms(2)] assms(1)
  by (simp_all add: held_def createControlEnvelope_def session_request_def legal_topic_def isControlMessage_def)

lemma unregister_inv:
  assumes "client_inv p V cm" and "has_room (performUnregistration k i cm)"
  shows "client_inv p V (performUnregistration k i cm)"
proof (cases "map_of (m_msgHandlers cm) k")
  case (Some l)
  define cm2 where "cm2 = drop_handlers k (dropped i l) (kept i l) cm"
  have hok: "handlers_ok cm" using assms(1) by (simp add: client_inv_def)
  have ok: "handlers_ok cm2" unfolding cm2_def using hok Some by (rule handlers_ok_drop)
  have legal: "legal_topic k" using hok Some by (auto simp: handlers_ok_def legal_topic_def)
  have w: "wanted cm2 = (wanted cm)(k := if kept i l = [] then None else Some (unionScope (kept i l)))"
    by (simp add: cm2_def drop_handlers_wanted)
  have wk: "wanted cm k = Some (unionScope l)" using Some by (simp add: wanted_def)
  have h: "held V cm2 = held V cm" "control_queue cm2 = control_queue cm" "m_connected cm2 = m_connected cm"
    "t_currentReplyTopic cm2 = t_currentReplyTopic cm" "has_room cm2 = has_room cm"
    by (simp_all add: cm2_def)
  note eq = performUnregistration_eq[OF Some, of i, folded cm2_def, unfolded Let_def, folded cm2_def]
  consider (gone) "kept i l = []"
    | (narrowed) "kept i l \<noteq> []" "m_connected cm \<and> unionScope (kept i l) \<noteq> unionScope l"
    | (same) "kept i l \<noteq> []" "\<not> (m_connected cm \<and> unionScope (kept i l) \<noteq> unionScope l)" by blast
  then show ?thesis
  proof cases
    case gone
    then have e: "performUnregistration k i cm = snd (sendRawEnvelope (createControlEnvelope cm2 UNSUBSCRIBE k) cm2)" by (simp add: eq)
    show ?thesis using assms send_unsubscribe[OF legal, of cm2] ok gone unfolding e by (auto simp: client_inv_def h w)
  next
    case narrowed
    then have e: "performUnregistration k i cm = snd (sendRawEnvelope (createSubscribeEnvelope cm2 k) cm2)" by (simp add: eq)
    have l2: "map_of (m_msgHandlers cm2) k = Some (kept i l)" using narrowed(1) by (simp add: cm2_def)
    show ?thesis using assms send_subscribe[OF ok l2] ok narrowed(1) unfolding e by (auto simp: client_inv_def h w)
  next
    case same
    then have e: "performUnregistration k i cm = cm2" by (auto simp: eq)
    have "wanted cm2 = wanted cm" if "m_connected cm" using that same wk by (auto simp: w)
    then show ?thesis using assms(1) ok same(1) unfolding e by (auto simp: client_inv_def h w)
  qed
qed (use assms in \<open>simp add: performUnregistration_none\<close>)

subsection \<open>Resubscription and status\<close>

lemma resubscribe_simps [simp]:
  "resubscribe [] cm = cm"
  "resubscribe (t # ts) cm = resubscribe ts (snd (sendRawEnvelope (createSubscribeEnvelope cm t) cm))"
  by (simp_all add: resubscribe_def)

lemma resubscribe_frame [simp]:
  "m_msgHandlers (resubscribe ts cm) = m_msgHandlers cm" "m_scopedHandlers (resubscribe ts cm) = m_scopedHandlers cm"
  "cm_queue (resubscribe ts cm) = cm_queue cm" "cm_running (resubscribe ts cm) = cm_running cm"
  "m_connected (resubscribe ts cm) = m_connected cm" "t_currentReplyTopic (resubscribe ts cm) = t_currentReplyTopic cm"
  by (induction ts arbitrary: cm) simp_all

lemma resubscribe_room: "has_room (resubscribe ts cm) \<Longrightarrow> has_room cm"
  by (induction ts arbitrary: cm) (auto dest: send_room)

lemma resubscribe_held:
  assumes "handlers_ok cm" and "set ts \<subseteq> dom (map_of (m_msgHandlers cm))" and "has_room (resubscribe ts cm)"
  shows "(\<forall>t. held V (resubscribe ts cm) t = (if t \<in> set ts then wanted cm t else held V cm t)) \<and>
    list_all session_request (control_queue (resubscribe ts cm)) = list_all session_request (control_queue cm)"
  using assms
proof (induction ts arbitrary: cm)
  case (Cons u ts)
  let ?cm = "snd (sendRawEnvelope (createSubscribeEnvelope cm u) cm)"
  obtain l where l: "map_of (m_msgHandlers cm) u = Some l" using Cons.prems by auto
  have r: "has_room ?cm" using Cons.prems(3) by (auto dest: resubscribe_room)
  note s = send_subscribe[OF Cons.prems(1) l r]
  have u: "wanted cm u = Some (unionScope l)" using l by (simp add: wanted_def)
  show ?case using Cons.IH[of ?cm] Cons.prems s(1)[of V] s(2) u by auto
qed simp

text \<open>Re-sending every subscription repairs the broker's view, whatever it was, as long as the broker holds no
  topic without handlers.\<close>

lemma resubscribe_repairs:
  assumes "client_inv p V cm" and "has_room (resubscribe (map fst (m_msgHandlers cm)) cm)"
  shows "client_inv p' V (resubscribe (map fst (m_msgHandlers cm)) cm)"
proof -
  let ?ts = "map fst (m_msgHandlers cm)" let ?cm = "resubscribe ?ts cm"
  have ok: "handlers_ok cm" using assms(1) by (simp add: client_inv_def)
  have d: "set ?ts = dom (map_of (m_msgHandlers cm))" by (simp add: dom_map_of_conv_image_fst)
  note r = resubscribe_held[OF ok equalityD1[OF d] assms(2), of V]
  have w: "wanted ?cm = wanted cm" "dom (wanted cm) = dom (map_of (m_msgHandlers cm))" by (auto simp: wanted_def)
  have "held V ?cm t = wanted cm t" for t
  proof (cases "t \<in> dom (wanted cm)")
    case False
    then have "held V cm t = None" using assms(1) by (auto simp: client_inv_def)
    moreover have "wanted cm t = None" "t \<notin> set ?ts" using False unfolding d w(2) by (auto simp: wanted_def)
    ultimately show ?thesis using r by simp
  next
    case True
    then have "t \<in> set ?ts" unfolding d w(2) .
    then show ?thesis using r by simp
  qed
  then have "held V ?cm = wanted ?cm" by (simp add: w(1) fun_eq_iff)
  moreover have "handlers_ok ?cm" using ok by (simp add: handlers_ok_def)
  ultimately show ?thesis using assms r by (simp add: client_inv_def)
qed

lemma send_connect:
  assumes "client_inv p V cm" and "has_room (snd (sendRawEnvelope (createControlEnvelope cm CONNECT []) cm))"
    and "p' \<or> \<not> m_connected cm \<or> \<not> p"
  shows "client_inv p' V (snd (sendRawEnvelope (createControlEnvelope cm CONNECT []) cm))"
  using assms send_control[OF assms(2)]
  by (auto simp: client_inv_def held_def createControlEnvelope_def session_request_def isControlMessage_def isSystemPacket_def)

lemma client_inv_connected:
  "client_inv p V cm \<Longrightarrow> client_inv True V (cm\<lparr>m_connected := b\<rparr>)" "client_inv p V cm \<Longrightarrow> client_inv p V (cm\<lparr>m_connected := False\<rparr>)"
  by (simp_all add: client_inv_def handlers_ok_def has_room_def control_queue_def held_def wanted_def)

lemma status_room: "has_room (statusHandler b cm) \<Longrightarrow> has_room cm"
  by (auto simp: statusHandler_def Let_def has_room_def [of "cm\<lparr>m_connected := b\<rparr>" for b] has_room_def [of cm]
      dest!: resubscribe_room send_room split: if_splits)

lemma status_inv:
  assumes "client_inv p V cm" and "has_room (statusHandler b cm)"
  shows "client_inv p V (statusHandler b cm)"
proof (cases b)
  case True
  let ?cm1 = "cm\<lparr>m_connected := True\<rparr>"
  let ?cm2 = "snd (sendRawEnvelope (createControlEnvelope ?cm1 CONNECT []) ?cm1)"
  have eq: "statusHandler b cm = resubscribe (map fst (m_msgHandlers ?cm2)) ?cm2" by (simp add: statusHandler_def True Let_def)
  have r: "has_room ?cm2" using assms(2) unfolding eq by (rule resubscribe_room)
  have "client_inv True V ?cm2" by (rule send_connect[OF client_inv_connected(1)[OF assms(1)] r]) simp
  then show ?thesis unfolding eq by (rule resubscribe_repairs) (use assms(2) eq in simp)
qed (use assms in \<open>simp add: statusHandler_def client_inv_connected(2)\<close>)

section \<open>Calls of the interface\<close>

datatype api_call =
    ApiRegister string "nat option" nat origin | ApiUnregister string nat
  | ApiPublish string string | ApiReply string

fun api_exec :: "api_call \<Rightarrow> conn_manager \<Rightarrow> conn_manager" where
  "api_exec (ApiRegister k f i scp) cm = performRegistration k f i scp cm"
| "api_exec (ApiUnregister k i) cm = performUnregistration k i cm"
| "api_exec (ApiPublish k d) cm = snd (sendDataInternal k d cm)"
| "api_exec (ApiReply d) cm = snd (sendReplyEnvelope d cm)"

text \<open>Topics of legal length, scopes of the enumeration, and no hand-made control messages.\<close>

fun api_ok :: "api_call \<Rightarrow> bool" where
  "api_ok (ApiRegister k f i scp) = (valid_scope scp \<and> legal_topic k)"
| "api_ok (ApiPublish k d) = (\<not> isControlMessage k)"
| "api_ok _ = True"

definition run_calls :: "(user_call \<Rightarrow> api_call list) \<Rightarrow> user_code" where
  "run_calls prog c cm = fold api_exec (prog c) cm"

lemma client_inv_send_data:
  assumes "client_inv p V cm" and "\<not> isControlMessage (handler_key (header e))"
  shows "client_inv p V (snd (sendRawEnvelope e cm))"
  using assms send_data[OF assms(2)] by (simp add: client_inv_def held_def)

lemma data_envelope_key [simp]: "handler_key (header (data_envelope cm k d r)) = k"
  by (simp add: data_envelope_def empty_header_def)

lemma reply_topic_frame [simp]:
  "t_currentReplyTopic (performRegistration k f i scp cm) = t_currentReplyTopic cm"
  "cm_queue (performRegistration k f i scp cm) = cm_queue cm" "cm_running (performRegistration k f i scp cm) = cm_running cm"
  "t_currentReplyTopic (performUnregistration k i cm) = t_currentReplyTopic cm"
  "cm_queue (performUnregistration k i cm) = cm_queue cm" "cm_running (performUnregistration k i cm) = cm_running cm"
  by (simp_all add: performRegistration_def performUnregistration_def Let_def split: option.splits)

lemma api_frame [simp]:
  "t_currentReplyTopic (api_exec a cm) = t_currentReplyTopic cm" "cm_queue (api_exec a cm) = cm_queue cm"
  "cm_running (api_exec a cm) = cm_running cm"
  by (cases a; simp add: sendDataInternal_def sendReplyEnvelope_def)+

lemma api_room: "has_room (api_exec a cm) \<Longrightarrow> has_room cm"
  by (cases a) (auto simp: sendDataInternal_def sendReplyEnvelope_def dest: register_room unregister_room send_room split: if_splits)

lemma api_inv:
  assumes "client_inv p V cm" and "api_ok a" and "has_room (api_exec a cm)"
  shows "client_inv p V (api_exec a cm)"
proof (cases a)
  case (ApiRegister k f i scp)
  then show ?thesis using register_inv[OF assms(1), of scp k f i] assms(2,3) by simp
next
  case (ApiUnregister k i)
  then show ?thesis using unregister_inv[OF assms(1), of k i] assms(3) by simp
next
  case (ApiPublish k d)
  then show ?thesis using client_inv_send_data[OF assms(1), of "data_envelope cm k d []"] assms(2) by (simp add: sendDataInternal_def)
next
  case (ApiReply d)
  have "\<not> isControlMessage (t_currentReplyTopic cm)" using assms(1) by (simp add: client_inv_def)
  then show ?thesis
    using client_inv_send_data[OF assms(1), of "data_envelope cm (t_currentReplyTopic cm) d []"] assms(1)
    by (simp add: ApiReply sendReplyEnvelope_def)
qed

text \<open>A step that keeps the invariant as long as it leaves room, and touches neither the inbound queue nor the
  reply topic.\<close>

definition safe_step :: "(string \<rightharpoonup> origin) \<Rightarrow> (conn_manager \<Rightarrow> conn_manager) \<Rightarrow> bool" where
  "safe_step V g \<longleftrightarrow>
     (\<forall>cm. (has_room (g cm) \<longrightarrow> has_room cm) \<and> (\<forall>p. client_inv p V cm \<and> has_room (g cm) \<longrightarrow> client_inv p V (g cm)) \<and>
        cm_queue (g cm) = cm_queue cm \<and> cm_running (g cm) = cm_running cm \<and> t_currentReplyTopic (g cm) = t_currentReplyTopic cm)"

lemma safe_stepD:
  assumes "safe_step V g"
  shows "has_room (g cm) \<Longrightarrow> has_room cm" "client_inv p V cm \<Longrightarrow> has_room (g cm) \<Longrightarrow> client_inv p V (g cm)"
    "cm_queue (g cm) = cm_queue cm" "cm_running (g cm) = cm_running cm" "t_currentReplyTopic (g cm) = t_currentReplyTopic cm"
  using assms by (simp_all add: safe_step_def)

lemma safe_step_id [simp]: "safe_step V (\<lambda>cm. cm)"
  by (simp add: safe_step_def)

lemma safe_step_comp:
  assumes g: "safe_step V g" and h: "safe_step V h"
  shows "safe_step V (\<lambda>cm. h (g cm))"
  unfolding safe_step_def
proof (intro allI conjI impI; (elim conjE)?)
  fix cm p assume i: "client_inv p V cm" and r: "has_room (h (g cm))"
  have "client_inv p V (g cm)" by (rule safe_stepD(2)[OF g i safe_stepD(1)[OF h r]])
  then show "client_inv p V (h (g cm))" by (rule safe_stepD(2)[OF h _ r])
next
  fix cm assume "has_room (h (g cm))"
  then show "has_room cm" by (rule safe_stepD(1)[OF g safe_stepD(1)[OF h]])
qed (simp_all add: safe_stepD(3-5)[OF g] safe_stepD(3-5)[OF h])

lemma safe_step_api: "api_ok a \<Longrightarrow> safe_step V (api_exec a)"
  using api_inv api_room by (auto simp: safe_step_def)

lemma safe_step_calls: "list_all api_ok as \<Longrightarrow> safe_step V (fold api_exec as)"
proof (induction as)
  case (Cons a as)
  then show ?case using safe_step_comp[OF safe_step_api[of a V], of "fold api_exec as"] by (simp add: comp_def)
qed (simp add: id_def)

lemma safe_step_dispatch:
  assumes "\<forall>c. list_all api_ok (prog c)"
  shows "safe_step V (\<lambda>cm. snd (dispatch (run_calls prog) d loc es cm))"
proof (induction es)
  case (Cons e es)
  show ?case
  proof (cases "scopeAccepts (ce_scope e) loc \<and> ce_func e \<noteq> None")
    case True
    then obtain f where f: "ce_func e = Some f" by auto
    have *: "safe_step V (\<lambda>cm. run_calls prog (f, d, r) cm)" for r
      unfolding run_calls_def using safe_step_calls[of "prog (f, d, r)" V] assms by simp
    have "safe_step V (\<lambda>cm. snd (dispatch (run_calls prog) d loc es (run_calls prog (f, d, t_currentReplyTopic cm) cm)))"
      using safe_step_comp[OF * Cons.IH] unfolding safe_step_def by blast
    then show ?thesis using True f by (simp add: Let_def case_prod_beta)
  next
    case False
    then have "dispatch (run_calls prog) d loc (e # es) cm = dispatch (run_calls prog) d loc es cm" for cm by auto
    then show ?thesis using Cons.IH by simp
  qed
qed simp

section \<open>Handling a message\<close>

abbreviation topic_callbacks :: "envelope \<Rightarrow> conn_manager \<Rightarrow> callback_entry list" where
  "topic_callbacks e cm \<equiv> (case map_of (m_msgHandlers cm) (topic (header e)) of None \<Rightarrow> [] | Some l \<Rightarrow> l)"

abbreviation wildcard_callbacks :: "envelope \<Rightarrow> conn_manager \<Rightarrow> callback_entry list" where
  "wildcard_callbacks e cm \<equiv>
     (if topic (header e) = WILDCARD_TOPIC then [] else case map_of (m_msgHandlers cm) WILDCARD_TOPIC of None \<Rightarrow> [] | Some l \<Rightarrow> l)"

definition unhandled :: "envelope \<Rightarrow> conn_manager \<Rightarrow> bool" where
  "unhandled e cm \<longleftrightarrow>
     map_of (m_msgHandlers cm) (topic (header e)) = None \<and>
     (topic (header e) = WILDCARD_TOPIC \<or> map_of (m_msgHandlers cm) WILDCARD_TOPIC = None)"

lemma dispatch_append:
  "dispatch user d loc (l1 @ l2) cm =
     (let (c1, cm1) = dispatch user d loc l1 cm; (c2, cm2) = dispatch user d loc l2 cm1 in (c1 @ c2, cm2))"
  by (induction l1 arbitrary: cm) (auto simp: Let_def case_prod_beta split: option.splits)

text \<open>The two dispatches are one over the callbacks of the topic followed by those of the wildcard.\<close>

lemma handleMessage_eq:
  "handleMessage user e cm =
     (if unhandled e cm then ([], cm)
      else
        (let (calls, cm') = dispatch user (payload e) (is_local e cm) (topic_callbacks e cm @ wildcard_callbacks e cm)
           (cm\<lparr>t_currentReplyTopic := reply_topic (header e)\<rparr>)
         in (calls, cm'\<lparr>t_currentReplyTopic := ''''\<rparr>)))"
  by (auto simp: handleMessage_def unhandled_def dispatch_append Let_def case_prod_beta)

lemma client_inv_reply_topic: "client_inv p V cm \<Longrightarrow> \<not> isControlMessage r \<Longrightarrow> client_inv p V (cm\<lparr>t_currentReplyTopic := r\<rparr>)"
  by (simp add: client_inv_def handlers_ok_def has_room_def control_queue_def held_def wanted_def)

lemma has_room_reply_topic [simp]: "has_room (cm\<lparr>t_currentReplyTopic := r\<rparr>) = has_room cm"
  by (simp add: has_room_def)

lemma not_control_Nil [simp]: "\<not> isControlMessage []"
  by (simp add: isControlMessage_def isSystemPacket_def key_defs)

lemma resubscribeAll_inv:
  "client_inv p V cm \<Longrightarrow> has_room (resubscribeAll cm) \<Longrightarrow> client_inv p' V (resubscribeAll cm)"
  unfolding resubscribeAll_def by (rule resubscribe_repairs)

lemma handleOne_safe:
  assumes "\<forall>c. list_all api_ok (prog c)"
  defines "r \<equiv> \<lambda>e cm. snd (handleOne (run_calls prog) e cm)"
  shows "has_room (r e cm) \<Longrightarrow> has_room cm" "cm_queue (r e cm) = cm_queue cm" "cm_running (r e cm) = cm_running cm"
    and "client_inv p V cm \<Longrightarrow> benign e \<Longrightarrow> has_room (r e cm) \<Longrightarrow>
      client_inv (p \<and> handler_key (header e) \<noteq> RESET) V (r e cm)"
proof -
  note d = safe_stepD[OF safe_step_dispatch[OF assms(1)]]
  show "has_room (r e cm) \<Longrightarrow> has_room cm"
    by (auto simp: r_def handleOne_def resubscribeAll_def handleMessage_eq case_prod_beta Let_def
        dest: resubscribe_room d(1) split: if_splits)
  show "cm_queue (r e cm) = cm_queue cm" "cm_running (r e cm) = cm_running cm"
    by (simp_all add: r_def handleOne_def resubscribeAll_def handleMessage_eq case_prod_beta Let_def d(3,4))
  assume i: "client_inv p V cm" and b: "benign e" and h: "has_room (r e cm)"
  show "client_inv (p \<and> handler_key (header e) \<noteq> RESET) V (r e cm)"
  proof (cases "handler_key (header e) = RESET")
    case True
    then show ?thesis using resubscribeAll_inv[OF i] h by (simp add: r_def handleOne_def)
  next
    case False
    let ?cm1 = "cm\<lparr>t_currentReplyTopic := reply_topic (header e)\<rparr>"
    let ?cm2 = "snd (dispatch (run_calls prog) (payload e) (is_local e cm) (topic_callbacks e cm @ wildcard_callbacks e cm) ?cm1)"
    have eq: "r e cm = (if unhandled e cm then cm else ?cm2\<lparr>t_currentReplyTopic := []\<rparr>)"
      using False by (simp add: r_def handleOne_def handleMessage_eq case_prod_beta Let_def)
    have "client_inv p V ?cm1" using i b by (simp add: client_inv_reply_topic benign_def)
    then have "client_inv p V ?cm2" if "\<not> unhandled e cm"
      by (rule d(2)) (use that h in \<open>simp add: eq\<close>)
    then show ?thesis using False i unfolding eq by (simp add: client_inv_reply_topic)
  qed
qed

section \<open>Runs\<close>

text \<open>The client and the broker's view of it: the manager, the messages its processing thread has taken out of the
  queue and not yet handled, what the broker holds, and whether a control message ever met a full queue.\<close>

record client_system =
  cs_mgr :: conn_manager
  cs_batch :: "envelope list"
  cs_view :: "string \<rightharpoonup> origin"
  cs_lost :: bool

datatype client_act =
    Api api_call
  | StatusChange bool
  | Arrive envelope
  | TakeOne
  | TakeAll
  | HandleNext "user_call \<Rightarrow> api_call list"
  | Departs nat
  | Forgotten

definition inbound :: "envelope \<Rightarrow> conn_manager \<Rightarrow> conn_manager" where
  "inbound e cm = cm\<lparr>cm_queue := (case push_timeout e (cm_queue cm) of Some (_, q) \<Rightarrow> q | None \<Rightarrow> cm_queue cm)\<rparr>"

definition departs :: "nat \<Rightarrow> conn_manager \<Rightarrow> conn_manager" where
  "departs n cm =
     cm\<lparr>m_pWorker := map_option (\<lambda>w. w\<lparr>m_controlQueue := (m_controlQueue w)\<lparr>m_queue := drop n (m_queue (m_controlQueue w))\<rparr>\<rparr>)
          (m_pWorker cm)\<rparr>"

text \<open>The processing thread takes one message (\<^verbatim>\<open>pop\<close>) or all there are (\<^verbatim>\<open>drainTo\<close>), and handles what it took one by
  one; calls made inside a callback are those of its action. A broker that forgets the client answers it with a
  RESET.\<close>

fun client_step :: "client_act \<Rightarrow> client_system \<Rightarrow> client_system" where
  "client_step (Api a) s = s\<lparr>cs_mgr := api_exec a (cs_mgr s)\<rparr>"
| "client_step (StatusChange b) s = s\<lparr>cs_mgr := statusHandler b (cs_mgr s)\<rparr>"
| "client_step (Arrive e) s = s\<lparr>cs_mgr := inbound e (cs_mgr s)\<rparr>"
| "client_step TakeOne s =
     (case pop (cm_queue (cs_mgr s)) of
        Some (Some e, q) \<Rightarrow> if cs_batch s = [] then s\<lparr>cs_mgr := (cs_mgr s)\<lparr>cm_queue := q\<rparr>, cs_batch := [e]\<rparr> else s
      | _ \<Rightarrow> s)"
| "client_step TakeAll s =
     (if cs_batch s = []
      then (let (es, q) = drainTo (cm_queue (cs_mgr s)) in s\<lparr>cs_mgr := (cs_mgr s)\<lparr>cm_queue := q\<rparr>, cs_batch := es\<rparr>) else s)"
| "client_step (HandleNext prog) s =
     (case cs_batch s of
        [] \<Rightarrow> s
      | e # es \<Rightarrow> s\<lparr>cs_mgr := snd (handleOne (run_calls prog) e (cs_mgr s)), cs_batch := es\<rparr>)"
| "client_step (Departs n) s =
     s\<lparr>cs_view := sub_view (take n (control_queue (cs_mgr s))) (cs_view s), cs_mgr := departs n (cs_mgr s)\<rparr>"
| "client_step Forgotten s =
     (let reset = makeControl RESET '''' '''';
          cm = inbound reset (cs_mgr s)
      in s\<lparr>cs_view := Map.empty, cs_mgr := cm, cs_lost := cs_lost s \<or> reset \<notin> set (m_queue (cm_queue cm))\<rparr>)"

definition client_exec :: "client_act \<Rightarrow> client_system \<Rightarrow> client_system" where
  "client_exec a s = (let s' = client_step a s in s'\<lparr>cs_lost := cs_lost s' \<or> \<not> has_room (cs_mgr s')\<rparr>)"

definition client_run :: "client_act list \<Rightarrow> client_system \<Rightarrow> client_system" where
  "client_run as s = fold client_exec as s"

text \<open>A client that registered handlers before \<^verbatim>\<open>init\<close>, facing a broker that does not know it.\<close>

definition client_start :: "connection_config \<Rightarrow> string \<Rightarrow> (string \<times> nat option \<times> nat \<times> origin) list \<Rightarrow> client_system" where
  "client_start cfg uuid pending =
     \<lparr>cs_mgr = (case s_instance (cm_init cfg ProtocolZmq uuid \<lparr>s_instance = None, s_pendingMsgCallbacks = pending\<rparr>) of
                  Some cm \<Rightarrow> cm | None \<Rightarrow> new_manager cfg ProtocolZmq uuid),
      cs_batch = [], cs_view = Map.empty, cs_lost = False\<rparr>"

abbreviation waiting :: "client_system \<Rightarrow> envelope list" where
  "waiting s \<equiv> cs_batch s @ m_queue (cm_queue (cs_mgr s))"

definition reset_pending :: "client_system \<Rightarrow> bool" where
  "reset_pending s \<longleftrightarrow> (\<exists>e\<in>set (waiting s). handler_key (header e) = RESET)"

fun client_act_ok :: "client_act \<Rightarrow> bool" where
  "client_act_ok (Api a) = api_ok a"
| "client_act_ok (Arrive e) = benign e"
| "client_act_ok (HandleNext prog) = (\<forall>c. list_all api_ok (prog c))"
| "client_act_ok _ = True"

subsection \<open>The invariant of a run\<close>

definition system_ok :: "client_system \<Rightarrow> bool" where
  "system_ok s \<longleftrightarrow> cs_lost s \<or> client_inv (reset_pending s) (cs_view s) (cs_mgr s) \<and> list_all benign (waiting s)"

lemma client_inv_queue [simp]:
  "client_inv p V (cm\<lparr>cm_queue := q\<rparr>) = client_inv p V cm" "has_room (cm\<lparr>cm_queue := q\<rparr>) = has_room cm"
  by (simp_all add: client_inv_def handlers_ok_def has_room_def control_queue_def held_def wanted_def)

lemma client_inv_weaken: "client_inv p V cm \<Longrightarrow> (p \<longrightarrow> p') \<Longrightarrow> client_inv p' V cm"
  by (auto simp: client_inv_def)

lemma inbound_queue:
  "m_queue (cm_queue (inbound e cm)) = m_queue (cm_queue cm) \<or> m_queue (cm_queue (inbound e cm)) = m_queue (cm_queue cm) @ [e]"
  by (auto simp: inbound_def queue_ops)

lemma inbound_inv [simp]: "client_inv p V (inbound e cm) = client_inv p V cm" "has_room (inbound e cm) = has_room cm"
  by (simp_all add: inbound_def)

lemma departs_inv:
  assumes "client_inv p V cm"
  shows "client_inv p (sub_view (take n (control_queue cm)) V) (departs n cm)"
proof -
  obtain w where w: "m_pWorker cm = Some w" using assms by (auto simp: client_inv_def has_room_def split: option.splits)
  have q: "control_queue (departs n cm) = drop n (control_queue cm)" by (simp add: control_queue_def departs_def w)
  have "held (sub_view (take n (control_queue cm)) V) (departs n cm) = held V cm"
    unfolding held_def q sub_view_def
    using fold_append[of sub_step "take n (control_queue cm)" "drop n (control_queue cm)"]
    by (simp only: append_take_drop_id comp_def)
  moreover have "list_all session_request (drop n (control_queue cm))"
    using assms by (auto simp: client_inv_def list_all_iff dest: in_set_dropD)
  moreover have "has_room (departs n cm)" "handlers_ok (departs n cm)" "wanted (departs n cm) = wanted cm"
    "m_connected (departs n cm) = m_connected cm" "t_currentReplyTopic (departs n cm) = t_currentReplyTopic cm"
    using assms by (auto simp: client_inv_def has_room_def departs_def w handlers_ok_def wanted_def)
  ultimately show ?thesis using assms by (simp add: client_inv_def q)
qed

lemma forgotten_inv: "client_inv p V cm \<Longrightarrow> client_inv True Map.empty cm"
  using dom_sub_view_mono[of Map.empty V "control_queue cm"] by (auto simp: client_inv_def held_def)

lemma departs_frame [simp]: "cm_queue (departs n cm) = cm_queue cm"
  by (simp add: departs_def)

lemma status_frame [simp]: "cm_queue (statusHandler b cm) = cm_queue cm"
  by (simp add: statusHandler_def Let_def)

lemma client_step_ok:
  assumes "system_ok s" and "client_act_ok a" and "\<not> cs_lost (client_step a s)" and "has_room (cs_mgr (client_step a s))"
  shows "system_ok (client_step a s)"
proof -
  have l: "\<not> cs_lost s" using assms(3) by (cases a) (auto simp: Let_def split: option.splits list.splits prod.splits if_splits)
  then have i: "client_inv (reset_pending s) (cs_view s) (cs_mgr s)" and b: "list_all benign (waiting s)"
    using assms(1) by (auto simp: system_ok_def)
  show ?thesis
  proof (cases a)
    case (Api c)
    then have "client_inv (reset_pending s) (cs_view s) (api_exec c (cs_mgr s))"
      using assms(2,4) by (intro api_inv[OF i]) simp_all
    then show ?thesis using b by (simp add: Api system_ok_def reset_pending_def)
  next
    case (StatusChange c)
    then have "client_inv (reset_pending s) (cs_view s) (statusHandler c (cs_mgr s))"
      using assms(4) by (intro status_inv[OF i]) simp
    then show ?thesis using b by (simp add: StatusChange system_ok_def reset_pending_def)
  next
    case (Arrive e)
    have "client_inv (reset_pending (client_step a s)) (cs_view s) (cs_mgr s)"
      using inbound_queue[of e "cs_mgr s"] by (intro client_inv_weaken[OF i]) (auto simp: Arrive reset_pending_def)
    then show ?thesis using b assms(2) inbound_queue[of e "cs_mgr s"] by (auto simp: Arrive system_ok_def)
  next
    case TakeOne
    then show ?thesis using i b l
      by (cases "m_queue (cm_queue (cs_mgr s))") (auto simp: pop_def system_ok_def reset_pending_def)
  next
    case TakeAll
    then show ?thesis using i b l by (auto simp: drainTo_def system_ok_def reset_pending_def)
  next
    case (HandleNext prog)
    show ?thesis
    proof (cases "cs_batch s")
      case (Cons e es)
      have p: "\<forall>c. list_all api_ok (prog c)" using assms(2) by (simp add: HandleNext)
      have "benign e" using b by (simp add: Cons)
      then have "client_inv (reset_pending s \<and> handler_key (header e) \<noteq> RESET) (cs_view s) (snd (handleOne (run_calls prog) e (cs_mgr s)))"
        using assms(4) by (intro handleOne_safe(4)[OF p i]) (simp_all add: HandleNext Cons)
      then have "client_inv (reset_pending (client_step a s)) (cs_view s) (snd (handleOne (run_calls prog) e (cs_mgr s)))"
        by (rule client_inv_weaken) (auto simp: HandleNext Cons reset_pending_def handleOne_safe(2)[OF p])
      then show ?thesis using b by (simp add: HandleNext Cons system_ok_def handleOne_safe(2)[OF p])
    qed (use i b in \<open>simp add: HandleNext system_ok_def\<close>)
  next
    case (Departs n)
    then show ?thesis using departs_inv[OF i, of n] b by (simp add: system_ok_def reset_pending_def)
  next
    case Forgotten
    let ?r = "makeControl RESET [] []"
    have "?r \<in> set (m_queue (cm_queue (inbound ?r (cs_mgr s))))" using assms(3) by (simp add: Forgotten Let_def)
    then have "reset_pending (client_step a s)" by (force simp: Forgotten reset_pending_def Let_def)
    moreover have "list_all benign (waiting (client_step a s))"
      using b inbound_queue[of ?r "cs_mgr s"] by (auto simp: Forgotten Let_def benign_def)
    ultimately show ?thesis using forgotten_inv[OF i] by (simp add: Forgotten system_ok_def Let_def)
  qed
qed

lemma client_exec_ok:
  assumes "system_ok s" and "client_act_ok a"
  shows "system_ok (client_exec a s)"
proof (cases "cs_lost (client_step a s) \<or> \<not> has_room (cs_mgr (client_step a s))")
  case False
  then have "client_exec a s = client_step a s" by (simp add: client_exec_def Let_def)
  then show ?thesis using client_step_ok[OF assms] False by simp
qed (simp add: client_exec_def Let_def system_ok_def)

lemma client_run_ok: "system_ok s \<Longrightarrow> list_all client_act_ok as \<Longrightarrow> system_ok (client_run as s)"
  by (induction as arbitrary: s) (simp_all add: client_run_def client_exec_ok)

definition pending_ok :: "string \<times> nat option \<times> nat \<times> origin \<Rightarrow> bool" where
  "pending_ok = (\<lambda>(k, f, i, scp). api_ok (ApiRegister k f i scp))"

lemma fold_offline:
  assumes "client_inv p V cm" and "\<not> m_connected cm" and "list_all pending_ok ps"
  shows "client_inv p V (fold (\<lambda>(k, f, i, scp). performRegistration k f i scp) ps cm) \<and>
    cm_queue (fold (\<lambda>(k, f, i, scp). performRegistration k f i scp) ps cm) = cm_queue cm"
  using assms
proof (induction ps arbitrary: cm)
  case (Cons q ps)
  obtain k f i scp where q: "q = (k, f, i, scp)" by (cases q)
  let ?cm = "performRegistration k f i scp cm"
  have o: "?cm = add_handler k \<lparr>ce_instance = i, ce_func = f, ce_scope = scp\<rparr> cm"
    using Cons.prems(2) by (simp add: performRegistration_eq)
  have "client_inv p V ?cm" using Cons.prems(1,3) by (intro register_inv) (auto simp: q pending_ok_def o client_inv_def)
  moreover have "\<not> m_connected ?cm" using Cons.prems(2) by (simp add: o)
  ultimately show ?case using Cons.IH[of ?cm] Cons.prems(3) by (simp add: q)
qed simp

lemma client_start_ok:
  assumes "list_all pending_ok pending"
  shows "system_ok (client_start cfg uuid pending)"
proof -
  let ?cm = "new_manager cfg ProtocolZmq uuid"
  have "client_inv False Map.empty ?cm" "\<not> m_connected ?cm" "m_queue (cm_queue ?cm) = []"
    by (simp_all add: client_inv_def new_manager_def handlers_ok_def scoped_count_def has_room_def control_queue_def held_def
        wanted_def Let_def worker_start_def new_worker_def new_queue_def CONTROL_BACKLOG_LIMIT_def)
  with fold_offline[of False Map.empty ?cm pending] assms show ?thesis
    by (simp add: system_ok_def client_start_def cm_init_def reset_pending_def)
qed


definition demo_client :: connection_config where
  "demo_client = \<lparr>cfg_address = ''tcp://h:1'', cfg_clientId = ''c'', keepAliveTime = 1000, keepAliveTimeout = 3000\<rparr>"

definition demo_worker :: "envelope list \<Rightarrow> nat \<Rightarrow> envelope zmq_worker" where
  "demo_worker q n = (new_worker demo_client)\<lparr>w_running := True, m_controlQueue := \<lparr>m_queue = q, m_stop = False, m_maxSize = CONTROL_BACKLOG_LIMIT\<rparr>, w_pings := n\<rparr>"

definition demo_manager :: "bool \<Rightarrow> (string, callback_entry list) omap \<Rightarrow> nat \<Rightarrow> envelope list \<Rightarrow> nat \<Rightarrow> envelope list \<Rightarrow> conn_manager" where
  "demo_manager con hs n q pings inq =
     \<lparr>m_clientId = ''c'', m_pWorker = Some (demo_worker q pings),
      cm_queue = \<lparr>m_queue = inq, m_stop = False, m_maxSize = default_max_size\<rparr>, cm_running = True, m_connected = con,
      m_msgHandlers = hs, m_scopedHandlers = n, t_currentReplyTopic = []\<rparr>"

lemma demo_send:
  assumes "isControlMessage (handler_key (header e))" and "length q < CONTROL_BACKLOG_LIMIT"
  shows "sendRawEnvelope e (demo_manager con hs n q pings inq) =
    (True, demo_manager con hs n (q @ [e]) (pings + (if q = [] then 1 else 0)) inq)"
  using assms by (simp add: sendRawEnvelope_def demo_manager_def demo_worker_def writeControlMessage_def enqueue_def queue_ops new_worker_def)

lemma demo_control [simp]:
  "isControlMessage CONNECT" "isControlMessage SUBSCRIBE" "isControlMessage UNSUBSCRIBE"
  by (simp_all add: isControlMessage_def isSystemPacket_def)

lemma demo_limit [simp]: "CONTROL_BACKLOG_LIMIT = 11024"
  by (simp add: CONTROL_BACKLOG_LIMIT_def MAX_SUBSCRIPTIONS_PER_CLIENT_def)

lemma demo_subscribe [simp]:
  "handler_key (header (createSubscribeEnvelope cm k)) = SUBSCRIBE" "handler_key (header (createControlEnvelope cm c k)) = c"
  by (simp_all add: createSubscribeEnvelope_def createControlEnvelope_def Let_def split: option.splits)

lemma demo_room [simp]: "has_room (demo_manager con hs n q pings inq) \<longleftrightarrow> length q < 11024"
  by (simp add: has_room_def demo_manager_def demo_worker_def)

lemma demo_start: "new_manager demo_client ProtocolZmq u = demo_manager False [] 0 [] 0 []"
  by (simp add: new_manager_def effective_id_def demo_client_def demo_manager_def demo_worker_def worker_start_def new_worker_def new_queue_def
      Let_def)

lemma demo_sel [simp]:
  "m_connected (demo_manager con hs n q pings inq) = con" "m_msgHandlers (demo_manager con hs n q pings inq) = hs"
  "m_scopedHandlers (demo_manager con hs n q pings inq) = n" "control_queue (demo_manager con hs n q pings inq) = q"
  "m_queue (cm_queue (demo_manager con hs n q pings inq)) = inq" "m_clientId (demo_manager con hs n q pings inq) = ''c''"
  "demo_manager con hs n q pings inq\<lparr>m_connected := con'\<rparr> = demo_manager con' hs n q pings inq"
  "demo_manager con hs n q pings inq\<lparr>m_msgHandlers := hs'\<rparr> = demo_manager con hs' n q pings inq"
  "demo_manager con hs n q pings inq\<lparr>m_scopedHandlers := n'\<rparr> = demo_manager con hs n' q pings inq"
  "departs m (demo_manager con hs n q pings inq) = demo_manager con hs n (drop m q) pings inq"
  by (simp_all add: demo_manager_def control_queue_def demo_worker_def departs_def)

definition demo_acts :: "client_act list" where
  "demo_acts = [StatusChange True, Departs 2, Api (ApiRegister ''u'' (Some 2) 7 Origin_Local)]"

abbreviation demo_run :: client_system where
  "demo_run \<equiv> client_run demo_acts (client_start demo_client [] [(''t'', Some 3, 5, Origin_Any)])"

abbreviation demo_handlers :: "(string, callback_entry list) omap" where
  "demo_handlers \<equiv> [(''t'', [\<lparr>ce_instance = 5, ce_func = Some 3, ce_scope = Origin_Any\<rparr>]),
     (''u'', [\<lparr>ce_instance = 7, ce_func = Some 2, ce_scope = Origin_Local\<rparr>])]"

lemma demo_client_run:
  "demo_run =
     \<lparr>cs_mgr = demo_manager True demo_handlers 1 [(makeControl SUBSCRIBE ''c'' ''u'')\<lparr>payload := encodeSubscribeScope Origin_Local\<rparr>] 2 [],
      cs_batch = [], cs_view = [''t'' \<mapsto> Origin_Any], cs_lost = False\<rparr>"
proof -
  have a: "Origin_Local \<noteq> Origin_Any" by (simp add: origin_defs)
  have m: "client_start demo_client [] [(''t'', Some 3, 5, Origin_Any)] =
      \<lparr>cs_mgr = demo_manager False [(''t'', [\<lparr>ce_instance = 5, ce_func = Some 3, ce_scope = Origin_Any\<rparr>])] 0 [] 0 [],
       cs_batch = [], cs_view = Map.empty, cs_lost = False\<rparr>"
    by (simp add: client_start_def cm_init_def demo_start performRegistration_def Let_def)
  show ?thesis
    by (simp add: m demo_acts_def client_run_def client_exec_def statusHandler_def performRegistration_def demo_send Let_def a
        createSubscribeEnvelope_def createControlEnvelope_def sub_view_def sub_step_def unionScope_def widen_def
        encodeSubscribeScope_def decodeSubscribeScope_def numeral_2_eq_2)
qed


end
