(* ===== verification/Connection_Dispatch.thy ===== *)
theory Connection_Dispatch
  imports Connection_Run
begin

text \<open>What the client library hands to its handlers: the calls a message makes, requests and their replies, and the
  rounds of the processing thread as the steps of a run.\<close>

section \<open>Dispatch\<close>

definition accepting :: "bool \<Rightarrow> callback_entry list \<Rightarrow> nat list" where
  "accepting isLocal l = map (the \<circ> ce_func) (filter (\<lambda>e. scopeAccepts (ce_scope e) isLocal \<and> ce_func e \<noteq> None) l)"

lemma dispatch_calls:
  assumes "\<forall>c cm. t_currentReplyTopic (user c cm) = t_currentReplyTopic cm"
  shows "fst (dispatch user d loc es cm) = map (\<lambda>f. (f, d, t_currentReplyTopic cm)) (accepting loc es)"
  by (induction es arbitrary: cm)
    (auto simp: accepting_def Let_def case_prod_beta assms[rule_format] split: option.splits)

lemma handleMessage_calls:
  assumes "\<forall>c cm. t_currentReplyTopic (user c cm) = t_currentReplyTopic cm"
  shows "fst (handleMessage user e cm) =
    map (\<lambda>f. (f, payload e, reply_topic (header e)))
      (accepting (is_local e cm)
        ((case map_of (m_msgHandlers cm) (topic (header e)) of None \<Rightarrow> [] | Some l \<Rightarrow> l) @
         (if topic (header e) = WILDCARD_TOPIC then []
          else case map_of (m_msgHandlers cm) WILDCARD_TOPIC of None \<Rightarrow> [] | Some l \<Rightarrow> l)))"
proof (cases "unhandled e cm")
  case True
  then show ?thesis by (auto simp: handleMessage_eq unhandled_def accepting_def)
next
  case False
  then show ?thesis using dispatch_calls[OF assms] by (simp add: handleMessage_eq case_prod_beta Let_def)
qed


definition demo_inbound :: envelope where
  "demo_inbound = \<lparr>header = empty_header\<lparr>handler_key := ''u'', topic := ''u'', origin_broker_id := ''b1'', reply_topic := ''r''\<rparr>, payload = ''x''\<rparr>"


text \<open>While the broker has not named itself, a message for a topic whose handlers all want mesh
  traffic only makes no call, wherever it comes from.\<close>

lemma unknown_broker_mesh:
  assumes "m_pWorker cm = Some w" and "w_brokerId w = ''''"
    and "map_of (m_msgHandlers cm) (topic (header e)) = Some l" and "\<forall>c\<in>set l. ce_scope c = Origin_Mesh"
    and "map_of (m_msgHandlers cm) WILDCARD_TOPIC = None"
  shows "handleMessage user e cm = ([], cm\<lparr>t_currentReplyTopic := ''''\<rparr>)"
proof -
  have loc: "is_local e cm" using assms(1,2) by (simp add: is_local_def)
  have "\<forall>c\<in>set l. ce_scope c = Origin_Mesh \<Longrightarrow> dispatch user d True l cm' = ([], cm')" for d cm' and l
    by (induction l) auto
  then show ?thesis using assms(3-5) loc by (simp add: handleMessage_eq unhandled_def Let_def)
qed

lemma send_control_taken:
  assumes "has_room cm" and "isControlMessage (handler_key (header e))"
  shows "fst (sendRawEnvelope e cm)" and "control_queue (snd (sendRawEnvelope e cm)) = control_queue cm @ [e]"
  using assms by (auto simp: has_room_def control_queue_def sendRawEnvelope_def writeControlMessage_def enqueue_def queue_ops
      split: option.splits)

text \<open>A reply travels under the reply topic of the message it answers, which nothing checks: one that names a
  control key makes the answering client send that control message about itself.\<close>

lemma reply_control_key:
  assumes "t_currentReplyTopic cm = DISCONNECT" and "has_room cm"
  shows "control_queue (snd (sendReplyEnvelope d cm)) = control_queue cm @ [data_envelope cm DISCONNECT d '''']"
  using send_control_taken[OF assms(2), of "data_envelope cm DISCONNECT d []"] assms(1)
  by (simp add: sendReplyEnvelope_def isControlMessage_def isSystemPacket_def, simp add: key_defs)

section \<open>Requests\<close>

lemma length_set_hexes [simp]: "length (set_hexes is ds u) = length u"
proof -
  have "length (fold (\<lambda>(i, d) u. u[i := hexChars ! d]) xs u) = length u" for xs
    by (induction xs arbitrary: u) auto
  then show ?thesis by (simp add: set_hexes_def)
qed

lemma length_generateUUID [simp]: "length (generateUUID ds v) = 36"
  by (simp add: generateUUID_def Let_def)

lemma delete_omap_put: "omap_ok m \<Longrightarrow> map_of m k = None \<Longrightarrow> AList.delete k (omap_put k v m) = m"
proof (induction m)
  case (Cons ab m)
  obtain a b where ab: "ab = (a, b)" by (cases ab)
  have "k \<notin> fst ` set m" using Cons.prems(2) by (auto simp: ab map_of_eq_None_iff split: if_splits)
  then show ?case using Cons by (auto simp: ab omap_ok_def split: if_splits)
qed simp

lemma unregister_registered:
  assumes "omap_ok (m_msgHandlers cm)" and "map_of (m_msgHandlers cm) r = None"
    and "m_msgHandlers cm' = omap_put r [\<lparr>ce_instance = i, ce_func = f, ce_scope = Origin_Any\<rparr>] (m_msgHandlers cm)"
    and "m_scopedHandlers cm' = m_scopedHandlers cm"
  shows "m_msgHandlers (performUnregistration r i cm') = m_msgHandlers cm"
    and "m_scopedHandlers (performUnregistration r i cm') = m_scopedHandlers cm"
  using assms by (simp_all add: performUnregistration_def omap_simps Let_def delete_omap_put)

definition outbound_queue :: "conn_manager \<Rightarrow> envelope list" where
  "outbound_queue cm = (case m_pWorker cm of None \<Rightarrow> [] | Some w \<Rightarrow> m_queue (m_outboundQueue w))"

lemma send_outbound:
  assumes "\<not> isControlMessage (handler_key (header e))" and "fst (sendRawEnvelope e cm)"
  shows "outbound_queue (snd (sendRawEnvelope e cm)) = outbound_queue cm @ [e]"
  using assms by (auto simp: outbound_queue_def sendRawEnvelope_def writeMessage_def enqueue_def queue_ops split: option.splits if_splits)

lemma register_outbound [simp]: "outbound_queue (performRegistration k f i scp cm) = outbound_queue cm"
proof -
  have "outbound_queue (snd (sendRawEnvelope (createSubscribeEnvelope c k) c)) = outbound_queue c" for c
    by (auto simp: sendRawEnvelope_def outbound_queue_def writeControlMessage_def enqueue_def queue_ops split: option.splits if_splits)
  then show ?thesis by (auto simp: performRegistration_eq Let_def) (simp_all add: outbound_queue_def add_handler_def)
qed

lemma register_table:
  assumes "map_of (m_msgHandlers cm) k = None"
  shows "m_msgHandlers (performRegistration k f i Origin_Any cm) =
      omap_put k [\<lparr>ce_instance = i, ce_func = f, ce_scope = Origin_Any\<rparr>] (m_msgHandlers cm)"
    and "m_scopedHandlers (performRegistration k f i Origin_Any cm) = m_scopedHandlers cm"
    and "m_clientId (performRegistration k f i Origin_Any cm) = m_clientId cm"
  using assms by (simp_all add: performRegistration_def Let_def)

lemma first_promise: "fold set_promise vs None = (case vs of [] \<Rightarrow> None | v # _ \<Rightarrow> Some v)"
proof -
  have "fold set_promise vs (Some v) = Some v" for v by (induction vs) (simp_all add: set_promise_def)
  moreover have "fold set_promise vs (Some v) = Some v" for v and vs :: "string list"
    by (induction vs) (simp_all add: set_promise_def)
  ultimately show ?thesis by (cases vs) (simp_all add: set_promise_def)
qed

lemma makeReplyTopic_eq:
  "length uuid = 36 \<Longrightarrow> makeReplyTopic t uuid = take 475 t @ ''.'' @ uuid"
  by (simp add: makeReplyTopic_def MAX_TOPIC_LENGTH_BYTES_def)

lemma request_parts:
  assumes "r = makeReplyTopic t uuid" and "map_of (m_msgHandlers cm) r = None"
    and "request_begin False t d uuid f p cm = (sent, cm')"
  defines "cm1 \<equiv> performRegistration r (Some f) p Origin_Any cm"
  shows "sent = fst (sendRawEnvelope (data_envelope cm t d r) cm1)"
    and "cm' = (let cm2 = snd (sendRawEnvelope (data_envelope cm t d r) cm1) in if sent then cm2 else performUnregistration r p cm2)"
proof -
  have "data_envelope cm1 t d r = data_envelope cm t d r"
    using register_table(3)[OF assms(2)] by (simp add: cm1_def data_envelope_def)
  then show "sent = fst (sendRawEnvelope (data_envelope cm t d r) cm1)"
    "cm' = (let cm2 = snd (sendRawEnvelope (data_envelope cm t d r) cm1) in if sent then cm2 else performUnregistration r p cm2)"
    using assms(3) unfolding request_begin_def cm1_def by (auto simp: Let_def case_prod_beta simp flip: assms(1) split: if_splits)
qed

lemma request_handlers:
  assumes "r = makeReplyTopic t uuid" and "omap_ok (m_msgHandlers cm)" and "map_of (m_msgHandlers cm) r = None"
    and "request_begin False t d uuid f p cm = (sent, cm')"
    and "request_end t uuid (fold set_promise replies None) p cm' = (response, cm'')"
  shows "(sent \<longrightarrow>
       map_of (m_msgHandlers cm') = (map_of (m_msgHandlers cm))(r \<mapsto> [\<lparr>ce_instance = p, ce_func = Some f, ce_scope = Origin_Any\<rparr>])) \<and>
    (\<not> sent \<longrightarrow> m_msgHandlers cm' = m_msgHandlers cm \<and> m_scopedHandlers cm' = m_scopedHandlers cm) \<and>
    response = (case replies of [] \<Rightarrow> None | x # _ \<Rightarrow> Some x) \<and>
    m_msgHandlers cm'' = m_msgHandlers cm \<and> m_scopedHandlers cm'' = m_scopedHandlers cm"
proof -
  define cm2 where "cm2 = snd (sendRawEnvelope (data_envelope cm t d r) (performRegistration r (Some f) p Origin_Any cm))"
  have st: "m_msgHandlers cm2 = omap_put r [\<lparr>ce_instance = p, ce_func = Some f, ce_scope = Origin_Any\<rparr>] (m_msgHandlers cm)"
    "m_scopedHandlers cm2 = m_scopedHandlers cm" using register_table[OF assms(3)] by (simp_all add: cm2_def)
  note un = unregister_registered[OF assms(2,3) st]
  have c: "cm' = (if sent then cm2 else performUnregistration r p cm2)"
    using request_parts(2)[OF assms(1,3,4)] by (simp add: cm2_def Let_def)
  have e: "response = fold set_promise replies None" "cm'' = performUnregistration r p cm'"
    using assms(1,5) by (simp_all add: request_end_def)
  show ?thesis
  proof (cases sent)
    case True
    then show ?thesis using st un c e by (simp add: omap_simps first_promise)
  next
    case False
    then have "cm'' = cm'" using un(1) assms(3) c by (simp add: e(2) performUnregistration_none)
    then show ?thesis using un c e(1) False by (simp add: first_promise)
  qed
qed

text \<open>C13. A request registers one handler under a reply topic that keeps the whole uuid and fits the
  broker's limit, and the reply topic travels with the request; a request that cannot be queued, and one that has
  ended, by a reply or by its timeout, leaves the handlers as they were; the first reply is the one returned;
  from inside a callback nothing happens.\<close>

theorem request_cycle:
  assumes "uuid = generateUUID ds v" and "r = makeReplyTopic t uuid"
    and "omap_ok (m_msgHandlers cm)" and "map_of (m_msgHandlers cm) r = None" and "\<not> isControlMessage t"
    and "request_begin False t d uuid f p cm = (sent, cm')"
    and "request_end t uuid (fold set_promise replies None) p cm' = (response, cm'')"
  shows "r = take (MAX_TOPIC_LENGTH_BYTES - 37) t @ ''.'' @ uuid \<and> length r \<le> MAX_TOPIC_LENGTH_BYTES \<and>
    request_begin True t d uuid f p cm = (False, cm) \<and>
    (sent \<longrightarrow>
       map_of (m_msgHandlers cm') = (map_of (m_msgHandlers cm))(r \<mapsto> [\<lparr>ce_instance = p, ce_func = Some f, ce_scope = Origin_Any\<rparr>]) \<and>
       outbound_queue cm' = outbound_queue cm @ [data_envelope cm t d r]) \<and>
    (\<not> sent \<longrightarrow> m_msgHandlers cm' = m_msgHandlers cm \<and> m_scopedHandlers cm' = m_scopedHandlers cm) \<and>
    response = (case replies of [] \<Rightarrow> None | x # _ \<Rightarrow> Some x) \<and>
    m_msgHandlers cm'' = m_msgHandlers cm \<and> m_scopedHandlers cm'' = m_scopedHandlers cm"
proof -
  have r: "r = take (MAX_TOPIC_LENGTH_BYTES - 37) t @ ''.'' @ uuid"
    using assms(1,2) by (simp add: makeReplyTopic_eq MAX_TOPIC_LENGTH_BYTES_def)
  have len: "length r \<le> MAX_TOPIC_LENGTH_BYTES" unfolding r using assms(1) by (simp add: MAX_TOPIC_LENGTH_BYTES_def)
  have out: "outbound_queue cm' = outbound_queue cm @ [data_envelope cm t d r]" if sent
    using request_parts[OF assms(2,4,6)] that assms(5)
      send_outbound[of "data_envelope cm t d r" "performRegistration r (Some f) p Origin_Any cm"] by simp
  show ?thesis using r len out request_handlers[OF assms(2,3,4,6,7)] by (simp add: request_begin_def)
qed

theorem request_cycle_witness:
  "request_end ''q'' (generateUUID (replicate 30 0) 8) (fold set_promise [''a'', ''b''] None) 1
     (snd (request_begin False ''q'' ''d'' (generateUUID (replicate 30 0) 8) 9 1 (demo_manager True [] 0 [] 0 []))) =
     (Some ''a'', snd (request_end ''q'' (generateUUID (replicate 30 0) 8) (fold set_promise [''a'', ''b''] None) 1
        (snd (request_begin False ''q'' ''d'' (generateUUID (replicate 30 0) 8) 9 1 (demo_manager True [] 0 [] 0 []))))) \<and>
   m_msgHandlers (snd (request_end ''q'' (generateUUID (replicate 30 0) 8) (fold set_promise [''a'', ''b''] None) 1
     (snd (request_begin False ''q'' ''d'' (generateUUID (replicate 30 0) 8) 9 1 (demo_manager True [] 0 [] 0 []))))) = []"
  (is "?e = (Some ''a'', snd ?e) \<and> m_msgHandlers (snd ?e) = []")
proof -
  have c: "\<not> isControlMessage ''q''" by (simp add: isControlMessage_def isSystemPacket_def key_defs)
  have "omap_ok (m_msgHandlers (demo_manager True [] 0 [] 0 []))"
    "map_of (m_msgHandlers (demo_manager True [] 0 [] 0 [])) (makeReplyTopic ''q'' (generateUUID (replicate 30 0) 8)) = None" by simp_all
  from request_cycle[OF refl refl this c surjective_pairing surjective_pairing, of "''d''" 9 1 "[''a'', ''b'']"]
  show ?thesis by (simp add: prod_eq_iff)
qed

section \<open>Rounds\<close>

lemma run_calls_running [simp]: "cm_running (run_calls prog c cm) = cm_running cm"
proof -
  have "cm_running (fold api_exec as cm) = cm_running cm" for as by (induction as arbitrary: cm) simp_all
  then show ?thesis by (simp add: run_calls_def)
qed

lemma run_calls_queue [simp]: "cm_queue (run_calls prog c cm) = cm_queue cm"
proof -
  have "cm_queue (fold api_exec as cm) = cm_queue cm" for as by (induction as arbitrary: cm) simp_all
  then show ?thesis by (simp add: run_calls_def)
qed

lemma dispatch_frame [simp]:
  "cm_running (snd (dispatch (run_calls prog) d loc es cm)) = cm_running cm"
  "cm_queue (snd (dispatch (run_calls prog) d loc es cm)) = cm_queue cm"
  by (induction es arbitrary: cm) (auto simp: Let_def case_prod_beta split: option.splits)

lemma handleOne_frame [simp]:
  "cm_running (snd (handleOne (run_calls prog) e cm)) = cm_running cm"
  "cm_queue (snd (handleOne (run_calls prog) e cm)) = cm_queue cm"
  by (simp_all add: handleOne_def resubscribeAll_def handleMessage_eq Let_def case_prod_beta)

lemma handle_batch_steps:
  "cm_running (cs_mgr s) \<Longrightarrow> cs_batch s = es \<Longrightarrow>
   fold client_step (replicate (length es) (HandleNext prog)) s =
     s\<lparr>cs_batch := [], cs_mgr := snd (handle_batch (run_calls prog) es (cs_mgr s))\<rparr>"
proof (induction es arbitrary: s)
  case (Cons e es)
  let ?s = "s\<lparr>cs_mgr := snd (handleOne (run_calls prog) e (cs_mgr s)), cs_batch := es\<rparr>"
  have "client_step (HandleNext prog) s = ?s" using Cons.prems(2) by simp
  then show ?case using Cons.IH[of ?s] Cons.prems by (simp add: Let_def case_prod_beta)
qed simp

text \<open>A round of the processing loop is steps of a run: one message taken and handled, then all that have queued up.\<close>

lemma processing_round_steps:
  assumes "processing_round (run_calls prog) (cs_mgr s) = Some (True, calls, cm')" and "cs_batch s = []"
  shows "\<exists>n. fold client_step ([TakeOne, HandleNext prog, TakeAll] @ replicate n (HandleNext prog)) s = s\<lparr>cs_mgr := cm'\<rparr>"
proof -
  let ?cm = "cs_mgr s"
  obtain e q where pop: "pop (cm_queue ?cm) = Some (Some e, q)" and run: "cm_running ?cm"
    using assms(1) by (auto simp: processing_round_def Let_def split: option.splits prod.splits if_splits)
  let ?cm2 = "snd (handleOne (run_calls prog) e (?cm\<lparr>cm_queue := q\<rparr>))"
  let ?s = "s\<lparr>cs_mgr := ?cm2\<lparr>cm_queue := q\<lparr>m_queue := []\<rparr>\<rparr>, cs_batch := m_queue q\<rparr>"
  have 1: "fold client_step [TakeOne, HandleNext prog, TakeAll] s = ?s"
    using pop assms(2) by (simp add: drainTo_def)
  have 2: "cm' = snd (handle_batch (run_calls prog) (m_queue q) (?cm2\<lparr>cm_queue := q\<lparr>m_queue := []\<rparr>\<rparr>))"
    using assms(1) pop run by (auto simp: processing_round_def Let_def case_prod_beta drainTo_def)
  have "fold client_step (replicate (length (m_queue q)) (HandleNext prog)) ?s = s\<lparr>cs_mgr := cm'\<rparr>"
    using handle_batch_steps[of ?s "m_queue q" prog] run assms(2) by (simp add: 2)
  then show ?thesis unfolding fold_append comp_def 1 by blast
qed

end
