(* ===== verification/Logger.thy ===== *)
theory Logger
  imports Text_Config
begin

text \<open>The logger of \<^verbatim>\<open>common/logger.h\<close>: its levels and their order, the starting level, what becomes of a message,
  and the throttle that lets a recurring event through once per interval. The timestamp of a line is a parameter.\<close>

section \<open>Levels\<close>

datatype log_level = Debug | Info | Warning | Error

primrec level_value :: "log_level \<Rightarrow> nat" where
  "level_value Debug = 0"
| "level_value Info = 1"
| "level_value Warning = 2"
| "level_value Error = 3"

lemma level_value_inj [simp]: "level_value a = level_value b \<longleftrightarrow> a = b"
  by (cases a; cases b) simp_all

instantiation log_level :: linorder
begin

definition less_eq_log_level :: "log_level \<Rightarrow> log_level \<Rightarrow> bool" where
  "a \<le> b \<longleftrightarrow> level_value a \<le> level_value b"

definition less_log_level :: "log_level \<Rightarrow> log_level \<Rightarrow> bool" where
  "a < b \<longleftrightarrow> level_value a < level_value b"

instance
  by standard (auto simp: less_eq_log_level_def less_log_level_def)

end

text \<open>\<^verbatim>\<open>std::tolower\<close> in the C locale.\<close>

definition to_lower :: "char \<Rightarrow> char" where
  "to_lower c = (if 65 \<le> (of_char c :: nat) \<and> (of_char c :: nat) \<le> 90 then char_of ((of_char c :: nat) + 32) else c)"

definition initialLevel :: "string option \<Rightarrow> log_level" where
  "initialLevel env =
     (case env of
        None \<Rightarrow> Debug
      | Some e \<Rightarrow>
          (let v = map to_lower e
           in if v = ''info'' then Info
              else if v = ''warning'' \<or> v = ''warn'' then Warning
              else if v = ''error'' then Error
              else Debug))"

section \<open>Messages\<close>

record logger =
  m_minLevel :: log_level
  m_handler :: "nat option"

datatype log_effect = ToStdout string | ToStderr string | ToHandler nat log_level string

definition new_logger :: "string option \<Rightarrow> logger" where
  "new_logger env = \<lparr>m_minLevel = initialLevel env, m_handler = None\<rparr>"

definition setMinLevel :: "log_level \<Rightarrow> logger \<Rightarrow> logger" where
  "setMinLevel level lg = lg\<lparr>m_minLevel := level\<rparr>"

definition setHandler :: "nat option \<Rightarrow> logger \<Rightarrow> logger" where
  "setHandler handler lg = lg\<lparr>m_handler := handler\<rparr>"

fun level_tag :: "log_level \<Rightarrow> string" where
  "level_tag Debug = ''[DEBUG] ''"
| "level_tag Info = ''[INFO]  ''"
| "level_tag Warning = ''[WARN]  ''"
| "level_tag Error = ''[ERROR] ''"

definition writeDefault :: "string \<Rightarrow> log_level \<Rightarrow> string \<Rightarrow> log_effect" where
  "writeDefault stamp level msg =
     (let line = ''['' @ stamp @ ''] '' @ level_tag level @ msg @ [CHR 0x0A]
      in if level = Error then ToStderr line else ToStdout line)"

definition logInternal :: "string \<Rightarrow> log_level \<Rightarrow> string \<Rightarrow> logger \<Rightarrow> log_effect option" where
  "logInternal stamp level msg lg =
     (if level < m_minLevel lg then None
      else
        (case m_handler lg of
           None \<Rightarrow> Some (writeDefault stamp level msg)
         | Some h \<Rightarrow> Some (ToHandler h level msg)))"

section \<open>The throttle\<close>

record log_throttle =
  m_interval :: time
  m_lastFired :: time

definition new_throttle :: "int \<Rightarrow> time \<Rightarrow> log_throttle" where
  "new_throttle seconds now = \<lparr>m_interval = seconds * 1000000000, m_lastFired = now - seconds * 1000000000\<rparr>"

definition ready :: "time \<Rightarrow> log_throttle \<Rightarrow> bool \<times> log_throttle" where
  "ready now t =
     (if now - m_lastFired t < m_interval t then (False, t) else (True, t\<lparr>m_lastFired := now\<rparr>))"

text \<open>The answers of a throttle asked at a sequence of times, as the times at which it let the event through.\<close>

fun fired :: "time list \<Rightarrow> log_throttle \<Rightarrow> time list" where
  "fired [] t = []"
| "fired (now # later) t = (let (go, t') = ready now t in if go then now # fired later t' else fired later t')"

lemma fired_spaced_from:
  assumes "0 < m_interval t"
  shows "sorted_wrt (\<lambda>a b. a + m_interval t \<le> b) (fired ts t) \<and> (\<forall>x\<in>set (fired ts t). m_lastFired t + m_interval t \<le> x)"
  using assms
proof (induction ts arbitrary: t)
  case (Cons now ts)
  show ?case
  proof (cases "now - m_lastFired t < m_interval t")
    case False
    then show ?thesis using Cons.IH[of "t\<lparr>m_lastFired := now\<rparr>"] Cons.prems by (fastforce simp: ready_def)
  qed (use Cons in \<open>simp add: ready_def\<close>)
qed simp

text \<open>The first event goes through, and any two that do are an interval apart.\<close>

lemma throttle_spaced:
  assumes "0 < secs"
  shows "fired (now # later) (new_throttle secs now) = now # fired later \<lparr>m_interval = secs * 1000000000, m_lastFired = now\<rparr>"
    and "sorted_wrt (\<lambda>a b. a + secs * 1000000000 \<le> b) (fired ts (new_throttle secs t0))"
  using fired_spaced_from[of "new_throttle secs t0" ts] assms by (simp_all add: new_throttle_def ready_def)

lemma logInternal_handler:
  "level < m_minLevel lg \<Longrightarrow> logInternal st level msg (setHandler g lg) = None"
  "\<not> level < m_minLevel lg \<Longrightarrow> logInternal st level msg (setHandler (Some h) lg) = Some (ToHandler h level msg)"
  by (simp_all add: logInternal_def setHandler_def)

end
