(* ===== verification/Connection_Api.thy ===== *)
theory Connection_Api
  imports Connection_Dispatch Logger
begin

text \<open>The C interface of \<^verbatim>\<open>common/connectionapi.cpp\<close>. A pointer is an option, a C string the characters before its
  NUL; a buffer with a length is the bytes behind the pointer, of which the length takes the first. The state is
  that of the calling thread: the statics of the client library, the logger, and the last error. None of the calls
  modelled throws, so the barrier that turns an exception into \<^verbatim>\<open>ERROR_GENERIC\<close> passes its body through.\<close>

section \<open>Results\<close>

datatype error_code =
    SUCCESS | ERROR_GENERIC | ERROR_NO_CONNECTION | ERROR_INVALID_ARGS
  | ERROR_SEND_FAILED | ERROR_BUFFER_TOO_SMALL | ERROR_TIMEOUT

record c_config =
  cc_address :: "string option"
  cc_client_id :: "string option"
  cc_protocol :: int
  keepalive_time_ms :: int
  keepalive_timeout_ms :: int

record c_api =
  statics :: client_statics
  api_logger :: logger
  t_lastError :: string

definition fail :: "error_code \<Rightarrow> string \<Rightarrow> c_api \<Rightarrow> error_code \<times> c_api" where
  "fail code message a = (code, a\<lparr>t_lastError := message\<rparr>)"

definition success :: "c_api \<Rightarrow> error_code \<times> c_api" where
  "success a = (SUCCESS, a\<lparr>t_lastError := ''''\<rparr>)"

definition lastErrorMessage :: "c_api \<Rightarrow> string" where
  "lastErrorMessage a = t_lastError a"

definition int_to_string :: "int \<Rightarrow> string" where
  "int_to_string n = (if n < 0 then ''-'' @ to_string (nat (- n)) else to_string (nat n))"

section \<open>Connection\<close>

definition initConnection :: "c_config option \<Rightarrow> string \<Rightarrow> c_api \<Rightarrow> error_code \<times> c_api" where
  "initConnection config uuid a =
     (case config of
        None \<Rightarrow> fail ERROR_INVALID_ARGS ''config and config->address must be non-null and non-empty'' a
      | Some c \<Rightarrow>
          if cc_address c = None \<or> cc_address c = Some ''''
          then fail ERROR_INVALID_ARGS ''config and config->address must be non-null and non-empty'' a
          else if cc_protocol c \<noteq> 0 then fail ERROR_INVALID_ARGS ''unknown protocol value'' a
          else
            (let cfg = \<lparr>cfg_address = the (cc_address c),
                        cfg_clientId = (case cc_client_id c of Some i \<Rightarrow> i | None \<Rightarrow> ''DefaultClientName''),
                        keepAliveTime = keepalive_time_ms c, keepAliveTimeout = keepalive_timeout_ms c\<rparr>
             in success (a\<lparr>statics := cm_init cfg ProtocolZmq uuid (statics a)\<rparr>)))"

definition shutdownConnection :: "bool \<Rightarrow> c_api \<Rightarrow> c_api" where
  "shutdownConnection onProcessingThread a =
     snd (success (a\<lparr>statics := snd (cm_shutdown onProcessingThread (statics a))\<rparr>))"

definition c_isConnected :: "c_api \<Rightarrow> int" where
  "c_isConnected a = (if cm_isConnected (statics a) then 1 else 0)"

text \<open>The instance may be shut down while the call waits; \<^verbatim>\<open>after\<close> is the state in which the wait ends.\<close>

definition c_waitForConnection :: "int \<Rightarrow> conn_manager list \<Rightarrow> client_statics \<Rightarrow> c_api \<Rightarrow> error_code \<times> c_api" where
  "c_waitForConnection timeoutMs later after a =
     (if timeoutMs < 0 then fail ERROR_INVALID_ARGS ''timeoutMs must be >= 0'' a
      else if cm_waitForConnection later (statics a) then success (a\<lparr>statics := after\<rparr>)
      else if \<not> isInitialized after
      then fail ERROR_NO_CONNECTION ''initConnection has not been called'' (a\<lparr>statics := after\<rparr>)
      else fail ERROR_TIMEOUT (''not connected after '' @ int_to_string timeoutMs @ '' ms'') (a\<lparr>statics := after\<rparr>))"

section \<open>Sending\<close>

text \<open>The common shape: a call of the library, and the failure it is reported as.\<close>

definition finish :: "error_code \<Rightarrow> string \<Rightarrow> bool \<times> client_statics \<Rightarrow> c_api \<Rightarrow> error_code \<times> c_api" where
  "finish code message r a =
     (if fst r then success (a\<lparr>statics := snd r\<rparr>) else fail code message (a\<lparr>statics := snd r\<rparr>))"

definition c_sendMessage :: "string option \<Rightarrow> string option \<Rightarrow> c_api \<Rightarrow> error_code \<times> c_api" where
  "c_sendMessage topic_p text_p a =
     (case (topic_p, text_p) of
        (Some t, Some text) \<Rightarrow> finish ERROR_NO_CONNECTION ''no active connection'' (cm_sendMessage t text (statics a)) a
      | _ \<Rightarrow> fail ERROR_INVALID_ARGS ''topic and text must be non-null'' a)"

definition c_sendData :: "string option \<Rightarrow> string option \<Rightarrow> int \<Rightarrow> c_api \<Rightarrow> error_code \<times> c_api" where
  "c_sendData topic_p data_p len a =
     (case (topic_p, data_p) of
        (Some t, Some d) \<Rightarrow>
          if len < 0 then fail ERROR_INVALID_ARGS ''topic and data must be non-null and len >= 0'' a
          else finish ERROR_NO_CONNECTION ''no active connection'' (cm_sendMessage t (take (nat len) d) (statics a)) a
      | _ \<Rightarrow> fail ERROR_INVALID_ARGS ''topic and data must be non-null and len >= 0'' a)"

definition sendDataWithReply :: "string option \<Rightarrow> string option \<Rightarrow> int \<Rightarrow> string option \<Rightarrow> c_api \<Rightarrow> error_code \<times> c_api" where
  "sendDataWithReply topic_p data_p len reply_p a =
     (case (topic_p, data_p, reply_p) of
        (Some t, Some d, Some replyTopic) \<Rightarrow>
          if len < 0 then fail ERROR_INVALID_ARGS ''topic, data and replyTopic must be non-null and len >= 0'' a
          else
            (let (ok, s) = sendEncodedWithReply t (take (nat len) d) replyTopic (statics a)
             in if ok then success (a\<lparr>statics := s\<rparr>)
                else if \<not> isInitialized s then fail ERROR_NO_CONNECTION ''no active connection'' (a\<lparr>statics := s\<rparr>)
                else fail ERROR_INVALID_ARGS ''reply topic must be 1-512 bytes and outside the reserved __KEY__ namespace''
                       (a\<lparr>statics := s\<rparr>))
      | _ \<Rightarrow> fail ERROR_INVALID_ARGS ''topic, data and replyTopic must be non-null and len >= 0'' a)"

text \<open>What the call leaves in \<^verbatim>\<open>outBuffer\<close> and \<^verbatim>\<open>outLen\<close>, where it writes them.\<close>

definition c_makeReplyTopic ::
  "string option \<Rightarrow> bool \<Rightarrow> int \<Rightarrow> bool \<Rightarrow> string \<Rightarrow> c_api \<Rightarrow> (error_code \<times> c_api) \<times> string option \<times> int option" where
  "c_makeReplyTopic topic_p hasBuffer outBufferCap hasOutLen uuid a =
     (case topic_p of
        Some requestTopic \<Rightarrow>
          if \<not> hasBuffer \<or> outBufferCap \<le> 0 \<or> \<not> hasOutLen
          then (fail ERROR_INVALID_ARGS ''requestTopic, outBuffer and outLen must be non-null and outBufferCap > 0'' a, None, None)
          else
            (let t = makeReplyTopic requestTopic uuid;
                 outLen = int (length t) + 1
             in if outLen > outBufferCap
                then (fail ERROR_BUFFER_TOO_SMALL ''reply topic does not fit in the supplied buffer'' a, None, Some outLen)
                else (success a, Some (t @ [CHR 0x00]), Some outLen))
      | None \<Rightarrow> (fail ERROR_INVALID_ARGS ''requestTopic, outBuffer and outLen must be non-null and outBufferCap > 0'' a, None, None))"

definition c_setCluster :: "string option \<Rightarrow> c_api \<Rightarrow> error_code \<times> c_api" where
  "c_setCluster name_p a =
     (case name_p of
        None \<Rightarrow> fail ERROR_INVALID_ARGS ''name must be non-null'' a
      | Some name \<Rightarrow>
          if \<not> isValidClusterName name then fail ERROR_INVALID_ARGS (''cluster name must be 1-64 bytes without '' @ [CHR 0x27, CHR ''|'', CHR 0x27]) a
          else finish ERROR_NO_CONNECTION ''no active connection'' (cm_setCluster name (statics a)) a)"

definition c_replyToSender :: "string option \<Rightarrow> int \<Rightarrow> c_api \<Rightarrow> error_code \<times> c_api" where
  "c_replyToSender data_p len a =
     (case data_p of
        None \<Rightarrow> fail ERROR_INVALID_ARGS ''data must be non-null and len >= 0'' a
      | Some d \<Rightarrow>
          if len < 0 then fail ERROR_INVALID_ARGS ''data must be non-null and len >= 0'' a
          else finish ERROR_NO_CONNECTION ''no active connection (or not inside a request handler)''
                 (replyToSenderEncoded (take (nat len) d) (statics a)) a)"

section \<open>Requests\<close>

text \<open>The whole call. \<^verbatim>\<open>meanwhile\<close> is what the other threads do to the instance while the call waits, \<^verbatim>\<open>replies\<close> the
  replies its handler is given in that time.\<close>

definition c_sendRequest ::
  "bool \<Rightarrow> string \<Rightarrow> nat \<Rightarrow> nat \<Rightarrow> (conn_manager \<Rightarrow> conn_manager) \<Rightarrow> string list \<Rightarrow>
   string option \<Rightarrow> string option \<Rightarrow> int \<Rightarrow> bool \<Rightarrow> int \<Rightarrow> bool \<Rightarrow> int \<Rightarrow> c_api \<Rightarrow>
   (error_code \<times> c_api) \<times> string option \<times> int option" where
  "c_sendRequest onProcessingThread uuid f p meanwhile replies topic_p payload_p payloadLen hasBuffer outBufferCap hasOutLen
     timeoutMs a =
     (let bad = (fail ERROR_INVALID_ARGS
                   ''topic, payload, outBuffer and outLen must be non-null; lengths must be >= 0'' a, None, None)
      in case (topic_p, payload_p) of
           (Some t, Some pl) \<Rightarrow>
             if \<not> hasBuffer \<or> \<not> hasOutLen \<or> payloadLen < 0 \<or> outBufferCap < 0 then bad
             else if \<not> cm_isConnected (statics a) then (fail ERROR_NO_CONNECTION ''not connected to a broker'' a, None, None)
             else
               (let (sent, s1) = with_instance (request_begin onProcessingThread t (take (nat payloadLen) pl) uuid f p) (statics a);
                    a1 = a\<lparr>statics := s1\<rparr>;
                    late = (\<lambda>a'. (fail ERROR_TIMEOUT (''no reply on '' @ [CHR 0x27] @ t @ [CHR 0x27] @ '' within '' @
                                     int_to_string timeoutMs @ '' ms'') a', None, None))
                in if \<not> sent then late a1
                   else
                     (let (response, cm2) = request_end t uuid (fold set_promise replies None) p (meanwhile (the (s_instance s1)));
                          a2 = a1\<lparr>statics := s1\<lparr>s_instance := Some cm2\<rparr>\<rparr>
                      in case response of
                           None \<Rightarrow> late a2
                         | Some r \<Rightarrow>
                             if int (length r) > outBufferCap
                             then (fail ERROR_BUFFER_TOO_SMALL (''response needs '' @ to_string (length r) @
                                     '' bytes but the buffer capacity is '' @ int_to_string outBufferCap) a2, None, Some (int (length r)))
                             else (success a2, Some r, Some (int (length r)))))
         | _ \<Rightarrow> bad)"

section \<open>Callbacks and logging\<close>

text \<open>A callback is the number of its function; \<^verbatim>\<open>userData\<close> is the identity of the registration.\<close>

definition registerCallbackScoped :: "string option \<Rightarrow> nat option \<Rightarrow> nat \<Rightarrow> int \<Rightarrow> c_api \<Rightarrow> c_api" where
  "registerCallbackScoped topic_p callback userData scp a =
     (case (topic_p, callback) of
        (Some t, Some f) \<Rightarrow>
          (let scopeByte = char_of (nat (scp mod 256))
           in snd (success (a\<lparr>statics := registerInternal t (Some f) userData (decodeSubscribeScope [scopeByte]) (statics a)\<rparr>)))
      | _ \<Rightarrow> snd (fail ERROR_INVALID_ARGS ''topic and callback must be non-null'' a))"

definition c_registerCallback :: "string option \<Rightarrow> nat option \<Rightarrow> nat \<Rightarrow> c_api \<Rightarrow> c_api" where
  "c_registerCallback topic_p callback userData a = registerCallbackScoped topic_p callback userData 3 a"

definition c_unregisterCallback :: "string option \<Rightarrow> nat \<Rightarrow> c_api \<Rightarrow> c_api" where
  "c_unregisterCallback topic_p userData a =
     (case topic_p of
        None \<Rightarrow> snd (fail ERROR_INVALID_ARGS ''topic must be non-null'' a)
      | Some t \<Rightarrow> snd (success (a\<lparr>statics := cm_unregisterCallback t userData (statics a)\<rparr>)))"

definition setLogLevel :: "int \<Rightarrow> c_api \<Rightarrow> c_api" where
  "setLogLevel level a =
     (if level < 0 \<or> level > 3
      then snd (fail ERROR_INVALID_ARGS ''level must be between WISP_LOG_DEBUG (0) and WISP_LOG_ERROR (3)'' a)
      else snd (success (a\<lparr>api_logger := setMinLevel ([Debug, Info, Warning, Error] ! nat level) (api_logger a)\<rparr>)))"

definition setLogHandler :: "nat option \<Rightarrow> c_api \<Rightarrow> c_api" where
  "setLogHandler callback a = snd (success (a\<lparr>api_logger := setHandler callback (api_logger a)\<rparr>))"

section \<open>Outcomes\<close>

lemmas api_defs = fail_def success_def finish_def

text \<open>The codes of a send: bad pointers and lengths first, then whether the library took the message.\<close>

definition send_outcome :: "bool \<Rightarrow> bool \<Rightarrow> error_code" where
  "send_outcome args taken = (if \<not> args then ERROR_INVALID_ARGS else if taken then SUCCESS else ERROR_NO_CONNECTION)"

lemma sendMessage_outcome:
  "fst (c_sendMessage tp xp a) = send_outcome (tp \<noteq> None \<and> xp \<noteq> None) (fst (cm_sendMessage (the tp) (the xp) (statics a)))"
  by (auto simp: c_sendMessage_def api_defs send_outcome_def split: option.splits)

lemma sendData_outcome:
  "fst (c_sendData tp dp n a) =
     send_outcome (tp \<noteq> None \<and> dp \<noteq> None \<and> 0 \<le> n) (fst (cm_sendMessage (the tp) (take (nat n) (the dp)) (statics a)))"
  by (auto simp: c_sendData_def api_defs send_outcome_def split: option.splits)

text \<open>Every entry point leaves an empty error exactly when it succeeds.\<close>

lemma error_message_iff:
  "t_lastError (snd (c_sendMessage tp xp a)) = [] \<longleftrightarrow> fst (c_sendMessage tp xp a) = SUCCESS"
  "t_lastError (snd (c_sendData tp dp n a)) = [] \<longleftrightarrow> fst (c_sendData tp dp n a) = SUCCESS"
  "t_lastError (snd (sendDataWithReply tp dp n rp a)) = [] \<longleftrightarrow> fst (sendDataWithReply tp dp n rp a) = SUCCESS"
  "t_lastError (snd (c_setCluster np a)) = [] \<longleftrightarrow> fst (c_setCluster np a) = SUCCESS"
  "t_lastError (snd (c_replyToSender dp n a)) = [] \<longleftrightarrow> fst (c_replyToSender dp n a) = SUCCESS"
  "t_lastError (snd (initConnection c u a)) = [] \<longleftrightarrow> fst (initConnection c u a) = SUCCESS"
  "t_lastError (snd (c_waitForConnection ms later after a)) = [] \<longleftrightarrow> fst (c_waitForConnection ms later after a) = SUCCESS"
  by (auto simp: c_sendMessage_def c_sendData_def sendDataWithReply_def c_setCluster_def c_replyToSender_def initConnection_def
      c_waitForConnection_def api_defs Let_def split: option.splits prod.splits)

lemma sendRequest_outcome:
  assumes "s_instance (statics a) = Some cm" and "0 \<le> n" and "0 \<le> cap"
    and "request_begin pt t (take (nat n) pl) uuid f p cm = (sent, cm1)"
  shows "c_sendRequest pt uuid f p meanwhile replies (Some t) (Some pl) n True cap True ms a =
    (if \<not> m_connected cm then (fail ERROR_NO_CONNECTION ''not connected to a broker'' a, None, None)
     else
       (let late = fail ERROR_TIMEOUT (''no reply on '' @ [CHR 0x27] @ t @ [CHR 0x27] @ '' within '' @ int_to_string ms @ '' ms'');
            after = (\<lambda>cm'. a\<lparr>statics := (statics a)\<lparr>s_instance := Some cm'\<rparr>\<rparr>);
            cm2 = snd (request_end t uuid (fold set_promise replies None) p (meanwhile cm1))
        in if \<not> sent then (late (after cm1), None, None)
           else case replies of
              [] \<Rightarrow> (late (after cm2), None, None)
            | r # _ \<Rightarrow>
                if int (length r) \<le> cap then (success (after cm2), Some r, Some (int (length r)))
                else (fail ERROR_BUFFER_TOO_SMALL (''response needs '' @ to_string (length r) @
                        '' bytes but the buffer capacity is '' @ int_to_string cap) (after cm2), None, Some (int (length r)))))"
  using assms
  by (auto simp: c_sendRequest_def cm_isConnected_def with_instance_def request_end_def Let_def first_promise split: list.splits)


definition demo_api :: "bool \<Rightarrow> c_api" where
  "demo_api con =
     \<lparr>statics = \<lparr>s_instance = Some (demo_manager con [] 0 [] 0 []), s_pendingMsgCallbacks = []\<rparr>,
      api_logger = new_logger None, t_lastError = ''''\<rparr>"


section \<open>Where the codes differ from the interface's description\<close>

text \<open>A cluster change asked for while the client is offline succeeds: the control message is
  queued and the call returns \<^verbatim>\<open>SUCCESS\<close>.\<close>

lemma setCluster_offline:
  assumes "s_instance (statics a) = Some cm" and "\<not> m_connected cm" and "has_room cm" and "isValidClusterName name"
  shows "\<exists>cm'. c_setCluster (Some name) a =
      (SUCCESS, a\<lparr>statics := (statics a)\<lparr>s_instance := Some cm'\<rparr>, t_lastError := ''''\<rparr>) \<and>
    \<not> m_connected cm' \<and> control_queue cm' = control_queue cm @ [data_envelope cm SET_CLUSTER name '''']"
proof -
  let ?e = "data_envelope cm SET_CLUSTER name []"
  have "fst (sendRawEnvelope ?e cm)" "control_queue (snd (sendRawEnvelope ?e cm)) = control_queue cm @ [?e]"
    using send_control_taken[OF assms(3), of ?e] by (simp_all add: isControlMessage_def)
  then show ?thesis
    using assms(1,2,4)
    by (intro exI[of _ "snd (sendRawEnvelope ?e cm)"])
      (simp add: c_setCluster_def api_defs cm_setCluster_def cm_sendMessage_def with_instance_def sendDataInternal_def case_prod_beta)
qed

text \<open>A full send queue is reported as a bad reply topic.\<close>

lemma reply_queue_full:
  assumes "s_instance (statics a) = Some cm" and "m_pWorker cm = Some w"
    and "m_maxSize (m_outboundQueue w) \<le> length (m_queue (m_outboundQueue w))" and "\<not> m_stop (m_outboundQueue w)"
    and "\<not> isControlMessage t" and "r \<noteq> []" and "\<not> isReservedKey r" and "length r \<le> MAX_TOPIC_LENGTH_BYTES" and "0 \<le> n"
  shows "fst (sendDataWithReply (Some t) (Some d) n (Some r) a) = ERROR_INVALID_ARGS"
  using assms by (simp add: sendDataWithReply_def sendEncodedWithReply_def with_instance_def sendRawEnvelope_def writeMessage_def
      enqueue_def queue_ops isInitialized_def api_defs)

end
