(* ===== verification/Typed_Messages.thy ===== *)
theory Typed_Messages
  imports Connection_Dispatch
begin

text \<open>The typed interface of the client library, the templates of \<^verbatim>\<open>common/connectionmanager.h\<close>: values are encoded on the way
  to the byte-level functions and decoded before they reach a handler.\<close>

section \<open>Operations\<close>

definition sendMessage_typed :: "'m payload_kind \<Rightarrow> string \<Rightarrow> 'm \<Rightarrow> client_statics \<Rightarrow> bool \<times> client_statics" where
  "sendMessage_typed K k v s = cm_sendMessage k (encodePayload K v) s"

definition sendMessage_typed_reply :: "'m payload_kind \<Rightarrow> string \<Rightarrow> 'm \<Rightarrow> string \<Rightarrow> client_statics \<Rightarrow> bool \<times> client_statics" where
  "sendMessage_typed_reply K k v replyTopic s = sendEncodedWithReply k (encodePayload K v) replyTopic s"

definition replyToSender_typed :: "'m payload_kind \<Rightarrow> 'm \<Rightarrow> client_statics \<Rightarrow> bool \<times> client_statics" where
  "replyToSender_typed K v s = replyToSenderEncoded (encodePayload K v) s"

text \<open>The function registered for a typed callback: None is the payload that does not decode, which is logged.\<close>

definition typed_handler :: "'m payload_kind \<Rightarrow> ('m \<Rightarrow> 'r) \<Rightarrow> string \<Rightarrow> 'r option" where
  "typed_handler K func raw = (case decodePayload K raw of Some v \<Rightarrow> Some (func v) | None \<Rightarrow> None)"

text \<open>The function registered for a callback without argument.\<close>

definition void_handler :: "(unit \<Rightarrow> 'r) option \<Rightarrow> string \<Rightarrow> 'r option" where
  "void_handler callback raw = (case callback of Some f \<Rightarrow> Some (f ()) | None \<Rightarrow> None)"

text \<open>The typed \<^verbatim>\<open>sendRequest\<close>: the request it starts, and what it makes of the response the wait gave.\<close>

definition sendRequest_typed ::
  "'q payload_kind \<Rightarrow> bool \<Rightarrow> string \<Rightarrow> 'q \<Rightarrow> string \<Rightarrow> nat \<Rightarrow> nat \<Rightarrow> conn_manager \<Rightarrow> bool \<times> conn_manager" where
  "sendRequest_typed K onProcessingThread requestTopic v uuid f p cm =
     request_begin onProcessingThread requestTopic (encodePayload K v) uuid f p cm"

definition receive_typed :: "'r payload_kind \<Rightarrow> string option \<Rightarrow> 'r option" where
  "receive_typed K rawResponse = (case rawResponse of None \<Rightarrow> None | Some raw \<Rightarrow> decodePayload K raw)"

section \<open>Values survive\<close>

text \<open>What the parts outside the library promise of a value: the serializer, protobuf's parser and the string conversion
  invert their other half, and a struct is as long as its bytes.\<close>

fun payload_ok :: "'m payload_kind \<Rightarrow> 'm \<Rightarrow> bool" where
  "payload_ok (Serialized ser des) v \<longleftrightarrow> des (ser v) = Some v"
| "payload_ok (ProtobufKind T) v \<longleftrightarrow>
     ParseFromArray T (SerializeAsString T v) = Some v \<and> length (TYPE_URL_PREFIX @ GetTypeName T) < 2 ^ 64 \<and>
     length (SerializeAsString T v) < 2 ^ 64"
| "payload_ok (PlainString to_s of_s) v \<longleftrightarrow> of_s (to_s v) = v"
| "payload_ok (Trivial n to_b of_b) v \<longleftrightarrow> length (to_b v) = n \<and> of_b (to_b v) = v"

lemma decode_encodePayload: "payload_ok K v \<Longrightarrow> decodePayload K (encodePayload K v) = Some v"
  by (cases K) (auto simp: any_roundtrip)

text \<open>A handler for another protobuf type never sees the bytes.\<close>

lemma decode_other_type:
  "payload_ok (ProtobufKind T) v \<Longrightarrow> GetTypeName T' \<noteq> GetTypeName T \<Longrightarrow>
   decodePayload (ProtobufKind T') (encodePayload (ProtobufKind T) v) = None"
  by (simp add: any_roundtrip)

text \<open>C40. A value published through the typed interface reaches typed handlers as the same value: the one envelope
  queued for it, with whatever the brokers stamp on its header apart from topic and key, makes every handler of the topic
  and of the wildcard whose scope accepts its origin run with exactly that value, once and in order; a handler for
  another protobuf type is not run at all.\<close>

theorem typed_delivery:
  assumes "payload_ok K v" and "\<not> isControlMessage k"
    and "sendMessage_typed K k v \<lparr>s_instance = Some cm, s_pendingMsgCallbacks = []\<rparr> = (True, \<lparr>s_instance = Some cm1, s_pendingMsgCallbacks = []\<rparr>)"
    and "\<forall>c cm. t_currentReplyTopic (user c cm) = t_currentReplyTopic cm"
  shows "\<exists>e. outbound_queue cm1 = outbound_queue cm @ [e] \<and> payload e = encodePayload K v \<and> topic (header e) = k \<and>
    (\<forall>e' cm'. payload e' = payload e \<longrightarrow> topic (header e') = k \<longrightarrow>
       map (\<lambda>(f, raw, _). typed_handler K (func f) raw) (fst (handleMessage user e' cm')) =
         map (\<lambda>f. Some (func f v))
           (accepting (is_local e' cm')
             ((case map_of (m_msgHandlers cm') k of None \<Rightarrow> [] | Some l \<Rightarrow> l) @
              (if k = WILDCARD_TOPIC then [] else case map_of (m_msgHandlers cm') WILDCARD_TOPIC of None \<Rightarrow> [] | Some l \<Rightarrow> l))) \<and>
       (\<forall>T T'. K = ProtobufKind T \<longrightarrow> GetTypeName T' \<noteq> GetTypeName T \<longrightarrow>
          (\<forall>c \<in> set (fst (handleMessage user e' cm')). typed_handler (ProtobufKind T') (func (fst c)) (fst (snd c)) = None)))"
proof -
  let ?e = "data_envelope cm k (encodePayload K v) ''''"
  have e: "payload ?e = encodePayload K v" "topic (header ?e) = k" "handler_key (header ?e) = k"
    by (simp_all add: data_envelope_def)
  have "sendRawEnvelope ?e cm = (True, cm1)"
    using assms(3) by (auto simp: sendMessage_typed_def cm_sendMessage_def with_instance_def sendDataInternal_def split: prod.splits)
  then have "outbound_queue cm1 = outbound_queue cm @ [?e]" using send_outbound[of ?e cm] assms(2) e(3) by simp
  moreover have "typed_handler K g (encodePayload K v) = Some (g v)" for g :: "'a \<Rightarrow> 'b"
    using decode_encodePayload[OF assms(1)] by (simp add: typed_handler_def)
  moreover have "typed_handler (ProtobufKind T') g (encodePayload K v) = None" if "K = ProtobufKind T" "GetTypeName T' \<noteq> GetTypeName T"
    for T T' and g :: "'a \<Rightarrow> 'b"
    using decode_other_type[of T v T'] assms(1) that by (simp add: typed_handler_def)
  ultimately show ?thesis
    using handleMessage_calls[OF assms(4)] e(1,2) by (intro exI[of _ ?e]) auto
qed

lemma demo_send_typed:
  "\<exists>cm1. sendMessage_typed (PlainString id id) ''u'' ''x''
     \<lparr>s_instance = Some (new_manager demo_client ProtocolZmq ''w''), s_pendingMsgCallbacks = []\<rparr> =
     (True, \<lparr>s_instance = Some cm1, s_pendingMsgCallbacks = []\<rparr>)"
  by (simp add: sendMessage_typed_def cm_sendMessage_def with_instance_def sendDataInternal_def sendRawEnvelope_def data_envelope_def
      new_manager_def Let_def isControlMessage_def isSystemPacket_def key_defs writeMessage_def worker_start_def new_worker_def enqueue_def
      queue_ops new_queue_def default_max_size_def)

theorem typed_delivery_witness:
  "\<exists>cm1 e. sendMessage_typed (PlainString id id) ''u'' ''x''
       \<lparr>s_instance = Some (new_manager demo_client ProtocolZmq ''w''), s_pendingMsgCallbacks = []\<rparr> =
       (True, \<lparr>s_instance = Some cm1, s_pendingMsgCallbacks = []\<rparr>) \<and>
     outbound_queue cm1 = outbound_queue (new_manager demo_client ProtocolZmq ''w'') @ [e] \<and>
     map (\<lambda>(f, raw, _). typed_handler (PlainString id id) (Pair f) raw) (fst (handleMessage (\<lambda>_ cm. cm) demo_inbound (cs_mgr demo_run))) =
       [Some (2, ''x'')]"
proof -
  let ?cm = "new_manager demo_client ProtocolZmq ''w''"
  obtain cm1 where s: "sendMessage_typed (PlainString id id) ''u'' ''x'' \<lparr>s_instance = Some ?cm, s_pendingMsgCallbacks = []\<rparr> =
      (True, \<lparr>s_instance = Some cm1, s_pendingMsgCallbacks = []\<rparr>)" using demo_send_typed by blast
  have ok: "payload_ok (PlainString id id) ''x''" "\<not> isControlMessage ''u''" by (simp_all add: isControlMessage_def isSystemPacket_def key_defs)
  have "accepting (is_local demo_inbound (cs_mgr demo_run))
      ((case map_of (m_msgHandlers (cs_mgr demo_run)) ''u'' of None \<Rightarrow> [] | Some l \<Rightarrow> l) @
       (if ''u'' = WILDCARD_TOPIC then [] else case map_of (m_msgHandlers (cs_mgr demo_run)) WILDCARD_TOPIC of None \<Rightarrow> [] | Some l \<Rightarrow> l)) = [2]"
    unfolding demo_client_run
    by (simp add: demo_inbound_def empty_header_def accepting_def is_local_def demo_manager_def demo_worker_def new_worker_def
        WILDCARD_TOPIC_def)
  moreover have "payload demo_inbound = ''x''" "topic (header demo_inbound) = ''u''" by (simp_all add: demo_inbound_def)
  ultimately show ?thesis
    using typed_delivery[OF ok s, of "\<lambda>_ cm. cm" Pair] s by fastforce
qed

end
