(* ===== verification/Callback_Table.thy ===== *)
theory Callback_Table
  imports Connection_Run
begin

text \<open>The contract between the client library and the adapters built on it: which functions are registered for a topic
  under which instance, as a locale, and its interpretation on the library's static functions.\<close>

section \<open>The contract\<close>

text \<open>What an adapter relies on: the library keeps, for a topic and an instance, the registrations made and not taken back.\<close>

locale callback_table =
  fixes register :: "string \<Rightarrow> nat option \<Rightarrow> nat \<Rightarrow> origin \<Rightarrow> 's \<Rightarrow> 's"
    and unregister :: "string \<Rightarrow> nat \<Rightarrow> 's \<Rightarrow> 's"
    and table :: "'s \<Rightarrow> string \<Rightarrow> nat \<Rightarrow> (nat option \<times> origin) list"
  assumes table_register: "table (register k f i scp s) k' i' = table s k' i' @ (if k' = k \<and> i' = i then [(f, scp)] else [])"
    and table_unregister: "table (unregister k i s) k' i' = (if k' = k \<and> i' = i then [] else table s k' i')"
begin

definition tracks :: "nat \<Rightarrow> (string \<Rightarrow> nat) \<Rightarrow> string list \<Rightarrow> 's \<Rightarrow> bool" where
  "tracks i func ts s \<longleftrightarrow> (\<forall>k. if k \<in> set ts then map fst (table s k i) = [Some (func k)] else table s k i = [])"

lemma tracks_register:
  "tracks i func ts s \<Longrightarrow> k \<notin> set ts \<Longrightarrow> set ts' = insert k (set ts) \<Longrightarrow> tracks i func ts' (register k (Some (func k)) i scp s)"
  by (simp add: tracks_def table_register)

lemma tracks_unregister: "tracks i func ts s \<Longrightarrow> set ts' = set ts - {k} \<Longrightarrow> tracks i func ts' (unregister k i s)"
  by (simp add: tracks_def table_unregister)

lemma unregister_all: "table (fold (\<lambda>t. unregister t i) ts s) k i' = (if k \<in> set ts \<and> i' = i then [] else table s k i')"
  by (induction ts arbitrary: s) (simp_all add: table_unregister)

lemma tracks_unregister_all: "tracks i func ts s \<Longrightarrow> tracks i func [] (fold (\<lambda>t. unregister t i) ts s)"
  by (auto simp: tracks_def unregister_all)

lemma tracks_other:
  "j \<noteq> i \<Longrightarrow> tracks i func ts (register k f j scp s) = tracks i func ts s"
  "j \<noteq> i \<Longrightarrow> tracks i func ts (unregister k j s) = tracks i func ts s"
  by (simp_all add: tracks_def table_register table_unregister)

end

section \<open>The library keeps it\<close>

definition handlers_of :: "conn_manager \<Rightarrow> string \<Rightarrow> nat \<Rightarrow> (nat option \<times> origin) list" where
  "handlers_of cm k i =
     map (\<lambda>e. (ce_func e, ce_scope e))
       (filter (\<lambda>e. ce_instance e = i) (case map_of (m_msgHandlers cm) k of None \<Rightarrow> [] | Some l \<Rightarrow> l))"

definition callbacks_of :: "client_statics \<Rightarrow> string \<Rightarrow> nat \<Rightarrow> (nat option \<times> origin) list" where
  "callbacks_of s k i =
     (case s_instance s of
        Some cm \<Rightarrow> handlers_of cm k i
      | None \<Rightarrow> map (\<lambda>(_, f, _, scp). (f, scp)) (filter (\<lambda>(k', _, i', _). k' = k \<and> i' = i) (s_pendingMsgCallbacks s)))"

lemma handlers_of_register:
  "handlers_of (performRegistration k f i scp cm) k' i' = handlers_of cm k' i' @ (if k' = k \<and> i' = i then [(f, scp)] else [])"
  by (auto simp: handlers_of_def performRegistration_eq add_handler_def Let_def omap_simps)

lemma handlers_of_unregister:
  "handlers_of (performUnregistration k i cm) k' i' = (if k' = k \<and> i' = i then [] else handlers_of cm k' i')"
proof (cases "map_of (m_msgHandlers cm) k")
  case None
  then show ?thesis by (simp add: performUnregistration_none handlers_of_def)
next
  case (Some l)
  have "m_msgHandlers (performUnregistration k i cm) =
      (if kept i l = [] then AList.delete k (m_msgHandlers cm) else omap_put k (kept i l) (m_msgHandlers cm))"
    by (simp add: performUnregistration_eq[OF Some] drop_handlers_def Let_def)
  then show ?thesis
    using Some by (auto simp: handlers_of_def omap_simps delete_conv' filter_empty_conv filter_filter intro!: arg_cong[where f = "map _"] filter_cong)
qed

interpretation cb: callback_table registerInternal cm_unregisterCallback callbacks_of
proof
  show "callbacks_of (registerInternal k f i scp s) k' i' = callbacks_of s k' i' @ (if k' = k \<and> i' = i then [(f, scp)] else [])" for k f i scp s k' i'
    by (auto simp: callbacks_of_def registerInternal_def handlers_of_register split: option.splits)
  have "filter (\<lambda>x. P x \<and> Q x) xs = filter P (filter Q xs)" for P Q and xs :: "(string \<times> nat option \<times> nat \<times> origin) list"
    by (simp add: filter_filter conj_commute)
  show "callbacks_of (cm_unregisterCallback k i s) k' i' = (if k' = k \<and> i' = i then [] else callbacks_of s k' i')" for k i s k' i'
    by (auto simp: callbacks_of_def cm_unregisterCallback_def handlers_of_unregister filter_filter case_prod_beta split: option.splits
        intro!: arg_cong[where f = "map _"] filter_cong)
qed

end
