(* ===== verification/Message_Poller.thy ===== *)
theory Message_Poller
  imports Callback_Table
begin

text \<open>The adapter for programs that poll, \<^verbatim>\<open>bindings/polling/wisppoller.h\<close>: its registrations with the client library, and
  the bounded buffer between the delivering thread and the polling one. Its functions take the mutex twice or call
  the library outside it, so each is the composition of the steps another thread can come between.\<close>

section \<open>State and steps\<close>

record polled_message =
  pm_topic :: string
  pm_payload :: string

text \<open>\<^verbatim>\<open>mp_this\<close> is the address of the poller, the instance its registrations carry; \<^verbatim>\<open>mp_func\<close> numbers the function
  registered for a topic.\<close>

record message_poller =
  mp_this :: nat
  mp_func :: "string \<Rightarrow> nat"
  mp_capacity :: nat
  mp_buffer :: "polled_message list"
  mp_topics :: "string list"
  mp_dropped :: u64

definition new_poller :: "nat \<Rightarrow> (string \<Rightarrow> nat) \<Rightarrow> nat \<Rightarrow> message_poller" where
  "new_poller this func capacity =
     \<lparr>mp_this = this, mp_func = func, mp_capacity = (if capacity > 0 then capacity else 1), mp_buffer = [], mp_topics = [],
      mp_dropped = 0\<rparr>"

definition subscribe_note :: "string \<Rightarrow> message_poller \<Rightarrow> bool \<times> message_poller" where
  "subscribe_note t p = (if t \<in> set (mp_topics p) then (False, p) else (True, p\<lparr>mp_topics := oset_insert t (mp_topics p)\<rparr>))"

definition subscribe_register :: "string \<Rightarrow> origin \<Rightarrow> message_poller \<Rightarrow> client_statics \<Rightarrow> client_statics" where
  "subscribe_register t scp p s = registerInternal t (Some (mp_func p t)) (mp_this p) scp s"

definition poller_subscribe :: "string \<Rightarrow> origin \<Rightarrow> message_poller \<times> client_statics \<Rightarrow> message_poller \<times> client_statics" where
  "poller_subscribe t scp ps =
     (let (p, s) = ps; (inserted, p') = subscribe_note t p
      in if \<not> inserted then (p', s) else (p', subscribe_register t scp p' s))"

definition unsubscribe_note :: "string \<Rightarrow> message_poller \<Rightarrow> bool \<times> message_poller" where
  "unsubscribe_note t p = (if t \<in> set (mp_topics p) then (True, p\<lparr>mp_topics := oset_erase t (mp_topics p)\<rparr>) else (False, p))"

definition poller_unsubscribe :: "string \<Rightarrow> message_poller \<times> client_statics \<Rightarrow> message_poller \<times> client_statics" where
  "poller_unsubscribe t ps =
     (let (p, s) = ps; (erased, p') = unsubscribe_note t p
      in if \<not> erased then (p', s) else (p', cm_unregisterCallback t (mp_this p') s))"

definition poller_unsubscribeAll :: "message_poller \<times> client_statics \<Rightarrow> message_poller \<times> client_statics" where
  "poller_unsubscribeAll ps =
     (let (p, s) = ps
      in (p\<lparr>mp_topics := []\<rparr>, fold (\<lambda>t. cm_unregisterCallback t (mp_this p)) (mp_topics p) s))"

definition poller_poll :: "message_poller \<Rightarrow> polled_message list \<times> message_poller" where
  "poller_poll p = (mp_buffer p, p\<lparr>mp_buffer := []\<rparr>)"

definition poller_enqueue :: "polled_message \<Rightarrow> message_poller \<Rightarrow> message_poller" where
  "poller_enqueue m p =
     (let p1 = (if length (mp_buffer p) \<ge> mp_capacity p
                then p\<lparr>mp_buffer := tl (mp_buffer p), mp_dropped := mp_dropped p + 1\<rparr> else p)
      in p1\<lparr>mp_buffer := mp_buffer p1 @ [m]\<rparr>)"

section \<open>The buffer\<close>

datatype buffer_act = Arrives polled_message | Polls

text \<open>Running arrivals and polls gives the batches handed over.\<close>

fun buffer_run :: "buffer_act list \<Rightarrow> message_poller \<Rightarrow> polled_message list list \<times> message_poller" where
  "buffer_run [] p = ([], p)"
| "buffer_run (Arrives m # as) p = buffer_run as (poller_enqueue m p)"
| "buffer_run (Polls # as) p = (let (batch, p1) = poller_poll p; (batches, p2) = buffer_run as p1 in (batch # batches, p2))"

definition last_of :: "nat \<Rightarrow> 'a list \<Rightarrow> 'a list" where
  "last_of n xs = drop (length xs - n) xs"

lemma last_of_snoc: "n > 0 \<Longrightarrow> last_of n (xs @ [x]) = (if length (last_of n xs) \<ge> n then tl (last_of n xs) else last_of n xs) @ [x]"
  by (auto simp: last_of_def drop_Suc[symmetric] tl_drop Suc_diff_le simp flip: drop_Suc)

definition enqueue_all :: "polled_message list \<Rightarrow> message_poller \<Rightarrow> message_poller" where
  "enqueue_all ms p = fold poller_enqueue ms p"

text \<open>After any arrivals the buffer is the newest messages that fit, and the counter has moved by the others.\<close>

lemma enqueue_all_window:
  assumes "mp_buffer p = []" and "0 < mp_capacity p"
  shows "enqueue_all ms p = p\<lparr>mp_buffer := last_of (mp_capacity p) ms, mp_dropped := mp_dropped p + of_nat (length ms - mp_capacity p)\<rparr>"
proof (induction ms rule: rev_induct)
  case Nil
  then show ?case using assms by (simp add: enqueue_all_def last_of_def)
next
  case (snoc m ms)
  have "length (last_of (mp_capacity p) ms) = min (length ms) (mp_capacity p)" by (simp add: last_of_def)
  then show ?case
    using snoc last_of_snoc[OF assms(2), of ms m]
    by (auto simp: enqueue_all_def poller_enqueue_def Let_def Suc_diff_le min_def split: if_splits)
qed

lemma buffer_run_arrivals: "buffer_run (map Arrives ms @ as) p = buffer_run as (enqueue_all ms p)"
  by (induction ms arbitrary: p) (simp_all add: enqueue_all_def)

text \<open>C34. Each poll hands over, in order, the newest messages captured since the poll before, as many as the
  buffer holds; whatever the arrivals, exactly the older ones are lost, and the counter is their number modulo 2^64.\<close>

theorem poll_batches:
  "\<exists>p. buffer_run (concat (map (\<lambda>ms. map Arrives ms @ [Polls]) segs)) (new_poller this func capacity) =
     (map (last_of (max capacity 1)) segs, p) \<and> mp_buffer p = [] \<and>
     mp_dropped p = of_nat (\<Sum>ms\<leftarrow>segs. length ms - max capacity 1)"
proof -
  let ?cap = "max capacity 1"
  have "mp_buffer p = [] \<Longrightarrow> mp_capacity p = ?cap \<Longrightarrow>
      \<exists>p'. buffer_run (concat (map (\<lambda>ms. map Arrives ms @ [Polls]) segs)) p = (map (last_of ?cap) segs, p') \<and> mp_buffer p' = [] \<and>
        mp_dropped p' = mp_dropped p + of_nat (\<Sum>ms\<leftarrow>segs. length ms - ?cap)" for p
  proof (induction segs arbitrary: p)
    case (Cons ms segs)
    let ?p = "p\<lparr>mp_dropped := mp_dropped p + of_nat (length ms - ?cap)\<rparr>"
    have e: "enqueue_all ms p = ?p\<lparr>mp_buffer := last_of ?cap ms\<rparr>"
      using enqueue_all_window[of p ms] Cons.prems by simp
    obtain p' where p': "buffer_run (concat (map (\<lambda>ms. map Arrives ms @ [Polls]) segs)) ?p = (map (last_of ?cap) segs, p')"
      "mp_buffer p' = []" "mp_dropped p' = mp_dropped ?p + of_nat (\<Sum>ms\<leftarrow>segs. length ms - ?cap)"
      using Cons.IH[of ?p] Cons.prems by auto
    have "mp_dropped p' = mp_dropped p + of_nat (length ms - ?cap + (\<Sum>ms\<leftarrow>segs. length ms - ?cap))"
      unfolding of_nat_add using p'(3) by (simp add: add.assoc)
    moreover have "?p\<lparr>mp_buffer := last_of ?cap ms, mp_buffer := []\<rparr> = ?p" using Cons.prems(1) by simp
    ultimately show ?case using p'(1,2) by (simp add: buffer_run_arrivals e poller_poll_def del: of_nat_add)
  qed simp
  moreover have "mp_buffer (new_poller this func capacity) = []" "mp_capacity (new_poller this func capacity) = ?cap"
    "mp_dropped (new_poller this func capacity) = 0"
    by (auto simp: new_poller_def)
  ultimately show ?thesis by (metis add_0)
qed

section \<open>Registrations\<close>

text \<open>What happens to a poller and the library: calls of the poller that do not overlap, and registrations of others.\<close>

datatype poller_act =
  PollerSubscribe string origin | PollerUnsubscribe string | PollerUnsubscribeAll
| OthersRegister string "nat option" nat origin | OthersUnregister string nat

fun poller_exec :: "poller_act \<Rightarrow> message_poller \<times> client_statics \<Rightarrow> message_poller \<times> client_statics" where
  "poller_exec (PollerSubscribe t scp) ps = poller_subscribe t scp ps"
| "poller_exec (PollerUnsubscribe t) ps = poller_unsubscribe t ps"
| "poller_exec PollerUnsubscribeAll ps = poller_unsubscribeAll ps"
| "poller_exec (OthersRegister t f i scp) (p, s) = (p, registerInternal t f i scp s)"
| "poller_exec (OthersUnregister t i) (p, s) = (p, cm_unregisterCallback t i s)"

fun others :: "nat \<Rightarrow> poller_act \<Rightarrow> bool" where
  "others this (OthersRegister t f i scp) \<longleftrightarrow> i \<noteq> this"
| "others this (OthersUnregister t i) \<longleftrightarrow> i \<noteq> this"
| "others this _ \<longleftrightarrow> True"

abbreviation poller_run :: "poller_act list \<Rightarrow> message_poller \<times> client_statics \<Rightarrow> message_poller \<times> client_statics" where
  "poller_run as ps \<equiv> fold poller_exec as ps"

definition poller_ok :: "nat \<Rightarrow> (string \<Rightarrow> nat) \<Rightarrow> message_poller \<times> client_statics \<Rightarrow> bool" where
  "poller_ok this func ps \<longleftrightarrow>
     mp_this (fst ps) = this \<and> mp_func (fst ps) = func \<and> oset_ok (mp_topics (fst ps)) \<and>
     cb.tracks this func (mp_topics (fst ps)) (snd ps)"

lemma poller_ok_exec:
  assumes "poller_ok this func ps" and "others this a"
  shows "poller_ok this func (poller_exec a ps)"
proof -
  obtain p s where ps: "ps = (p, s)" by (cases ps)
  show ?thesis
    using assms cb.tracks_other[of _ this func "mp_topics p"] cb.tracks_register[of this func "mp_topics p" s]
      cb.tracks_unregister[of this func "mp_topics p" s] cb.tracks_unregister_all[of this func "mp_topics p" s]
    by (cases a) (auto simp: ps poller_ok_def poller_subscribe_def poller_unsubscribe_def poller_unsubscribeAll_def
        subscribe_note_def unsubscribe_note_def subscribe_register_def Let_def split: if_splits)
qed

lemma poller_ok_run: "poller_ok this func ps \<Longrightarrow> list_all (others this) as \<Longrightarrow> poller_ok this func (poller_run as ps)"
  by (induction as arbitrary: ps) (simp_all add: poller_ok_exec)

text \<open>C35. As long as its calls do not overlap, a poller has exactly one registration with the client
  library for each of its topics and none for any other, whatever else is registered; after \<^verbatim>\<open>unsubscribeAll\<close>, and so
  when it is destroyed, the library holds no function of it.\<close>

theorem poller_registrations:
  assumes "\<forall>t. callbacks_of s t this = []" and "list_all (others this) as"
    and "poller_run as (new_poller this func capacity, s) = (p, s')"
  shows "(\<forall>t. map fst (callbacks_of s' t this) = (if t \<in> set (mp_topics p) then [Some (func t)] else [])) \<and>
    (\<forall>t. callbacks_of (snd (poller_unsubscribeAll (p, s'))) t this = [])"
proof -
  have "poller_ok this func (new_poller this func capacity, s)"
    using assms(1) by (simp add: poller_ok_def new_poller_def cb.tracks_def)
  then have ok: "poller_ok this func (p, s')" using poller_ok_run[OF _ assms(2)] assms(3) by metis
  then have "poller_ok this func (poller_unsubscribeAll (p, s'))" using poller_ok_exec[of this func _ PollerUnsubscribeAll] by simp
  then have "\<forall>t. callbacks_of (snd (poller_unsubscribeAll (p, s'))) t this = []"
    by (auto simp: poller_ok_def cb.tracks_def poller_unsubscribeAll_def)
  with ok show ?thesis by (auto simp: poller_ok_def cb.tracks_def)
qed

theorem poller_registrations_witness:
  "\<exists>p s'. poller_run [PollerSubscribe ''a'' Origin_Any, OthersRegister ''a'' (Some 3) 4 Origin_Any, PollerSubscribe ''b'' Origin_Mesh,
       PollerUnsubscribe ''a''] (new_poller 7 length 8, \<lparr>s_instance = None, s_pendingMsgCallbacks = []\<rparr>) = (p, s') \<and>
     map fst (callbacks_of s' ''b'' 7) = [Some 1] \<and> callbacks_of (snd (poller_unsubscribeAll (p, s'))) ''b'' 7 = []"
proof -
  let ?as = "[PollerSubscribe ''a'' Origin_Any, OthersRegister ''a'' (Some 3) 4 Origin_Any, PollerSubscribe ''b'' Origin_Mesh,
       PollerUnsubscribe ''a'']" and ?s = "\<lparr>s_instance = None, s_pendingMsgCallbacks = []\<rparr>"
  obtain p s' where r: "poller_run ?as (new_poller 7 length 8, ?s) = (p, s')" by fastforce
  have "mp_topics p = [''b'']"
    using r by (auto simp: new_poller_def poller_subscribe_def poller_unsubscribe_def subscribe_note_def unsubscribe_note_def
        oset_insert_def oset_erase_def insort_insert_key_def subscribe_register_def registerInternal_def)
  moreover have "list_all (others 7) ?as" "\<forall>t. callbacks_of ?s t 7 = []" by (simp_all add: callbacks_of_def)
  ultimately show ?thesis using poller_registrations[OF _ _ r] r by auto
qed

text \<open>C36. Overlapping calls break this: when another thread unsubscribes a topic between the two halves of a
  \<^verbatim>\<open>subscribe\<close>, the poller forgets the topic but its function is registered afterwards, and \<^verbatim>\<open>unsubscribeAll\<close> (the
  destructor) leaves it in the library.\<close>

theorem poller_race:
  assumes "t \<notin> set (mp_topics p)" and "oset_ok (mp_topics p)"
    and "subscribe_note t p = (True, p1)" and "poller_unsubscribe t (p1, s) = (p2, s2)"
    and "subscribe_register t scp p1 s2 = s3" and "poller_unsubscribeAll (p2, s3) = (p4, s4)"
  shows "mp_topics p4 = [] \<and> callbacks_of s4 t (mp_this p) = [(Some (mp_func p t), scp)]"
proof -
  have p1: "mp_this p1 = mp_this p" "mp_func p1 = mp_func p" "set (mp_topics p1) = insert t (set (mp_topics p))" "oset_ok (mp_topics p1)"
    using assms(1-3) by (auto simp: subscribe_note_def)
  have p2: "mp_this p2 = mp_this p" "t \<notin> set (mp_topics p2)" "s2 = cm_unregisterCallback t (mp_this p) s"
    using assms(4) p1 by (auto simp: poller_unsubscribe_def unsubscribe_note_def)
  have "callbacks_of s3 t (mp_this p) = [(Some (mp_func p t), scp)]"
    using assms(5) p1 p2(3) by (auto simp: subscribe_register_def cb.table_register cb.table_unregister)
  then show ?thesis using assms(6) p2(1,2) by (auto simp: poller_unsubscribeAll_def cb.unregister_all)
qed

theorem poller_race_witness:
  "\<exists>p1 p2 s2 s4. subscribe_note ''t'' (new_poller 7 length 8) = (True, p1) \<and>
     poller_unsubscribe ''t'' (p1, \<lparr>s_instance = None, s_pendingMsgCallbacks = []\<rparr>) = (p2, s2) \<and>
     snd (poller_unsubscribeAll (p2, subscribe_register ''t'' Origin_Any p1 s2)) = s4 \<and>
     callbacks_of s4 ''t'' 7 = [(Some 1, Origin_Any)]"
proof -
  let ?p = "new_poller 7 length 8" and ?s = "\<lparr>s_instance = None, s_pendingMsgCallbacks = []\<rparr>"
  have p: "''t'' \<notin> set (mp_topics ?p)" "oset_ok (mp_topics ?p)" by (simp_all add: new_poller_def)
  obtain p1 where p1: "subscribe_note ''t'' ?p = (True, p1)" using p(1) by (simp add: subscribe_note_def)
  obtain p2 s2 where p2: "poller_unsubscribe ''t'' (p1, ?s) = (p2, s2)" by fastforce
  obtain p4 s4 where p4: "poller_unsubscribeAll (p2, subscribe_register ''t'' Origin_Any p1 s2) = (p4, s4)" by fastforce
  from poller_race[OF p p1 p2 refl p4] p1 p2 p4 show ?thesis by (auto simp: new_poller_def)
qed

end
