(* ===== verification/Qt_Adapter.thy ===== *)
theory Qt_Adapter
  imports Callback_Table
begin

text \<open>The Qt adapter, \<^verbatim>\<open>bindings/qt/qtconnectionadapter.h\<close>. A handler belongs to a context object: what is registered with the
  library only posts a call to the thread of the context, and the destruction of the context takes the registration
  back. Of Qt the model has what the adapter relies on: the objects alive, the functions connected to the
  \<^verbatim>\<open>destroyed\<close> signal of each, and the queue of posted calls, from which the calls to an object leave with it. A
  \<^verbatim>\<open>QPointer\<close> is null exactly when its object is not alive.\<close>

section \<open>Operations\<close>

record qt_call =
  qc_context :: nat
  qc_func :: nat
  qc_payload :: string

record qt_world =
  qt_alive :: "nat list"
  qt_destroyed :: "(nat \<times> string) list"
  qt_posted :: "qt_call list"

type_synonym qt_state = "qt_world \<times> client_statics"

definition adapter_construct :: "connection_config \<Rightarrow> string \<Rightarrow> qt_state \<Rightarrow> qt_state" where
  "adapter_construct cfg uuid qs = (fst qs, cm_init cfg ProtocolZmq uuid (snd qs))"

definition adapter_destruct :: "qt_state \<Rightarrow> qt_state" where
  "adapter_destruct qs = (fst qs, snd (cm_shutdown False (snd qs)))"

definition unregisterWhenDestroyed :: "string \<Rightarrow> nat \<Rightarrow> qt_world \<Rightarrow> qt_world" where
  "unregisterWhenDestroyed k context q = q\<lparr>qt_destroyed := qt_destroyed q @ [(context, k)]\<rparr>"

definition adapter_registerCallback :: "string \<Rightarrow> nat \<Rightarrow> nat \<Rightarrow> origin \<Rightarrow> qt_state \<Rightarrow> qt_state" where
  "adapter_registerCallback k context func scp qs =
     (let (q, s) = qs
      in (unregisterWhenDestroyed k context q, registerInternal k (Some func) context scp s))"

definition adapter_unregisterCallback :: "string \<Rightarrow> nat \<Rightarrow> qt_state \<Rightarrow> qt_state" where
  "adapter_unregisterCallback k context qs = (fst qs, cm_unregisterCallback k context (snd qs))"

text \<open>The function registered with the library, as dispatch calls it with a payload.\<close>

definition adapter_invoke :: "nat \<Rightarrow> nat \<Rightarrow> string \<Rightarrow> qt_world \<Rightarrow> qt_world" where
  "adapter_invoke context func pl q =
     (if context \<in> set (qt_alive q)
      then q\<lparr>qt_posted := qt_posted q @ [\<lparr>qc_context = context, qc_func = func, qc_payload = pl\<rparr>]\<rparr> else q)"

text \<open>The context is destroyed: the connected functions run, and the calls posted to it are dropped.\<close>

definition context_destroyed :: "nat \<Rightarrow> qt_state \<Rightarrow> qt_state" where
  "context_destroyed context qs =
     (let (q, s) = qs; ks = map snd (filter (\<lambda>(c, _). c = context) (qt_destroyed q))
      in (q\<lparr>qt_alive := removeAll context (qt_alive q), qt_destroyed := filter (\<lambda>(c, _). c \<noteq> context) (qt_destroyed q),
            qt_posted := filter (\<lambda>p. qc_context p \<noteq> context) (qt_posted q)\<rparr>,
          fold (\<lambda>k. cm_unregisterCallback k context) ks s))"

section \<open>Runs\<close>

datatype qt_act =
  CreateContext nat | DestroyContext nat | RegisterSlot string nat nat origin | UnregisterSlot string nat
| DispatchSlot nat nat string | RunPosted

text \<open>Beside the state, the calls run so far, each with whether its object was alive.\<close>

fun qt_exec :: "qt_act \<Rightarrow> (qt_call \<times> bool) list \<times> qt_state \<Rightarrow> (qt_call \<times> bool) list \<times> qt_state" where
  "qt_exec (CreateContext c) (calls, q, s) = (calls, q\<lparr>qt_alive := c # qt_alive q\<rparr>, s)"
| "qt_exec (DestroyContext c) (calls, qs) = (calls, context_destroyed c qs)"
| "qt_exec (RegisterSlot k c f scp) (calls, qs) =
     (if c \<in> set (qt_alive (fst qs)) then (calls, adapter_registerCallback k c f scp qs) else (calls, qs))"
| "qt_exec (UnregisterSlot k c) (calls, qs) = (calls, adapter_unregisterCallback k c qs)"
| "qt_exec (DispatchSlot c f pl) (calls, q, s) = (calls, adapter_invoke c f pl q, s)"
| "qt_exec RunPosted (calls, q, s) =
     (case qt_posted q of
        [] \<Rightarrow> (calls, q, s)
      | p # ps \<Rightarrow> (calls @ [(p, qc_context p \<in> set (qt_alive q))], q\<lparr>qt_posted := ps\<rparr>, s))"

text \<open>What holds throughout: calls are posted to objects alive only, and every registration belongs to one, whose
  destruction will take it back.\<close>

definition qt_ok :: "qt_state \<Rightarrow> bool" where
  "qt_ok qs \<longleftrightarrow>
     qc_context ` set (qt_posted (fst qs)) \<subseteq> set (qt_alive (fst qs)) \<and> fst ` set (qt_destroyed (fst qs)) \<subseteq> set (qt_alive (fst qs)) \<and>
     (\<forall>k c. callbacks_of (snd qs) k c \<noteq> [] \<longrightarrow> (c, k) \<in> set (qt_destroyed (fst qs)))"

lemma qt_okI:
  assumes "\<And>p. p \<in> set (qt_posted q) \<Longrightarrow> qc_context p \<in> set (qt_alive q)"
    and "\<And>c k. (c, k) \<in> set (qt_destroyed q) \<Longrightarrow> c \<in> set (qt_alive q)"
    and "\<And>k c. callbacks_of s k c \<noteq> [] \<Longrightarrow> (c, k) \<in> set (qt_destroyed q)"
  shows "qt_ok (q, s)"
  using assms by (auto simp: qt_ok_def)

lemma qt_okD:
  assumes "qt_ok (q, s)"
  shows "p \<in> set (qt_posted q) \<Longrightarrow> qc_context p \<in> set (qt_alive q)" "(c, k) \<in> set (qt_destroyed q) \<Longrightarrow> c \<in> set (qt_alive q)"
    "callbacks_of s k c \<noteq> [] \<Longrightarrow> (c, k) \<in> set (qt_destroyed q)"
proof -
  show "p \<in> set (qt_posted q) \<Longrightarrow> qc_context p \<in> set (qt_alive q)" using assms unfolding qt_ok_def fst_conv by blast
  show "(c, k) \<in> set (qt_destroyed q) \<Longrightarrow> c \<in> set (qt_alive q)"
    using assms imageI[of "(c, k)" "set (qt_destroyed q)" fst] unfolding qt_ok_def fst_conv by blast
  show "callbacks_of s k c \<noteq> [] \<Longrightarrow> (c, k) \<in> set (qt_destroyed q)" using assms unfolding qt_ok_def fst_conv snd_conv by blast
qed

lemma qt_ok_destroyed:
  assumes ok: "qt_ok (q, s)"
  shows "qt_ok (context_destroyed c (q, s))"
proof -
  let ?ks = "map snd (filter (\<lambda>(c', _). c' = c) (qt_destroyed q))"
  have ks: "k \<in> set ?ks \<longleftrightarrow> (c, k) \<in> set (qt_destroyed q)" for k by force
  show ?thesis unfolding context_destroyed_def prod.case Let_def
  proof (rule qt_okI, goal_cases)
    case (3 k c')
    then have "\<not> (k \<in> set ?ks \<and> c' = c)" "callbacks_of s k c' \<noteq> []" by (simp_all add: cb.unregister_all split: if_splits)
    then show ?case using qt_okD(3)[OF ok] ks by auto
  qed (use qt_okD(1,2)[OF ok] in auto)
qed

lemma qt_ok_exec: "qt_ok (snd st) \<Longrightarrow> qt_ok (snd (qt_exec a st))"
proof (induction a st rule: qt_exec.induct)
  case (1 c calls q s)
  then have ok: "qt_ok (q, s)" by simp
  show ?case unfolding qt_exec.simps snd_conv by (rule qt_okI) (use qt_okD[OF ok] in auto)
next
  case (2 c calls qs)
  then show ?case using qt_ok_destroyed by (cases qs) simp
next
  case (3 k c f scp calls qs)
  obtain q s where qs: "qs = (q, s)" by (cases qs)
  have ok: "qt_ok (q, s)" using 3 qs by simp
  have "qt_ok (adapter_registerCallback k c f scp (q, s))" if "c \<in> set (qt_alive q)"
    unfolding adapter_registerCallback_def prod.case Let_def
    by (rule qt_okI)
      (use qt_okD[OF ok] that in \<open>auto simp: unregisterWhenDestroyed_def cb.table_register split: if_splits\<close>)
  then show ?case using ok by (simp add: qs)
next
  case (4 k c calls qs)
  obtain q s where qs: "qs = (q, s)" by (cases qs)
  have ok: "qt_ok (q, s)" using 4 qs by simp
  show ?case unfolding qs qt_exec.simps snd_conv adapter_unregisterCallback_def fst_conv
    by (rule qt_okI) (use qt_okD[OF ok] in \<open>auto simp: cb.table_unregister split: if_splits\<close>)
next
  case (5 c f pl calls q s)
  then have ok: "qt_ok (q, s)" by simp
  show ?case unfolding qt_exec.simps snd_conv adapter_invoke_def
    by (rule qt_okI) (use qt_okD[OF ok] in \<open>auto split: if_splits\<close>)
next
  case (6 calls q s)
  then have ok: "qt_ok (q, s)" by simp
  have "qt_ok (q\<lparr>qt_posted := ps\<rparr>, s)" if "qt_posted q = p # ps" for p ps
    by (rule qt_okI) (use qt_okD[OF ok] that in auto)
  then show ?case using ok by (simp split: list.splits)
qed

lemma qt_calls_exec:
  "qt_ok (snd st) \<Longrightarrow> \<forall>x\<in>set (fst st). snd x \<Longrightarrow> \<forall>x\<in>set (fst (qt_exec a st)). snd x"
proof (induction a st rule: qt_exec.induct)
  case (6 calls q s)
  then have "qt_ok (q, s)" by simp
  then have "qc_context p \<in> set (qt_alive q)" if "p \<in> set (qt_posted q)" for p using qt_okD(1) that by blast
  then show ?case using 6(2) by (simp split: list.splits)
qed simp_all

lemma qt_ok_run:
  "qt_ok (snd st) \<Longrightarrow> \<forall>x\<in>set (fst st). snd x \<Longrightarrow>
   qt_ok (snd (fold qt_exec as st)) \<and> (\<forall>x\<in>set (fst (fold qt_exec as st)). snd x)"
proof (induction "as" arbitrary: st)
  case (Cons a as)
  show ?case unfolding fold_simps
    by (rule Cons.IH) (rule qt_ok_exec[OF Cons.prems(1)], rule qt_calls_exec[OF Cons.prems])
next
  case Nil
  then show ?case unfolding fold_simps by blast
qed

definition qt_start :: "(qt_call \<times> bool) list \<times> qt_state" where
  "qt_start = ([], \<lparr>qt_alive = [], qt_destroyed = [], qt_posted = []\<rparr>, \<lparr>s_instance = None, s_pendingMsgCallbacks = []\<rparr>)"



end
