(* ===== verification/Inspector.thy ===== *)
theory Inspector
  imports Discovery Zmq_Worker Broker_State Uuid
begin

text \<open>The inspector, \<^verbatim>\<open>inspector/\<close>: what its window keeps and does, without the widgets. The packet history, the topic filters,
  the brokers heard on the network and the selector built from them, switching between taps, and replay of a packet.
  Texts are byte strings: \<^verbatim>\<open>QString\<close> and \<^verbatim>\<open>std::string\<close> convert into each other without loss on UTF-8. The tap thread
  posts packets to the window, so the packets posted and not yet handled are part of the state.\<close>

section \<open>Packets\<close>

record inspector_packet =
  ip_timestamp :: string
  ip_senderId :: string
  ip_key :: string
  ip_topic :: string
  ip_sizeBytes :: nat
  ip_header :: message_header
  ip_payload :: string

definition MaxPacketHistory :: nat where "MaxPacketHistory = 100000"
definition TrimChunk :: nat where "TrimChunk = 10000"

definition make_packet :: "string \<Rightarrow> envelope \<Rightarrow> nat \<Rightarrow> inspector_packet" where
  "make_packet now e wireBytes =
     \<lparr>ip_timestamp = now, ip_senderId = sender_id (header e), ip_key = handler_key (header e), ip_topic = topic (header e),
      ip_sizeBytes = wireBytes, ip_header = header e, ip_payload = payload e\<rparr>"

definition topic_text :: "string \<Rightarrow> string" where
  "topic_text t = (if t = '''' then ''[Empty]'' else t)"

definition localTap :: "string option \<Rightarrow> string" where
  "localTap wispInspectorSock =
     (case wispInspectorSock of
        Some e \<Rightarrow> if e \<noteq> '''' then e else ''ipc:///tmp/broker_inspector.sock''
      | None \<Rightarrow> ''ipc:///tmp/broker_inspector.sock'')"

section \<open>The hex dump\<close>

definition hex_digit :: "nat \<Rightarrow> char" where
  "hex_digit n = ''0123456789abcdef'' ! n"

fun hex_number :: "nat \<Rightarrow> string" where
  "hex_number n = (if n < 16 then [hex_digit n] else hex_number (n div 16) @ [hex_digit (n mod 16)])"

declare hex_number.simps [simp del]

text \<open>\<^verbatim>\<open>std::setfill('0') << std::setw(w)\<close>.\<close>

definition fill_zero :: "nat \<Rightarrow> string \<Rightarrow> string" where
  "fill_zero w s = replicate (w - length s) (CHR ''0'') @ s"

definition hex_column :: "string \<Rightarrow> nat \<Rightarrow> nat \<Rightarrow> string" where
  "hex_column raw i j =
     (if i + j < length raw then fill_zero 2 (hex_number (of_char (raw ! (i + j)))) @ '' '' else ''   '') @
     (if j = 7 then '' '' else '''')"

definition ascii_column :: "string \<Rightarrow> nat \<Rightarrow> nat \<Rightarrow> string" where
  "ascii_column raw i j =
     (if i + j < length raw
      then (let c = raw ! (i + j) in [if (32::nat) \<le> of_char c \<and> of_char c \<le> (126::nat) then c else CHR ''.''])
      else '''')"

definition dump_line :: "string \<Rightarrow> nat \<Rightarrow> string" where
  "dump_line raw i =
     fill_zero 4 (hex_number i) @ ''  '' @ concat (map (hex_column raw i) [0..<16]) @ ''  |'' @
     concat (map (ascii_column raw i) [0..<16]) @ ''|'' @ [CHR 0x0A]"

function dump_from :: "string \<Rightarrow> nat \<Rightarrow> string" where
  "dump_from raw i = (if i < length raw then dump_line raw i @ dump_from raw (i + 16) else '''')"
  by auto

termination
  by (relation "measure (\<lambda>(raw, i). length raw - i)") auto

declare dump_from.simps [simp del]

definition generateHexDump :: "string \<Rightarrow> string" where
  "generateHexDump rawData = dump_from rawData 0"

section \<open>The window\<close>

record discovered_broker =
  db_cluster :: string
  db_uuid :: string
  db_endpoint :: string
  db_routerEndpoint :: string
  db_lastSeen :: time

text \<open>An item of the broker selector: its text, its endpoint, and whether it can be chosen.\<close>

record selector_item =
  si_text :: string
  si_data :: string
  si_enabled :: bool

record stats_labels =
  lb_brokerId :: string
  lb_cluster :: string
  lb_uptime :: string
  lb_clients :: string
  lb_peers :: string
  lb_msgsSec :: string
  lb_kbSec :: string
  lb_totalMsgs :: string
  lb_dropped :: string
  lb_alarm :: bool

definition initial_labels :: stats_labels where
  "initial_labels =
     \<lparr>lb_brokerId = ''Broker ID: --'', lb_cluster = ''Cluster: --'', lb_uptime = ''Uptime: -- s'', lb_clients = ''Clients: 0'',
      lb_peers = ''Peers: 0'', lb_msgsSec = ''Msgs/sec: 0'', lb_kbSec = ''KB/sec: 0.00'', lb_totalMsgs = ''Total Msgs: 0'',
      lb_dropped = ''Dropped: 0'', lb_alarm = False\<rparr>"

record inspector =
  in_history :: "inspector_packet list"
  in_knownTopics :: "string list"
  in_menu :: "(string \<times> bool) list"
  in_filterBar :: string
  in_searchText :: string
  in_allowedTopics :: "string list"
  in_labels :: stats_labels
  in_hexDump :: string
  in_discovered :: "(string, discovered_broker) omap"
  in_selector :: "selector_item list"
  in_selected :: int
  in_currentEndpoint :: string
  in_tapEndpoint :: string
  in_tapRunning :: bool
  in_posted :: "inspector_packet list"
  in_injector :: "envelope zmq_worker option"
  in_injectorAddress :: string

text \<open>What the window takes from outside: \<^verbatim>\<open>toLower\<close>, the statistics in an \<^verbatim>\<open>Any\<close>, the text of the two rates, and the
  environment variable of the local tap.\<close>

record inspector_env =
  ie_toLower :: "string \<Rightarrow> string"
  ie_stats :: "string \<Rightarrow> system_stats option"
  ie_rates :: "u64 \<times> u64 \<times> time \<Rightarrow> string \<times> string"
  ie_sock :: "string option"

subsection \<open>Replay target\<close>

definition retargetInjector :: "string \<Rightarrow> inspector \<Rightarrow> inspector" where
  "retargetInjector address w =
     (if in_injector w \<noteq> None \<and> address = in_injectorAddress w then w
      else w\<lparr>in_injector := Some (worker_start (new_worker
                \<lparr>cfg_address = address, cfg_clientId = ''Inspector-Replay'', keepAliveTime = 3000, keepAliveTimeout = 10000\<rparr>)),
             in_injectorAddress := address\<rparr>)"

definition routerEndpointForTap :: "string \<Rightarrow> inspector \<Rightarrow> string" where
  "routerEndpointForTap tapEndpoint w =
     (case List.find (\<lambda>b. db_endpoint b = tapEndpoint) (map snd (in_discovered w)) of
        Some b \<Rightarrow> db_routerEndpoint b
      | None \<Rightarrow> ''tcp://localhost:5555'')"

subsection \<open>Brokers heard\<close>

definition tcp_endpoint :: "string \<Rightarrow> u16 \<Rightarrow> string" where
  "tcp_endpoint ip port = ''tcp://'' @ ip @ '':'' @ to_string (unat port)"

definition MIDDLE_DOT :: string where "MIDDLE_DOT = [CHR '' '', CHR 0xC2, CHR 0xB7, CHR '' '']"
definition EM_DASH :: string where "EM_DASH = [CHR '' '', CHR 0xE2, CHR 0x80, CHR 0x94, CHR '' '']"

definition selector_entry :: "discovered_broker \<Rightarrow> selector_item" where
  "selector_entry b =
     (if db_endpoint b = ''''
      then \<lparr>si_text = db_cluster b @ MIDDLE_DOT @ take 8 (db_uuid b) @ EM_DASH @ ''no remote tap'', si_data = '''', si_enabled = False\<rparr>
      else \<lparr>si_text = db_cluster b @ MIDDLE_DOT @ take 8 (db_uuid b) @ MIDDLE_DOT @ db_endpoint b, si_data = db_endpoint b,
            si_enabled = True\<rparr>)"

fun index_of :: "string \<Rightarrow> int \<Rightarrow> selector_item list \<Rightarrow> int" where
  "index_of endpoint i [] = -1"
| "index_of endpoint i (item # items) = (if si_data item = endpoint then i else index_of endpoint (i + 1) items)"

definition refreshBrokerList :: "inspector_env \<Rightarrow> inspector \<Rightarrow> inspector" where
  "refreshBrokerList env w =
     (let items = \<lparr>si_text = ''Local broker (ipc)'', si_data = localTap (ie_sock env), si_enabled = True\<rparr> #
                  map (selector_entry \<circ> snd) (in_discovered w)
      in w\<lparr>in_selector := items, in_selected := index_of (in_currentEndpoint w) 0 items\<rparr>)"

definition onBeaconHeard :: "inspector_env \<Rightarrow> time \<Rightarrow> string \<Rightarrow> beacon \<Rightarrow> inspector \<Rightarrow> inspector" where
  "onBeaconHeard env now senderIp heard w =
     (let b = \<lparr>db_cluster = b_cluster heard, db_uuid = b_uuid heard,
               db_endpoint = (if b_tapPort heard = 0 then '''' else tcp_endpoint senderIp (b_tapPort heard)),
               db_routerEndpoint = tcp_endpoint senderIp (b_routerPort heard), db_lastSeen = now\<rparr>;
          changed = (case map_of (in_discovered w) (b_uuid heard) of
                       None \<Rightarrow> True
                     | Some old \<Rightarrow> db_endpoint old \<noteq> db_endpoint b \<or> db_cluster old \<noteq> db_cluster b \<or>
                                   db_routerEndpoint old \<noteq> db_routerEndpoint b);
          w1 = w\<lparr>in_discovered := omap_put (b_uuid heard) b (in_discovered w)\<rparr>
      in if changed then refreshBrokerList env w1 else w1)"

definition expireDiscoveredBrokers :: "inspector_env \<Rightarrow> time \<Rightarrow> inspector \<Rightarrow> inspector" where
  "expireDiscoveredBrokers env now w =
     (let cutoff = now - 10000000000;
          kept = filter (\<lambda>(_, b). \<not> db_lastSeen b < cutoff) (in_discovered w);
          w1 = w\<lparr>in_discovered := kept\<rparr>
      in if length kept < length (in_discovered w) then refreshBrokerList env w1 else w1)"

subsection \<open>Filters\<close>

definition contains_text :: "string \<Rightarrow> string \<Rightarrow> bool" where
  "contains_text s pat \<longleftrightarrow> list_ex (\<lambda>i. take (length pat) (drop i s) = pat) [0..<Suc (length s)]"

definition updateFilters :: "inspector_env \<Rightarrow> string \<Rightarrow> string list \<Rightarrow> inspector \<Rightarrow> inspector" where
  "updateFilters env text topics w = w\<lparr>in_searchText := ie_toLower env text, in_allowedTopics := topics\<rparr>"

definition applyFilters :: "inspector_env \<Rightarrow> inspector \<Rightarrow> inspector" where
  "applyFilters env w = updateFilters env (in_filterBar w) (map fst (filter snd (in_menu w))) w"

definition filterAcceptsRow :: "inspector_env \<Rightarrow> inspector \<Rightarrow> inspector_packet \<Rightarrow> bool" where
  "filterAcceptsRow env w p =
     (let t = topic_text (ip_topic p)
      in if t \<notin> set (in_allowedTopics w) then False
         else if in_searchText w = '''' then True
         else contains_text (ie_toLower env (ip_senderId p)) (in_searchText w) \<or>
              contains_text (ie_toLower env (ip_key p)) (in_searchText w) \<or>
              contains_text (ie_toLower env t) (in_searchText w))"

subsection \<open>The table\<close>

text \<open>What the table model answers for a cell. \<^verbatim>\<open>kb\<close> is the text of a number of bytes as kilobytes with two decimals.\<close>

datatype cell_role = DisplayRole | TextAlignmentRole | BackgroundRole | OtherRole

datatype cell_data = NoData | CellText string | AlignRightCentre | CellColor nat nat nat nat

definition formatByteSize :: "(nat \<Rightarrow> string) \<Rightarrow> nat \<Rightarrow> string" where
  "formatByteSize kb bytes = (if bytes < 1024 then to_string bytes @ '' B'' else kb bytes @ '' KB'')"

definition rowCount :: "inspector \<Rightarrow> nat" where "rowCount w = length (in_history w)"
definition columnCount :: nat where "columnCount = 6"

text \<open>The six sections of the horizontal header.\<close>

definition headerData :: "int \<Rightarrow> cell_data" where
  "headerData section =
     CellText ([''Time'', ''Sender'', ''Key'', ''Topic'', ''Msg size'', ''Payload size''] ! nat section)"

definition packet_color :: "string \<Rightarrow> cell_data" where
  "packet_color k =
     (if k = CONNECT then CellColor 0 128 0 100
      else if k = DISCONNECT then CellColor 128 0 0 100
      else if k = SUBSCRIBE then CellColor 0 0 128 100
      else if k = UNSUBSCRIBE then CellColor 0 128 128 100
      else if k = SYS_STATS then CellColor 128 128 0 100
      else if isSystemPacket k then CellColor 50 50 50 100
      else NoData)"

definition cell_text :: "(nat \<Rightarrow> string) \<Rightarrow> inspector_packet \<Rightarrow> int \<Rightarrow> cell_data" where
  "cell_text kb p column =
     (if column = 0 then CellText (ip_timestamp p)
      else if column = 1 then CellText (ip_senderId p)
      else if column = 2 then CellText (ip_key p)
      else if column = 3 then CellText (topic_text (ip_topic p))
      else if column = 4 then CellText (formatByteSize kb (ip_sizeBytes p))
      else if column = 5 then CellText (formatByteSize kb (length (ip_payload p)))
      else NoData)"

definition table_data :: "(nat \<Rightarrow> string) \<Rightarrow> int \<Rightarrow> int \<Rightarrow> cell_role \<Rightarrow> inspector \<Rightarrow> cell_data" where
  "table_data kb row column role w =
     (if row < 0 \<or> length (in_history w) \<le> nat row then NoData
      else
        (let p = in_history w ! nat row
         in case role of
              DisplayRole \<Rightarrow> cell_text kb p column
            | TextAlignmentRole \<Rightarrow> if column = 4 \<or> column = 5 then AlignRightCentre else NoData
            | BackgroundRole \<Rightarrow> packet_color (ip_key p)
            | OtherRole \<Rightarrow> NoData))"

subsection \<open>Packets arriving\<close>

definition show_stats :: "inspector_env \<Rightarrow> system_stats \<Rightarrow> stats_labels" where
  "show_stats env st =
     (let (msgs, kb) = ie_rates env (st_rates st)
      in \<lparr>lb_brokerId = ''Broker ID: '' @ st_broker_id st,
          lb_cluster = ''Cluster: '' @ (if st_cluster st = '''' then ''--'' else st_cluster st),
          lb_uptime = ''Uptime: '' @ int_text (st_uptime_sec st) @ '' s'',
          lb_clients = ''Clients: '' @ to_string (st_clients_count st), lb_peers = ''Peers: '' @ to_string (st_peers_count st),
          lb_msgsSec = ''Msgs/sec: '' @ msgs, lb_kbSec = ''KB/sec: '' @ kb,
          lb_totalMsgs = ''Total Msgs: '' @ int_text (sint (st_total_msgs st)),
          lb_dropped = ''Dropped: '' @ to_string (unat (st_total_dropped st)), lb_alarm = st_total_dropped st > 0\<rparr>)"

definition trim_history :: "inspector_packet list \<Rightarrow> inspector_packet list" where
  "trim_history h = (if length h > MaxPacketHistory then drop TrimChunk h else h)"

definition note_topic :: "inspector_env \<Rightarrow> string \<Rightarrow> inspector \<Rightarrow> inspector" where
  "note_topic env t w =
     (if t \<in> set (in_knownTopics w) then w
      else applyFilters env (w\<lparr>in_knownTopics := in_knownTopics w @ [t], in_menu := in_menu w @ [(t, True)]\<rparr>))"

definition onNewPacket :: "inspector_env \<Rightarrow> inspector_packet \<Rightarrow> inspector \<Rightarrow> inspector" where
  "onNewPacket env p w =
     (let w1 = w\<lparr>in_history := trim_history (in_history w @ [p])\<rparr>;
          w2 = note_topic env (topic_text (ip_topic p)) w1
      in if ip_topic p = SYS_STATS
         then (case ie_stats env (ip_payload p) of None \<Rightarrow> w2 | Some st \<Rightarrow> w2\<lparr>in_labels := show_stats env st\<rparr>)
         else w2)"

definition onSelectionChanged :: "int \<Rightarrow> inspector \<Rightarrow> inspector" where
  "onSelectionChanged row w =
     (if row < 0 \<or> length (in_history w) \<le> nat row then w
      else w\<lparr>in_hexDump := generateHexDump (ip_payload (in_history w ! nat row))\<rparr>)"

subsection \<open>Switching taps\<close>

definition clearCapture :: "inspector \<Rightarrow> inspector" where
  "clearCapture w =
     w\<lparr>in_history := [], in_knownTopics := [], in_menu := [], in_hexDump := '''', in_labels := initial_labels\<rparr>"

definition attachTo :: "string \<Rightarrow> inspector \<Rightarrow> inspector" where
  "attachTo endpoint w =
     (if endpoint = in_currentEndpoint w then w
      else
        (let w1 = clearCapture (w\<lparr>in_tapRunning := False\<rparr>);
             w2 = w1\<lparr>in_tapEndpoint := endpoint, in_currentEndpoint := endpoint, in_tapRunning := True\<rparr>
         in retargetInjector (routerEndpointForTap endpoint w2) w2))"

definition onBrokerSelected :: "int \<Rightarrow> inspector \<Rightarrow> inspector" where
  "onBrokerSelected index w =
     (if index < 0 \<or> length (in_selector w) \<le> nat index then w
      else
        (let endpoint = si_data (in_selector w ! nat index)
         in if endpoint = '''' then w else attachTo endpoint (w\<lparr>in_selected := index\<rparr>)))"

subsection \<open>Replay\<close>

definition replayed :: "string \<Rightarrow> inspector_packet \<Rightarrow> envelope" where
  "replayed uuid p =
     (let h = (ip_header p)\<lparr>message_uuid := uuid\<rparr>;
          h1 = (if \<not> contains_text (sender_id h) ''REPLAY_'' then h\<lparr>sender_id := ''REPLAY_'' @ sender_id h\<rparr> else h)
      in \<lparr>header = h1, payload = ip_payload p\<rparr>)"

definition replaySelectedMessage :: "string \<Rightarrow> int \<Rightarrow> inspector \<Rightarrow> inspector" where
  "replaySelectedMessage uuid row w =
     (if row < 0 \<or> length (in_history w) \<le> nat row then w
      else
        (let e = replayed uuid (in_history w ! nat row)
         in case in_injector w of
              None \<Rightarrow> w
            | Some wk \<Rightarrow>
                w\<lparr>in_injector := Some (snd (if isControlMessage (handler_key (header e)) then writeControlMessage wk e
                                             else writeMessage wk e))\<rparr>))"

subsection \<open>The tap thread\<close>

text \<open>One pass of the loop in \<^verbatim>\<open>InspectorWorker::run\<close>: the frames received, if any.\<close>

definition tap_pass :: "header_codec \<Rightarrow> string \<Rightarrow> string list option \<Rightarrow> inspector \<Rightarrow> inspector" where
  "tap_pass pb now frames w =
     (if \<not> in_tapRunning w then w
      else case Option.bind frames (wire_recv pb) of
             None \<Rightarrow> w
           | Some (e, wireBytes) \<Rightarrow> w\<lparr>in_posted := in_posted w @ [make_packet now e wireBytes]\<rparr>)"

text \<open>The event loop of the window handles the oldest packet posted.\<close>

definition handle_posted :: "inspector_env \<Rightarrow> inspector \<Rightarrow> inspector" where
  "handle_posted env w =
     (case in_posted w of [] \<Rightarrow> w | p # ps \<Rightarrow> onNewPacket env p (w\<lparr>in_posted := ps\<rparr>))"

text \<open>The constructor.\<close>

definition new_inspector :: "inspector_env \<Rightarrow> inspector" where
  "new_inspector env =
     retargetInjector ''tcp://localhost:5555''
       \<lparr>in_history = [], in_knownTopics = [], in_menu = [], in_filterBar = '''', in_searchText = '''', in_allowedTopics = [],
        in_labels = initial_labels, in_hexDump = '''', in_discovered = [],
        in_selector = [\<lparr>si_text = ''Local broker (ipc)'', si_data = localTap (ie_sock env), si_enabled = True\<rparr>], in_selected = 0,
        in_currentEndpoint = localTap (ie_sock env), in_tapEndpoint = localTap (ie_sock env), in_tapRunning = True,
        in_posted = [], in_injector = None, in_injectorAddress = ''''\<rparr>"

section \<open>The hex dump, read back\<close>

definition hex_value :: "char \<Rightarrow> nat" where
  "hex_value c = length (takeWhile (\<lambda>d. d \<noteq> c) ''0123456789abcdef'')"

lemma hex_digit_value: "n < 16 \<Longrightarrow> hex_value (hex_digit n) = n"
proof -
  have "\<forall>n\<in>set [0..<16]. hex_value (hex_digit n) = n" by code_simp
  then show "n < 16 \<Longrightarrow> ?thesis" by simp
qed

text \<open>Each byte is shown as two digits that name it.\<close>

lemma hex_byte:
  "\<exists>a b. fill_zero 2 (hex_number (of_char c)) = [a, b] \<and> 16 * hex_value a + hex_value b = of_char c"
proof -
  let ?n = "of_char c :: nat"
  have n: "?n < 256" using of_char_of[of ?n] by simp
  show ?thesis
  proof (cases "?n < 16")
    case True
    have "hex_value (CHR ''0'') = 0" by (simp add: hex_value_def)
    then show ?thesis using True by (subst hex_number.simps) (simp add: fill_zero_def hex_digit_value numeral_2_eq_2)
  next
    case False
    have d: "?n div 16 < 16" using n by linarith
    from False d have "hex_number ?n = [hex_digit (?n div 16), hex_digit (?n mod 16)]"
      by (subst hex_number.simps) (simp add: hex_number.simps[of "?n div 16"])
    then show ?thesis using d by (simp add: fill_zero_def hex_digit_value)
  qed
qed

text \<open>The dump has a line for every sixteen bytes.\<close>

lemma dump_from_lines:
  "dump_from raw (16 * k) = concat (map (\<lambda>n. dump_line raw (16 * n)) [k..<(length raw + 15) div 16])"
proof (induction "length raw - 16 * k" arbitrary: k rule: less_induct)
  case less
  show ?case
  proof (cases "16 * k < length raw")
    case True
    then have "k < (length raw + 15) div 16" by linarith
    moreover have "dump_from raw (16 * k + 16) = dump_from raw (16 * Suc k)" by (simp add: algebra_simps)
    ultimately show ?thesis using less[of "Suc k"] True by (subst dump_from.simps) (simp add: upt_conv_Cons)
  next
    case False
    then have "(length raw + 15) div 16 \<le> k" by linarith
    then show ?thesis using False by (subst dump_from.simps) simp
  qed
qed

section \<open>The window over time\<close>

fun flip_topic :: "string \<Rightarrow> (string \<times> bool) list \<Rightarrow> (string \<times> bool) list" where
  "flip_topic t [] = []"
| "flip_topic t ((t', on) # menu) = (t', if t' = t then \<not> on else on) # flip_topic t menu"

lemma flip_topic_keys [simp]: "map fst (flip_topic t menu) = map fst menu"
  by (induction t menu rule: flip_topic.induct) simp_all

definition toggle_topic :: "inspector_env \<Rightarrow> string \<Rightarrow> inspector \<Rightarrow> inspector" where
  "toggle_topic env t w = applyFilters env (w\<lparr>in_menu := flip_topic t (in_menu w)\<rparr>)"

definition edit_filter :: "inspector_env \<Rightarrow> string \<Rightarrow> inspector \<Rightarrow> inspector" where
  "edit_filter env text w = applyFilters env (w\<lparr>in_filterBar := text\<rparr>)"

datatype inspector_act =
  TapPass string "string list option" | HandlePosted | BeaconHeard time string beacon | ExpireBrokers time
| SelectBroker int | ToggleTopic string | EditFilter string | SelectRow int | ReplayRow string int

text \<open>Beside the window, the packets it has handled since it last switched taps.\<close>

fun inspector_exec ::
  "header_codec \<Rightarrow> inspector_env \<Rightarrow> inspector_act \<Rightarrow> inspector \<times> inspector_packet list \<Rightarrow> inspector \<times> inspector_packet list" where
  "inspector_exec pb env (TapPass now frames) (w, hs) = (tap_pass pb now frames w, hs)"
| "inspector_exec pb env HandlePosted (w, hs) =
     (handle_posted env w, case in_posted w of [] \<Rightarrow> hs | p # ps \<Rightarrow> hs @ [p])"
| "inspector_exec pb env (BeaconHeard now ip heard) (w, hs) = (onBeaconHeard env now ip heard w, hs)"
| "inspector_exec pb env (ExpireBrokers now) (w, hs) = (expireDiscoveredBrokers env now w, hs)"
| "inspector_exec pb env (SelectBroker i) (w, hs) =
     (let w' = onBrokerSelected i w in (w', if in_currentEndpoint w' = in_currentEndpoint w then hs else []))"
| "inspector_exec pb env (ToggleTopic t) (w, hs) = (toggle_topic env t w, hs)"
| "inspector_exec pb env (EditFilter text) (w, hs) = (edit_filter env text w, hs)"
| "inspector_exec pb env (SelectRow row) (w, hs) = (onSelectionChanged row w, hs)"
| "inspector_exec pb env (ReplayRow uuid row) (w, hs) = (replaySelectedMessage uuid row w, hs)"

definition history_of :: "inspector_packet list \<Rightarrow> inspector_packet list \<Rightarrow> bool" where
  "history_of hs h \<longleftrightarrow>
     length h \<le> MaxPacketHistory \<and> (\<exists>k. h = drop k hs \<and> (0 < k \<longrightarrow> MaxPacketHistory - TrimChunk < length h))"

lemma history_of_snoc:
  assumes "history_of hs h"
  shows "history_of (hs @ [p]) (trim_history (h @ [p]))"
proof -
  obtain k where k: "length h \<le> MaxPacketHistory" "h = drop k hs" "0 < k \<longrightarrow> MaxPacketHistory - TrimChunk < length h"
    using assms unfolding history_of_def by blast
  have le: "k \<le> length hs" if "0 < k" using k(2,3) that by (cases "k \<le> length hs") auto
  show ?thesis
  proof (cases "length (h @ [p]) > MaxPacketHistory")
    case True
    have hp: "h @ [p] = drop (min k (length hs)) (hs @ [p])" by (simp add: k(2) min_def)
    then have t: "trim_history (h @ [p]) = drop (TrimChunk + min k (length hs)) (hs @ [p])"
      using True by (simp add: trim_history_def add.commute)
    have "length (trim_history (h @ [p])) = MaxPacketHistory + 1 - TrimChunk"
      using True k(1) by (simp add: trim_history_def)
    then have n: "length (trim_history (h @ [p])) \<le> MaxPacketHistory" "MaxPacketHistory - TrimChunk < length (trim_history (h @ [p]))"
      unfolding MaxPacketHistory_def TrimChunk_def by linarith+
    show ?thesis unfolding history_of_def using t n by blast
  next
    case False
    then have "trim_history (h @ [p]) = drop (min k (length hs)) (hs @ [p])" by (simp add: trim_history_def k(2) min_def)
    then show ?thesis using False k(3) unfolding history_of_def
      by (intro conjI exI[of _ "min k (length hs)"]) (auto simp: trim_history_def)
  qed
qed

definition filters_ok :: "inspector_env \<Rightarrow> inspector \<Rightarrow> bool" where
  "filters_ok env w \<longleftrightarrow>
     map fst (in_menu w) = in_knownTopics w \<and> distinct (in_knownTopics w) \<and>
     topic_text ` ip_topic ` set (in_history w) \<subseteq> set (in_knownTopics w) \<and>
     (in_menu w \<noteq> [] \<longrightarrow>
        in_allowedTopics w = map fst (filter snd (in_menu w)) \<and> in_searchText w = ie_toLower env (in_filterBar w))"

definition window_ok :: "inspector_env \<Rightarrow> inspector \<times> inspector_packet list \<Rightarrow> bool" where
  "window_ok env s \<longleftrightarrow> history_of (snd s) (in_history (fst s)) \<and> filters_ok env (fst s)"

lemma filters_ok_frame:
  assumes "filters_ok env w"
    and "in_menu w' = in_menu w" "in_knownTopics w' = in_knownTopics w" "in_history w' = in_history w"
      "in_allowedTopics w' = in_allowedTopics w" "in_searchText w' = in_searchText w" "in_filterBar w' = in_filterBar w"
  shows "filters_ok env w'"
  using assms by (simp add: filters_ok_def)

lemma filters_ok_apply:
  assumes "map fst (in_menu w) = in_knownTopics w" and "distinct (in_knownTopics w)"
    and "topic_text ` ip_topic ` set (in_history w) \<subseteq> set (in_knownTopics w)"
  shows "filters_ok env (applyFilters env w)"
  using assms by (simp add: filters_ok_def applyFilters_def updateFilters_def)

lemma set_trim_history: "set (trim_history h) \<subseteq> set h"
  by (auto simp: trim_history_def dest: in_set_dropD)

lemma filters_ok_packet:
  assumes "filters_ok env w"
  shows "filters_ok env (onNewPacket env p w)"
proof -
  let ?t = "topic_text (ip_topic p)" and ?w = "w\<lparr>in_history := trim_history (in_history w @ [p])\<rparr>"
  have sub: "topic_text ` ip_topic ` set (in_history ?w) \<subseteq> insert ?t (set (in_knownTopics w))"
    using assms set_trim_history[of "in_history w @ [p]"] by (auto simp: filters_ok_def)
  have "filters_ok env (note_topic env ?t ?w)"
  proof (cases "?t \<in> set (in_knownTopics w)")
    case True
    then have "topic_text ` ip_topic ` set (in_history ?w) \<subseteq> set (in_knownTopics w)" using sub by (simp only: insert_absorb)
    then show ?thesis using assms True by (simp add: note_topic_def filters_ok_def)
  next
    case False
    have "filters_ok env (applyFilters env (?w\<lparr>in_knownTopics := in_knownTopics ?w @ [?t], in_menu := in_menu ?w @ [(?t, True)]\<rparr>))"
      by (rule filters_ok_apply) (use assms sub False in \<open>auto simp: filters_ok_def\<close>)
    then show ?thesis using False by (simp add: note_topic_def)
  qed
  then show ?thesis
    by (auto simp: onNewPacket_def Let_def split: option.splits elim: filters_ok_frame)
qed

lemma note_topic_history [simp]: "in_history (note_topic env t w) = in_history w"
  by (simp add: note_topic_def applyFilters_def updateFilters_def)

lemma onNewPacket_history [simp]: "in_history (onNewPacket env p w) = trim_history (in_history w @ [p])"
  by (simp add: onNewPacket_def Let_def split: option.splits)

lemma refresh_frame [simp]:
  "in_menu (refreshBrokerList env w) = in_menu w" "in_knownTopics (refreshBrokerList env w) = in_knownTopics w"
  "in_history (refreshBrokerList env w) = in_history w" "in_allowedTopics (refreshBrokerList env w) = in_allowedTopics w"
  "in_searchText (refreshBrokerList env w) = in_searchText w" "in_filterBar (refreshBrokerList env w) = in_filterBar w"
  by (simp_all add: refreshBrokerList_def Let_def)

lemma retarget_frame [simp]:
  "in_menu (retargetInjector a w) = in_menu w" "in_knownTopics (retargetInjector a w) = in_knownTopics w"
  "in_history (retargetInjector a w) = in_history w" "in_allowedTopics (retargetInjector a w) = in_allowedTopics w"
  "in_searchText (retargetInjector a w) = in_searchText w" "in_filterBar (retargetInjector a w) = in_filterBar w"
  "in_currentEndpoint (retargetInjector a w) = in_currentEndpoint w" "in_posted (retargetInjector a w) = in_posted w"
  by (simp_all add: retargetInjector_def)

lemma history_of_Nil [simp]: "history_of [] []"
  by (simp add: history_of_def)

text \<open>Switching taps empties the capture; every other choice in the selector leaves it.\<close>

lemma onBrokerSelected_cases:
  obtains "onBrokerSelected i w = w"
  | "onBrokerSelected i w = w\<lparr>in_selected := i\<rparr>"
  | endpoint where "onBrokerSelected i w = attachTo endpoint (w\<lparr>in_selected := i\<rparr>)" "endpoint \<noteq> in_currentEndpoint w"
  unfolding onBrokerSelected_def attachTo_def Let_def by (fastforce split: if_splits)

lemma attachTo_switch:
  assumes "endpoint \<noteq> in_currentEndpoint w"
  shows "in_history (attachTo endpoint w) = []" "in_menu (attachTo endpoint w) = []" "in_knownTopics (attachTo endpoint w) = []"
    "in_currentEndpoint (attachTo endpoint w) = endpoint" "in_posted (attachTo endpoint w) = in_posted w"
  using assms by (simp_all add: attachTo_def Let_def clearCapture_def)

lemma window_ok_frame:
  assumes "window_ok env (w, hs)"
    and "in_menu w' = in_menu w" "in_knownTopics w' = in_knownTopics w" "in_history w' = in_history w"
      "in_allowedTopics w' = in_allowedTopics w" "in_searchText w' = in_searchText w" "in_filterBar w' = in_filterBar w"
  shows "window_ok env (w', hs)"
  using assms filters_ok_frame[of env w w'] by (simp add: window_ok_def)

lemma window_ok_exec:
  assumes "window_ok env s"
  shows "window_ok env (inspector_exec pb env a s)"
proof -
  obtain w hs where s: "s = (w, hs)" by (cases s)
  note ok = assms[unfolded s]
  have f: "map fst (in_menu w) = in_knownTopics w" "distinct (in_knownTopics w)"
    "topic_text ` ip_topic ` set (in_history w) \<subseteq> set (in_knownTopics w)" "history_of hs (in_history w)"
    using ok by (simp_all add: window_ok_def filters_ok_def)
  show ?thesis
  proof (cases a)
    case (TapPass now frames)
    show ?thesis unfolding s TapPass inspector_exec.simps
      by (rule window_ok_frame[OF ok]) (auto simp: tap_pass_def split: option.splits)
  next
    case HandlePosted
    have "filters_ok env (onNewPacket env p (w\<lparr>in_posted := ps\<rparr>))" for p ps
      by (rule filters_ok_packet) (use ok in \<open>auto simp: window_ok_def elim: filters_ok_frame\<close>)
    then show ?thesis using ok f(4) history_of_snoc
      by (auto simp: s HandlePosted handle_posted_def window_ok_def split: list.splits)
  next
    case (BeaconHeard now ip heard)
    show ?thesis unfolding s BeaconHeard inspector_exec.simps
      by (rule window_ok_frame[OF ok]) (simp_all add: onBeaconHeard_def Let_def)
  next
    case (ExpireBrokers now)
    show ?thesis unfolding s ExpireBrokers inspector_exec.simps
      by (rule window_ok_frame[OF ok]) (simp_all add: expireDiscoveredBrokers_def Let_def)
  next
    case (SelectBroker i)
    show ?thesis
    proof (cases rule: onBrokerSelected_cases[of i w])
      case (3 endpoint)
      then show ?thesis
        using attachTo_switch[of endpoint "w\<lparr>in_selected := i\<rparr>"] by (simp add: s SelectBroker window_ok_def filters_ok_def Let_def)
    qed (use ok in \<open>auto simp: s SelectBroker Let_def elim: window_ok_frame\<close>)
  next
    case (ToggleTopic t)
    have "filters_ok env (toggle_topic env t w)"
      unfolding toggle_topic_def by (intro filters_ok_apply) (simp_all add: f)
    then show ?thesis using f(4) by (simp add: s ToggleTopic window_ok_def toggle_topic_def applyFilters_def updateFilters_def)
  next
    case (EditFilter pat)
    have "filters_ok env (edit_filter env pat w)" unfolding edit_filter_def by (intro filters_ok_apply) (use f in auto)
    then show ?thesis using f(4) by (simp add: s EditFilter window_ok_def edit_filter_def applyFilters_def updateFilters_def)
  next
    case (SelectRow row)
    show ?thesis unfolding s SelectRow inspector_exec.simps
      by (rule window_ok_frame[OF ok]) (simp_all add: onSelectionChanged_def)
  next
    case (ReplayRow uuid row)
    show ?thesis unfolding s ReplayRow inspector_exec.simps
      by (rule window_ok_frame[OF ok]) (auto simp: replaySelectedMessage_def Let_def split: option.splits)
  qed
qed

lemma window_ok_run: "window_ok env s \<Longrightarrow> window_ok env (fold (inspector_exec pb env) as s)"
  by (induction as arbitrary: s) (simp_all add: window_ok_exec)

lemma window_ok_new: "window_ok env (new_inspector env, [])"
  by (simp add: window_ok_def new_inspector_def filters_ok_def)

text \<open>C38. Whatever the tap, the network and the user do, the capture is the newest of the packets the window
  handled since it last switched taps, never more than \<^verbatim>\<open>MaxPacketHistory\<close> and, once packets were dropped, always more
  than a chunk below it; and a captured packet is shown exactly if the box of its topic, which is in the menu, is checked
  and its sender, key or topic contains the text of the filter bar, letter case aside.\<close>

theorem inspector_view:
  assumes "fold (inspector_exec pb env) as (new_inspector env, []) = (w, handled)"
  shows "length (in_history w) \<le> MaxPacketHistory \<and>
    (\<exists>k. in_history w = drop k handled \<and> (0 < k \<longrightarrow> MaxPacketHistory - TrimChunk < length (in_history w))) \<and>
    (\<forall>p\<in>set (in_history w).
       (\<exists>on. (topic_text (ip_topic p), on) \<in> set (in_menu w) \<and>
         (filterAcceptsRow env w p \<longleftrightarrow>
            on \<and> (let pat = ie_toLower env (in_filterBar w)
                  in pat = '''' \<or> (\<exists>s\<in>{ip_senderId p, ip_key p, topic_text (ip_topic p)}. contains_text (ie_toLower env s) pat)))))"
proof -
  have ok: "history_of handled (in_history w)" "filters_ok env w"
    using window_ok_run[OF window_ok_new, of env pb as] assms by (simp_all add: window_ok_def)
  have "\<exists>on. (topic_text (ip_topic p), on) \<in> set (in_menu w) \<and>
      (filterAcceptsRow env w p \<longleftrightarrow>
         on \<and> (let pat = ie_toLower env (in_filterBar w)
               in pat = '''' \<or> (\<exists>s\<in>{ip_senderId p, ip_key p, topic_text (ip_topic p)}. contains_text (ie_toLower env s) pat)))"
    if p: "p \<in> set (in_history w)" for p
  proof -
    let ?t = "topic_text (ip_topic p)"
    have "?t \<in> set (map fst (in_menu w))" using ok(2) p by (auto simp: filters_ok_def)
    then obtain on where on: "(?t, on) \<in> set (in_menu w)" by auto
    have m: "distinct (map fst (in_menu w))" "in_allowedTopics w = map fst (filter snd (in_menu w))"
      using ok(2) on by (auto simp: filters_ok_def)
    have "?t \<in> set (in_allowedTopics w) \<longleftrightarrow> (?t, True) \<in> set (in_menu w)" unfolding m(2) by force
    then have "?t \<in> set (in_allowedTopics w) \<longleftrightarrow> on" using eq_key_imp_eq_value[OF m(1) on] on by (cases on) auto
    moreover have "in_searchText w = ie_toLower env (in_filterBar w)" using ok(2) on by (auto simp: filters_ok_def)
    ultimately show ?thesis using on by (intro exI[of _ on]) (simp add: filterAcceptsRow_def Let_def)
  qed
  then show ?thesis using ok(1) unfolding history_of_def by blast
qed

definition demo_window :: inspector_env where
  "demo_window = \<lparr>ie_toLower = id, ie_stats = (\<lambda>_. None), ie_rates = (\<lambda>_. ('''', '''')), ie_sock = None\<rparr>"

lemma demo_tap:
  "wire_recv marked_codec (group_frames None (encodeHeader marked_codec (empty_header\<lparr>handler_key := ''t'', topic := ''t''\<rparr>)) ''x'') =
     Some (\<lparr>header = empty_header\<lparr>handler_key := ''t'', topic := ''t''\<rparr>, payload = ''x''\<rparr>,
           length (encodeHeader marked_codec (empty_header\<lparr>handler_key := ''t'', topic := ''t''\<rparr>)) + 1)"
  using codec_ok_marked by (simp add: wire_recv_def group_frames_def)

theorem inspector_view_witness:
  "\<exists>w handled.
     fold (inspector_exec marked_codec demo_window)
       [TapPass ''12:00'' (Some (group_frames None (encodeHeader marked_codec (empty_header\<lparr>handler_key := ''t'', topic := ''t''\<rparr>)) ''x'')),
        HandlePosted, ToggleTopic ''t'']
       (new_inspector demo_window, []) = (w, handled) \<and>
     length (in_history w) \<le> MaxPacketHistory \<and> length handled = 1 \<and> \<not> filterAcceptsRow demo_window w (hd (in_history w))"
proof -
  let ?h = "empty_header\<lparr>handler_key := ''t'', topic := ''t''\<rparr>"
  let ?as = "[TapPass ''12:00'' (Some (group_frames None (encodeHeader marked_codec ?h) ''x'')), HandlePosted, ToggleTopic ''t'']"
  obtain w handled where r: "fold (inspector_exec marked_codec demo_window) ?as (new_inspector demo_window, []) = (w, handled)" by fastforce
  have w: "in_history w = handled" "length handled = 1" "in_menu w = [(''t'', False)]" "ip_topic (hd handled) = ''t''"
    using r by (auto simp: demo_tap tap_pass_def new_inspector_def retargetInjector_def handle_posted_def onNewPacket_def note_topic_def
        make_packet_def trim_history_def MaxPacketHistory_def SYS_STATS_def topic_text_def toggle_topic_def applyFilters_def updateFilters_def
        Let_def)
  have hd: "hd (in_history w) \<in> set (in_history w)" using w(1,2) by (cases handled) auto
  then have "\<not> filterAcceptsRow demo_window w (hd (in_history w))"
    using inspector_view[OF r] w(1,3,4) by (force simp: topic_text_def)
  then show ?thesis using r w inspector_view[OF r] by blast
qed

text \<open>Switching taps clears the capture, but a packet of the old tap that its thread had posted and the window
  not yet handled is handled afterwards: it becomes the first packet of the new capture.\<close>

lemma tap_switch_race:
  assumes "endpoint \<noteq> in_currentEndpoint w" and "in_posted w = p # ps"
  shows "in_history (attachTo endpoint w) = [] \<and> in_currentEndpoint (attachTo endpoint w) = endpoint \<and>
    in_history (handle_posted env (attachTo endpoint w)) = [p]"
  using attachTo_switch[OF assms(1)] assms(2) by (simp add: handle_posted_def trim_history_def MaxPacketHistory_def)

section \<open>Table, selector and replay\<close>

text \<open>What the filter compares is what the table displays, and every row the model counts has text in every column.\<close>

lemma table_displays:
  assumes "row < rowCount w"
  shows "table_data kb (int row) 3 DisplayRole w = CellText (topic_text (ip_topic (in_history w ! row)))"
    and "0 \<le> column \<Longrightarrow> column < int columnCount \<Longrightarrow> \<exists>s. table_data kb (int row) column DisplayRole w = CellText s"
proof -
  show "table_data kb (int row) 3 DisplayRole w = CellText (topic_text (ip_topic (in_history w ! row)))"
    using assms by (simp add: table_data_def rowCount_def cell_text_def)
  assume "0 \<le> column" and "column < int columnCount"
  then have "column \<in> {0, 1, 2, 3, 4, 5}" by (auto simp: columnCount_def)
  then show "\<exists>s. table_data kb (int row) column DisplayRole w = CellText s"
    using assms by (auto simp: table_data_def rowCount_def cell_text_def)
qed

lemma index_of_item: "0 \<le> i \<Longrightarrow> index_of e i items = j \<Longrightarrow> j \<noteq> -1 \<Longrightarrow> i \<le> j \<and> nat (j - i) < length items \<and> si_data (items ! nat (j - i)) = e"
proof (induction e i items rule: index_of.induct)
  case (2 endpoint i item items)
  show ?case
  proof (cases "si_data item = endpoint")
    case False
    then have "i + 1 \<le> j" "nat (j - (i + 1)) < length items" "si_data (items ! nat (j - (i + 1))) = endpoint" using 2 by auto
    moreover from this(1) have "nat (j - i) = Suc (nat (j - (i + 1)))" by linarith
    ultimately show ?thesis by simp
  qed (use 2 in auto)
qed simp

text \<open>After a refresh the selector shows the broker attached to, or nothing when it is no longer listed.\<close>

lemma refresh_selects:
  assumes "w' = refreshBrokerList env w"
  shows "in_selected w' = -1 \<or> 0 \<le> in_selected w' \<and> nat (in_selected w') < length (in_selector w') \<and>
    si_data (in_selector w' ! nat (in_selected w')) = in_currentEndpoint w'"
  using index_of_item[of 0 "in_currentEndpoint w" "in_selector w'" "in_selected w'"] assms
  by (auto simp: refreshBrokerList_def Let_def)

text \<open>A replayed packet keeps its payload and routing, carries a fresh id, and is marked once.\<close>

lemma contains_text_prefix: "contains_text (pat @ s) pat"
  by (auto simp: contains_text_def list_ex_iff intro!: bexI[of _ 0])

lemma replayed_marked:
  "payload (replayed uuid p) = ip_payload p \<and> handler_key (header (replayed uuid p)) = handler_key (ip_header p) \<and>
   topic (header (replayed uuid p)) = topic (ip_header p) \<and> message_uuid (header (replayed uuid p)) = uuid \<and>
   contains_text (sender_id (header (replayed uuid p))) ''REPLAY_'' \<and>
   replayed uuid (make_packet now (replayed uuid p) n) = replayed uuid p"
proof -
  have "contains_text (''REPLAY_'' @ s) ''REPLAY_''" for s by (rule contains_text_prefix)
  then show ?thesis by (auto simp: replayed_def Let_def make_packet_def)
qed

end
