(* ===== verification/Server_Main.thy ===== *)
theory Server_Main
  imports Broker_Run
begin

text \<open>The broker program, \<^verbatim>\<open>server/main.cpp\<close>: its command line, the configuration it takes from the environment, and the
  life of the one broker it runs. The environment, the clock, whether a dial opens its socket, and what happens to the
  broker until the signal arrives are arguments.\<close>

section \<open>Command line\<close>

definition printUsage :: "string \<Rightarrow> string" where
  "printUsage program = concat (map (\<lambda>l. l @ [CHR 0x0A])
     [''Usage: '' @ program @ '' [--inspector-port PORT] [endpoint ...]'',
      [],
      ''Runs a Wisp broker bound to the given ZeroMQ endpoints, e.g.:'',
      ''  '' @ program @ '' tcp://*:6666 ipc:///tmp/my_broker.sock'',
      [],
      ''With no arguments it binds tcp://*:5555 and ipc:///tmp/broker.sock.'',
      [],
      ''Options:'',
      ''  --inspector-port N  also expose the inspector tap on tcp://*:N and'',
      ''                      advertise it in this broker'' @ [CHR 0x27] @ ''s beacons, so an'',
      ''                      inspector elsewhere on the network can attach.'',
      ''                      Off by default: the tap carries every message,'',
      ''                      payloads included, with no access control.'',
      [],
      ''Environment:'',
      ''  WISP_CLUSTER        discovery cluster name (default '' @ [CHR 0x22] @ ''default'' @ [CHR 0x22] @ '')'',
      ''  WISP_NO_DISCOVERY   set to disable LAN auto-discovery'',
      ''  WISP_PEERS          comma-separated peer broker endpoints to dial directly,'',
      ''                      for networks UDP discovery can'' @ [CHR 0x27] @ ''t reach (subnets,'',
      ''                      containers, k8s), e.g. tcp://10.0.0.2:5555,tcp://10.0.0.3:5555'',
      ''  WISP_LOG_LEVEL      minimum log severity: debug, info, warn, error'',
      ''  WISP_INSPECTOR_SOCK local inspector tap endpoint (default'',
      ''                      ipc:///tmp/broker_inspector.sock). Give each broker on'',
      ''                      a host its own, or they take the tap from each other.''])"

text \<open>\<^verbatim>\<open>std::strtol\<close> in base 10 with a null end pointer: no digits give 0, values outside \<^verbatim>\<open>long\<close> its bounds.\<close>

definition strtol :: "string \<Rightarrow> int" where
  "strtol str =
     (let s = dropWhile is_space str;
          neg = (s \<noteq> [] \<and> hd s = CHR ''-'');
          body = (if s \<noteq> [] \<and> (hd s = CHR ''-'' \<or> hd s = CHR ''+'') then tl s else s);
          v = int (digits_value (takeWhile is_digit body))
      in max (- (2 ^ 63)) (min (2 ^ 63 - 1) (if neg then - v else v)))"

datatype server_parse = ShowUsage | BadArguments string | RunBroker "string list" int

fun parse_server :: "string list \<Rightarrow> string list \<Rightarrow> int \<Rightarrow> server_parse" where
  "parse_server [] bindings inspectorPort =
     RunBroker (if bindings = [] then [''tcp://*:5555'', ''ipc:///tmp/broker.sock''] else bindings) inspectorPort"
| "parse_server (arg # args) bindings inspectorPort =
     (if arg = ''--help'' \<or> arg = ''-h'' then ShowUsage
      else if arg = ''--inspector-port''
      then (case args of
              [] \<Rightarrow> BadArguments ''error: --inspector-port needs a port number''
            | value # rest \<Rightarrow>
                if strtol value < 1 \<or> strtol value > 65535
                then BadArguments ''error: --inspector-port must be between 1 and 65535''
                else parse_server rest bindings (strtol value))
      else parse_server args (bindings @ [arg]) inspectorPort)"

section \<open>The broker it runs\<close>

record server_env =
  se_noDiscovery :: "string option"
  se_cluster :: "string option"
  se_inspectorSock :: "string option"
  se_peers :: "string option"

definition DISCOVERY_PORT :: u16 where "DISCOVERY_PORT = 5670"

text \<open>What \<^verbatim>\<open>main\<close> does to the broker before it waits for a signal, as the steps of a broker run.\<close>

definition boot_acts :: "server_env \<Rightarrow> time \<Rightarrow> (string \<Rightarrow> bool) \<Rightarrow> string list \<Rightarrow> int \<Rightarrow> broker_act list" where
  "boot_acts env now opens bindings inspectorPort =
     (if se_noDiscovery env = None
      then [EnableDiscovery (case se_cluster env of Some c \<Rightarrow> c | None \<Rightarrow> ''default'') DISCOVERY_PORT] else []) @
     (case se_inspectorSock env of Some t \<Rightarrow> [SetInspectorEndpoint t] | None \<Rightarrow> []) @
     (if inspectorPort \<noteq> 0 then [EnableRemoteInspector (of_int inspectorPort)] else []) @
     [StartBroker now bindings] @
     (case se_peers env of Some peers \<Rightarrow> map (\<lambda>a. AddPeer (opens a) a a) (parsePeerList peers) | None \<Rightarrow> [])"

text \<open>\<^verbatim>\<open>main\<close>: the exit status, the text printed (to the standard or the error stream), and the broker as it was left.\<close>

definition server_main ::
  "broker_env \<Rightarrow> server_env \<Rightarrow> time \<Rightarrow> (string \<Rightarrow> bool) \<Rightarrow> string \<Rightarrow> broker_act list \<Rightarrow> string list \<Rightarrow>
   int \<times> (string + string) option \<times> (broker \<times> far_views) option" where
  "server_main benv env now opens uuid life argv =
     (case parse_server (tl argv) [] 0 of
        ShowUsage \<Rightarrow> (0, Some (Inl (printUsage (hd argv))), None)
      | BadArguments m \<Rightarrow> (1, Some (Inr (m @ [CHR 0x0A])), None)
      | RunBroker bindings inspectorPort \<Rightarrow>
          (0, None, broker_run benv (boot_acts env now opens bindings inspectorPort @ life @ [StopBroker])
             (new_broker 10000 uuid, \<lambda>_. None)))"

section \<open>Arguments\<close>

text \<open>The port that reaches the broker is 0 when none was given, and otherwise legal.\<close>

lemma parse_server_port:
  "parse_server args bindings port = RunBroker bs p \<Longrightarrow> 0 \<le> port \<Longrightarrow> port \<le> 65535 \<Longrightarrow> 0 \<le> p \<and> p \<le> 65535 \<and> bs \<noteq> []"
proof (induction args bindings port rule: parse_server.induct)
  case (2 arg args bindings port)
  consider (port_option) v rest where "arg = ''--inspector-port''" "args = v # rest" "1 \<le> strtol v" "strtol v \<le> 65535"
      "parse_server rest bindings (strtol v) = RunBroker bs p"
    | (endpoint) "arg \<noteq> ''--help''" "arg \<noteq> ''-h''" "arg \<noteq> ''--inspector-port''" "parse_server args (bindings @ [arg]) port = RunBroker bs p"
    using 2(3) unfolding parse_server.simps(2)
    by (cases args; cases "arg = ''--help'' \<or> arg = ''-h''"; cases "arg = ''--inspector-port''") (simp_all split: if_splits)
  then show ?case
  proof cases
    case port_option
    then show ?thesis using 2(1)[of v rest] by simp
  next
    case endpoint
    then show ?thesis using 2(2,4,5) by blast
  qed
qed (auto split: if_splits)

text \<open>Without the option the endpoints are taken as they are and the port stays.\<close>

lemma parse_server_endpoints:
  "list_all (\<lambda>a. a \<notin> {''--help'', ''-h'', ''--inspector-port''}) args \<Longrightarrow> bindings @ args \<noteq> [] \<Longrightarrow>
   parse_server args bindings port = RunBroker (bindings @ args) port"
proof (induction args arbitrary: bindings)
  case (Cons a args)
  then have "a \<noteq> ''--help''" "a \<noteq> ''-h''" "a \<noteq> ''--inspector-port''" by simp_all
  then show ?case using Cons by simp
qed simp

section \<open>What the environment configures\<close>

lemma broker_run_append:
  "broker_run env (as @ bs) s = (case broker_run env as s of None \<Rightarrow> None | Some s' \<Rightarrow> broker_run env bs s')"
  by (induction "as" arbitrary: s) (auto split: option.splits)

text \<open>Dialing seeds enters a link for each that opens, under its address, and touches nothing else.\<close>

definition seeds_ok :: "broker \<Rightarrow> bool" where
  "seeds_ok b \<longleftrightarrow> (\<forall>(k, q)\<in>set (m_peers b). pl_address q = k)"

lemma set_update_entries: "set (AList.update k v m) \<subseteq> insert (k, v) (set m)"
  by (induction m) auto

lemma dial_seed:
  assumes "seeds_ok b"
  shows "seeds_ok (addPeer opens a a b)" "linked (addPeer opens a a b) k \<longleftrightarrow> linked b k \<or> opens \<and> k = a"
    "m_discovery (addPeer opens a a b) = m_discovery b" "m_inspectorTcpPort (addPeer opens a a b) = m_inspectorTcpPort b"
    "m_inspectorEndpoint (addPeer opens a a b) = m_inspectorEndpoint b"
proof -
  have dup: "list_ex (\<lambda>(_, q). pl_address q = a) (m_peers b) \<longleftrightarrow> linked b a"
    using assms by (force simp: seeds_ok_def list_ex_iff linked_def map_of_eq_None_iff)
  show "seeds_ok (addPeer opens a a b)"
    using assms set_update_entries by (fastforce simp: seeds_ok_def addPeer_def enter_link_def)
  show "linked (addPeer opens a a b) k \<longleftrightarrow> linked b k \<or> opens \<and> k = a"
    using dup by (auto simp: linked_def addPeer_def enter_link_def umap_simps split: if_splits)
qed (simp_all add: addPeer_def enter_link_def)

lemma dial_seeds:
  assumes "seeds_ok b"
  shows "\<exists>b' V'. broker_run benv (map (\<lambda>a. AddPeer (opens a) a a) seeds) (b, V) = Some (b', V') \<and>
    (\<forall>k. linked b' k \<longleftrightarrow> linked b k \<or> k \<in> set seeds \<and> opens k) \<and> m_discovery b' = m_discovery b \<and>
    m_inspectorTcpPort b' = m_inspectorTcpPort b \<and> m_inspectorEndpoint b' = m_inspectorEndpoint b"
  using assms
proof (induction seeds arbitrary: b V)
  case (Cons a seeds)
  note d = dial_seed[OF Cons.prems, of "opens a" a]
  show ?case using Cons.IH[OF d(1), of "track b a (addPeer (opens a) a a b) V"] d(2-5) by (auto simp: track_def)
qed simp


lemma demo_server_args:
  "parse_server [''--inspector-port'', ''7000'', ''tcp://*:6666''] [] 0 = RunBroker [''tcp://*:6666''] 7000"
proof -
  have "strtol ''7000'' = 7000" by code_simp
  then show ?thesis by simp
qed


text \<open>Whatever happens to the broker while it serves, the program ends with the broker stopped and no link left.\<close>

lemma server_main_stops:
  assumes "parse_server (tl argv) [] 0 = RunBroker bindings port"
  shows "\<exists>b V. server_main benv env now opens uuid life argv = (0, None, Some (b, V)) \<and> broker_inv V b \<and>
    \<not> b_running b \<and> m_peers b = []"
proof -
  let ?acts = "boot_acts env now opens bindings port @ life"
  obtain b V where b: "broker_run benv ?acts (new_broker 10000 uuid, \<lambda>_. None) = Some (b, V)" "broker_inv V b"
    using broker_run_new by blast
  have "broker_run benv (?acts @ [StopBroker]) (new_broker 10000 uuid, \<lambda>_. None) = Some (snd (broker_stop b), V)"
    unfolding broker_run_append[of benv ?acts] b(1) by simp
  then show ?thesis
    using broker_inv_stop[OF b(2)] by (simp add: server_main_def assms) (simp add: broker_stop_def)
qed

end
