(* ===== verification/Cli_Session.thy ===== *)
theory Cli_Session
  imports Zmq_Worker Subscription_Protocol
begin

text \<open>The broker session of one command run, \<^verbatim>\<open>cli/brokersession.cpp\<close>: a worker, the queue it delivers into, and the
  subscriptions a RESET has to be answered with. Whether the worker could be started, and what its \<^verbatim>\<open>sync\<close> returned,
  are parameters.\<close>

record broker_session =
  bs_config :: connection_config
  bs_inbound :: "envelope safe_queue"
  bs_worker :: "envelope zmq_worker option"
  bs_subscriptions :: "(string \<times> origin) list"
  bs_open :: bool

text \<open>The configuration keeps the default heartbeat times of \<^verbatim>\<open>ConnectionConfig\<close>.\<close>

definition new_session :: broker_session where
  "new_session =
     \<lparr>bs_config = \<lparr>cfg_address = '''', cfg_clientId = '''', keepAliveTime = 3000, keepAliveTimeout = 10000\<rparr>,
      bs_inbound = new_queue default_max_size, bs_worker = None, bs_subscriptions = [], bs_open = False\<rparr>"

definition session_open :: "string option \<Rightarrow> string \<Rightarrow> string \<Rightarrow> broker_session \<Rightarrow> string option \<times> broker_session" where
  "session_open thrown address clientId s =
     (let cfg = (bs_config s)\<lparr>cfg_address := address, cfg_clientId := clientId\<rparr>;
          s1 = s\<lparr>bs_config := cfg\<rparr>
      in case thrown of
           Some what \<Rightarrow> (Some (''could not start a session on '' @ address @ '': '' @ what), s1\<lparr>bs_worker := None\<rparr>)
         | None \<Rightarrow> (None, s1\<lparr>bs_worker := Some (worker_start (new_worker cfg)), bs_open := True\<rparr>))"

definition write_control :: "envelope \<Rightarrow> broker_session \<Rightarrow> bool \<times> broker_session" where
  "write_control e s =
     (case bs_worker s of
        None \<Rightarrow> (False, s)
      | Some w \<Rightarrow> (let (ok, w') = writeControlMessage w e in (ok, s\<lparr>bs_worker := Some w'\<rparr>)))"

definition sendControl :: "string \<Rightarrow> string \<Rightarrow> broker_session \<Rightarrow> bool \<times> broker_session" where
  "sendControl k t s =
     (if \<not> bs_open s then (False, s) else write_control (makeControl k (cfg_clientId (bs_config s)) t) s)"

definition subscribe_envelope :: "string \<Rightarrow> origin \<Rightarrow> broker_session \<Rightarrow> envelope" where
  "subscribe_envelope t scp s = (makeControl SUBSCRIBE (cfg_clientId (bs_config s)) t)\<lparr>payload := encodeSubscribeScope scp\<rparr>"

fun note_subscription :: "string \<Rightarrow> origin \<Rightarrow> (string \<times> origin) list \<Rightarrow> (string \<times> origin) list" where
  "note_subscription t scp [] = [(t, scp)]"
| "note_subscription t scp ((t', scp') # subs) =
     (if t' = t then (t', scp) # subs else (t', scp') # note_subscription t scp subs)"

definition session_subscribe :: "string \<Rightarrow> origin \<Rightarrow> broker_session \<Rightarrow> bool \<times> broker_session" where
  "session_subscribe t scp s =
     (if \<not> bs_open s then (False, s)
      else
        (let (ok, s') = write_control (subscribe_envelope t scp s) s
         in if \<not> ok then (False, s')
            else (True, s'\<lparr>bs_subscriptions := note_subscription t scp (bs_subscriptions s')\<rparr>)))"

definition publishEnvelope :: "envelope \<Rightarrow> broker_session \<Rightarrow> bool \<times> broker_session" where
  "publishEnvelope e s =
     (if \<not> bs_open s then (False, s)
      else
        (case bs_worker s of
           None \<Rightarrow> (False, s)
         | Some w \<Rightarrow> (let (ok, w') = writeMessage w e in (ok, s\<lparr>bs_worker := Some w'\<rparr>))))"

definition session_publish :: "string \<Rightarrow> string \<Rightarrow> string \<Rightarrow> broker_session \<Rightarrow> bool \<times> broker_session" where
  "session_publish t pl replyTopic s =
     (if \<not> bs_open s then (False, s)
      else
        publishEnvelope
          \<lparr>header = empty_header\<lparr>handler_key := t, sender_id := cfg_clientId (bs_config s), topic := t,
             reply_topic := (if replyTopic \<noteq> '''' then replyTopic else '''')\<rparr>,
           payload = pl\<rparr> s)"

definition session_sync :: "bool \<Rightarrow> broker_session \<Rightarrow> bool" where
  "session_sync answer s \<longleftrightarrow> bs_open s \<and> answer"

text \<open>The loops of a command test the interrupt flag before each round. A run is described by the looks it takes before
  the flag is found set: what the worker delivered before the look, whether the slice of the running \<^verbatim>\<open>receive\<close> is over,
  and whether the deadline of the command has passed. When the looks are used up the flag is set.\<close>

record look =
  lk_arrivals :: "envelope list"
  lk_slice_over :: bool
  lk_deadline :: bool

definition resubscribe_session :: "broker_session \<Rightarrow> broker_session" where
  "resubscribe_session s =
     fold (\<lambda>(t, scp) s'. snd (write_control (subscribe_envelope t scp s') s')) (bs_subscriptions s)
       (snd (sendControl CONNECT '''' s))"

definition session_deliver :: "envelope list \<Rightarrow> broker_session \<Rightarrow> broker_session" where
  "session_deliver es s =
     s\<lparr>bs_inbound := fold (\<lambda>e q. case push_timeout e q of Some (_, q') \<Rightarrow> q' | None \<Rightarrow> q) es (bs_inbound s)\<rparr>"

fun session_receive :: "look list \<Rightarrow> broker_session \<Rightarrow> envelope option \<times> look list \<times> broker_session" where
  "session_receive looks s =
     (if \<not> bs_open s then (None, looks, s)
      else
        (case looks of
           [] \<Rightarrow> (None, [], s)
         | l # later \<Rightarrow>
             (let s0 = session_deliver (lk_arrivals l) s
              in case try_pop (bs_inbound s0) of
                   (Some e, q) \<Rightarrow>
                     (let s1 = s0\<lparr>bs_inbound := q\<rparr>
                      in if handler_key (header e) = RESET then session_receive later (resubscribe_session s1)
                         else (Some e, later, s1))
                 | (None, q) \<Rightarrow> if lk_slice_over l then (None, later, s0) else session_receive later s0)))"

declare session_receive.simps [simp del]

lemma session_receive_looks: "session_receive looks s = (r, rest, s') \<Longrightarrow> length rest \<le> length looks"
proof (induction looks arbitrary: s)
  case (Cons l looks)
  then show ?case
    by (subst (asm) session_receive.simps) (fastforce simp: Let_def split: if_splits option.splits prod.splits)
qed (simp add: session_receive.simps[of "[]"] split: if_splits)

text \<open>\<^verbatim>\<open>close\<close> also gives the worker it stopped: the worker's thread still writes out what is queued there.\<close>

definition session_close :: "broker_session \<Rightarrow> envelope zmq_worker option \<times> broker_session" where
  "session_close s =
     (if \<not> bs_open s then (None, s)
      else
        (let s1 = snd (sendControl DISCONNECT '''' s)
         in (map_option worker_stop (bs_worker s1), s1\<lparr>bs_open := False, bs_worker := None\<rparr>)))"

section \<open>What a reset re-establishes\<close>

text \<open>The session remembers what it asked for, the last scope of each topic.\<close>

lemma note_subscription_map: "map_of (note_subscription t scp subs) = (map_of subs)(t \<mapsto> scp)"
  by (induction subs rule: note_subscription.induct) (auto simp: fun_eq_iff)

lemma note_subscription_keys: "fst ` set (note_subscription t scp subs) = insert t (fst ` set subs)"
  by (induction t scp subs rule: note_subscription.induct) auto

lemma note_subscription_distinct: "distinct (map fst subs) \<Longrightarrow> distinct (map fst (note_subscription t scp subs))"
  by (induction t scp subs rule: note_subscription.induct) (auto simp: note_subscription_keys)

text \<open>The control queue of an open session with room for \<^verbatim>\<open>n\<close> more messages.\<close>

definition session_queue :: "broker_session \<Rightarrow> envelope list" where
  "session_queue s = (case bs_worker s of None \<Rightarrow> [] | Some w \<Rightarrow> m_queue (m_controlQueue w))"

definition session_room :: "nat \<Rightarrow> broker_session \<Rightarrow> bool" where
  "session_room n s \<longleftrightarrow>
     bs_open s \<and>
     (case bs_worker s of
        None \<Rightarrow> False
      | Some w \<Rightarrow> \<not> m_stop (m_controlQueue w) \<and> length (m_queue (m_controlQueue w)) + n \<le> m_maxSize (m_controlQueue w))"

lemma write_control_room:
  assumes "session_room (Suc n) s"
  shows "session_room n (snd (write_control e s))" and "session_queue (snd (write_control e s)) = session_queue s @ [e]"
    and "bs_subscriptions (snd (write_control e s)) = bs_subscriptions s" and "bs_config (snd (write_control e s)) = bs_config s"
  using assms by (auto simp: session_room_def session_queue_def write_control_def writeControlMessage_def enqueue_def queue_ops
      split: option.splits)

lemma resubscribe_loop:
  "session_room (length subs) s \<Longrightarrow>
   session_queue (fold (\<lambda>(t, scp) s'. snd (write_control (subscribe_envelope t scp s') s')) subs s) =
     session_queue s @ map (\<lambda>(t, scp). subscribe_envelope t scp s) subs"
proof (induction subs arbitrary: s)
  case (Cons p subs)
  obtain t scp where p: "p = (t, scp)" by (cases p)
  let ?s = "snd (write_control (subscribe_envelope t scp s) s)"
  have r: "session_room (Suc (length subs)) s" using Cons.prems by simp
  have e: "subscribe_envelope t' scp' ?s = subscribe_envelope t' scp' s" for t' scp'
    using write_control_room(4)[OF r] by (simp add: subscribe_envelope_def)
  show ?case using Cons.IH[OF write_control_room(1)[OF r]] write_control_room(2)[OF r] by (simp add: p e)
qed simp

lemma sub_view_subscribes:
  "list_all (valid_scope \<circ> snd) subs \<Longrightarrow> distinct (map fst subs) \<Longrightarrow>
   sub_view (map (\<lambda>(t, scp). subscribe_envelope t scp s) subs) V = V ++ map_of subs"
proof (induction subs arbitrary: V)
  case (Cons p subs)
  obtain t scp where p: "p = (t, scp)" by (cases p)
  have "sub_step (subscribe_envelope t scp s) V = V(t \<mapsto> scp)"
    using Cons.prems(1) by (simp add: sub_step_def subscribe_envelope_def p scope_roundtrip)
  moreover have "map_of subs t = None" using Cons.prems(2) by (simp add: p map_of_eq_None_iff)
  ultimately show ?case using Cons by (auto simp: p sub_view_Cons map_add_def fun_eq_iff split: option.splits)
qed simp

text \<open>A broker that forgot the client holds its subscriptions again once it has read the answer to its RESET.\<close>

lemma reset_restores:
  assumes "session_room (Suc (length (bs_subscriptions s))) s"
    and "list_all (valid_scope \<circ> snd) (bs_subscriptions s)" and "distinct (map fst (bs_subscriptions s))"
  shows "\<exists>es. session_queue (resubscribe_session s) = session_queue s @ es \<and> sub_view es Map.empty = map_of (bs_subscriptions s)"
proof -
  let ?c = "makeControl CONNECT (cfg_clientId (bs_config s)) []"
  have o: "bs_open s" using assms(1) by (simp add: session_room_def)
  note w = write_control_room[OF assms(1), of ?c]
  let ?s = "snd (write_control ?c s)"
  have "session_queue (resubscribe_session s) = session_queue s @ ?c # map (\<lambda>(t, scp). subscribe_envelope t scp ?s) (bs_subscriptions s)"
    using resubscribe_loop[of "bs_subscriptions s" ?s] w o by (simp add: resubscribe_session_def sendControl_def)
  moreover have "sub_view (?c # map (\<lambda>(t, scp). subscribe_envelope t scp ?s) (bs_subscriptions s)) Map.empty = map_of (bs_subscriptions s)"
    using sub_view_subscribes[OF assms(2,3), of ?s Map.empty] by (simp add: sub_view_Cons)
  ultimately show ?thesis by blast
qed

end
