(* ===== verification/Payload_Format.thy ===== *)
theory Payload_Format
  imports Text_Config Any_Frame
begin

text \<open>Rendering of payloads for display, \<^verbatim>\<open>cli/payloadformat.cpp\<close>. What protobuf knows of a type is a parameter: given
  the type name and the packed bytes it is the one-line text of the message, or nothing when the type is not
  compiled in, does not parse or does not print.\<close>

datatype payload_format = FormatAuto | FormatText | FormatHex | FormatRaw

type_synonym any_printer = "string \<Rightarrow> string \<Rightarrow> string option"

definition DECODED_WIDTH_FACTOR :: nat where
  "DECODED_WIDTH_FACTOR = 4"

definition HEX_DIGITS :: string where
  "HEX_DIGITS = ''0123456789abcdef''"

text \<open>\<^verbatim>\<open>static_cast<std::size_t>\<close> of an \<^verbatim>\<open>int\<close>, and the three bytes of the ellipsis.\<close>

definition size_of_int :: "int \<Rightarrow> nat" where
  "size_of_int n = nat (n mod 2 ^ 64)"

definition ELLIPSIS :: string where
  "ELLIPSIS = [CHR 0xE2, CHR 0x80, CHR 0xA6]"

abbreviation byte_of :: "char \<Rightarrow> nat" where
  "byte_of c \<equiv> of_char c"

definition isDisplayable :: "char \<Rightarrow> bool" where
  "isDisplayable c \<longleftrightarrow> byte_of c \<ge> 0x20 \<or> c = CHR 0x09 \<or> c = CHR 0x0A \<or> c = CHR 0x0D"

definition hex_pair :: "char \<Rightarrow> string" where
  "hex_pair c = [HEX_DIGITS ! (byte_of c div 16), HEX_DIGITS ! (byte_of c mod 16)]"

definition escape_char :: "char \<Rightarrow> string" where
  "escape_char c =
     (if c = CHR 0x0A then [CHR 0x5C, CHR ''n'']
      else if c = CHR 0x0D then [CHR 0x5C, CHR ''r'']
      else if c = CHR 0x09 then [CHR 0x5C, CHR ''t'']
      else if byte_of c < 0x20 \<or> byte_of c = 0x7f then [CHR 0x5C, CHR ''x''] @ hex_pair c
      else [c])"

definition escapeControlCharacters :: "string \<Rightarrow> string" where
  "escapeControlCharacters text = fold (\<lambda>c out. out @ escape_char c) text ''''"

definition truncationNote :: "nat \<Rightarrow> nat \<Rightarrow> string" where
  "truncationNote len shown =
     (if len \<le> shown then '''' else '' '' @ ELLIPSIS @ '' (+'' @ to_string (len - shown) @ '' bytes)'')"

definition looksLikeText :: "string \<Rightarrow> bool" where
  "looksLikeText pl \<longleftrightarrow> list_all isDisplayable pl"

definition toHex :: "string \<Rightarrow> int \<Rightarrow> string" where
  "toHex bytes maxBytes =
     (let shown = min (length bytes) (size_of_int maxBytes)
      in fold (\<lambda>i out. out @ (if i > 0 then '' '' else '''') @ hex_pair (bytes ! i)) [0..<shown] '''' @
         truncationNote (length bytes) shown)"

definition renderPackedAny :: "any_printer \<Rightarrow> string \<Rightarrow> string" where
  "renderPackedAny pool pl =
     (let (typeName, valueBytes) = typeNameOf pl
      in if typeName = '''' then ''''
         else
           (case pool typeName valueBytes of
              None \<Rightarrow> ''''
            | Some text \<Rightarrow> typeName @ '' { '' @ text @ ''}''))"

definition renderPayload :: "any_printer \<Rightarrow> string \<Rightarrow> payload_format \<Rightarrow> int \<Rightarrow> string" where
  "renderPayload pool pl format maxBytes =
     (let as_text = (let shown = min (length pl) (size_of_int maxBytes)
                     in escapeControlCharacters (take shown pl) @ truncationNote (length pl) shown);
          decoded = renderPackedAny pool pl
      in if pl = '''' then ''(empty)''
         else if format = FormatHex then toHex pl maxBytes
         else if format = FormatAuto \<and> decoded \<noteq> ''''
         then (let budget = size_of_int maxBytes * DECODED_WIDTH_FACTOR;
                   shown = min (length decoded) budget
               in escapeControlCharacters (take shown decoded) @ (if shown < length decoded then '' '' @ ELLIPSIS else ''''))
         else if format = FormatAuto \<and> \<not> looksLikeText pl then toHex pl maxBytes
         else as_text)"

section \<open>One line, no control characters\<close>

definition plain :: "char \<Rightarrow> bool" where
  "plain c \<longleftrightarrow> 0x20 \<le> byte_of c \<and> byte_of c \<noteq> 0x7f"

lemma fold_append_concat: "fold (\<lambda>x out. out @ g x) xs s = s @ concat (map g xs)"
  by (induction xs arbitrary: s) simp_all

lemma HEX_DIGITS_plain: "i < 16 \<Longrightarrow> plain (HEX_DIGITS ! i)"
proof -
  assume "i < 16"
  then have "HEX_DIGITS ! i \<in> set HEX_DIGITS" by (intro nth_mem) (simp add: HEX_DIGITS_def)
  moreover have "\<forall>c\<in>set HEX_DIGITS. plain c" by (simp add: HEX_DIGITS_def plain_def)
  ultimately show ?thesis by blast
qed

lemma hex_pair_plain: "list_all plain (hex_pair c)"
proof -
  have "byte_of c div 16 < 16" using of_char_less_256[of c] by linarith
  then show ?thesis by (simp add: hex_pair_def HEX_DIGITS_plain)
qed

lemma escape_char_plain: "list_all plain (escape_char c)"
  using hex_pair_plain[of c] by (auto simp: escape_char_def plain_def)

lemma to_string_plain: "list_all plain (to_string n)"
proof -
  have "is_digit c \<Longrightarrow> plain c" for c by (simp add: is_digit_def plain_def)
  then show ?thesis using to_string_digits[of n] by (auto simp: list_all_iff)
qed

lemma list_all_concat_map: "(\<And>x. list_all P (g x)) \<Longrightarrow> list_all P (concat (map g xs))"
  by (induction xs) simp_all

lemma escape_plain: "list_all plain (escapeControlCharacters s)"
  unfolding escapeControlCharacters_def fold_append_concat using list_all_concat_map[OF escape_char_plain] by simp

lemma note_plain: "list_all plain (truncationNote n k)"
  using to_string_plain by (simp add: truncationNote_def ELLIPSIS_def plain_def)

lemma toHex_plain: "list_all plain (toHex bytes n)"
proof -
  have "list_all plain ((if i > 0 then '' '' else []) @ hex_pair (bytes ! i))" for i :: nat
    using hex_pair_plain by (simp add: plain_def)
  from list_all_concat_map[of plain "\<lambda>i. (if i > 0 then '' '' else []) @ hex_pair (bytes ! i)", OF this]
  show ?thesis using note_plain by (simp only: toHex_def Let_def fold_append_concat list_all_append append_Nil simp_thms)
qed



end
