(* ===== verification/Cli_Options.thy ===== *)
theory Cli_Options
  imports Payload_Format Message_Keys
begin

text \<open>The command line of \<^verbatim>\<open>cli/options.cpp\<close>. Floating point is a parameter: its type, what \<^verbatim>\<open>std::stod\<close> reads (nothing
  when it throws), the test for a negative number and the number one. An error is the text the parser leaves.\<close>

datatype command = CmdNone | CmdPublish | CmdSubscribe | CmdRequest | CmdStats | CmdTap | CmdRecord | CmdReplay

record 'd floats =
  stod :: "string \<Rightarrow> 'd option"
  negative :: "'d \<Rightarrow> bool"
  float_one :: 'd

record 'd options =
  opt_command :: command
  opt_args :: "string list"
  opt_address :: string
  opt_clientId :: string
  opt_format :: payload_format
  opt_count :: int
  opt_countGiven :: bool
  opt_timeoutMs :: int
  opt_origin :: origin
  opt_maxBytes :: int
  opt_verbose :: bool
  opt_help :: bool
  opt_speed :: 'd
  opt_includeControl :: bool
  opt_preserveUuids :: bool

definition default_options :: "'d floats \<Rightarrow> 'd options" where
  "default_options fl =
     \<lparr>opt_command = CmdNone, opt_args = [], opt_address = '''', opt_clientId = '''', opt_format = FormatAuto,
      opt_count = 0, opt_countGiven = False, opt_timeoutMs = 5000, opt_origin = Origin_Any, opt_maxBytes = 64,
      opt_verbose = False, opt_help = False, opt_speed = float_one fl, opt_includeControl = False,
      opt_preserveUuids = False\<rparr>"

definition DEFAULT_ADDRESS :: string where "DEFAULT_ADDRESS = ''tcp://127.0.0.1:5555''"
definition DEFAULT_TAP_ENDPOINT :: string where "DEFAULT_TAP_ENDPOINT = ''ipc:///tmp/broker_inspector.sock''"

definition UNLIMITED_ARGS :: nat where "UNLIMITED_ARGS = 2 ^ 64 - 1"

record command_spec =
  cs_name :: string
  cs_command :: command
  cs_minArgs :: nat
  cs_maxArgs :: nat

definition COMMANDS :: "command_spec list" where
  "COMMANDS =
     [\<lparr>cs_name = ''pub'', cs_command = CmdPublish, cs_minArgs = 1, cs_maxArgs = 2\<rparr>,
      \<lparr>cs_name = ''publish'', cs_command = CmdPublish, cs_minArgs = 1, cs_maxArgs = 2\<rparr>,
      \<lparr>cs_name = ''sub'', cs_command = CmdSubscribe, cs_minArgs = 1, cs_maxArgs = UNLIMITED_ARGS\<rparr>,
      \<lparr>cs_name = ''subscribe'', cs_command = CmdSubscribe, cs_minArgs = 1, cs_maxArgs = UNLIMITED_ARGS\<rparr>,
      \<lparr>cs_name = ''req'', cs_command = CmdRequest, cs_minArgs = 1, cs_maxArgs = 2\<rparr>,
      \<lparr>cs_name = ''request'', cs_command = CmdRequest, cs_minArgs = 1, cs_maxArgs = 2\<rparr>,
      \<lparr>cs_name = ''stats'', cs_command = CmdStats, cs_minArgs = 0, cs_maxArgs = 0\<rparr>,
      \<lparr>cs_name = ''tap'', cs_command = CmdTap, cs_minArgs = 0, cs_maxArgs = 1\<rparr>,
      \<lparr>cs_name = ''record'', cs_command = CmdRecord, cs_minArgs = 1, cs_maxArgs = 2\<rparr>,
      \<lparr>cs_name = ''replay'', cs_command = CmdReplay, cs_minArgs = 1, cs_maxArgs = 1\<rparr>]"

definition findCommand :: "string \<Rightarrow> command_spec option" where
  "findCommand name = List.find (\<lambda>spec. name = cs_name spec) COMMANDS"

definition commandName :: "command \<Rightarrow> string" where
  "commandName c = (case List.find (\<lambda>spec. cs_command spec = c) COMMANDS of Some spec \<Rightarrow> cs_name spec | None \<Rightarrow> '''')"

definition quoted :: "string \<Rightarrow> string" where
  "quoted s = [CHR 0x27] @ s @ [CHR 0x27]"

text \<open>The value after an option, and what is left of the arguments.\<close>

definition takeValue :: "string \<Rightarrow> string list \<Rightarrow> string + (string \<times> string list)" where
  "takeValue option_name rest = (case rest of [] \<Rightarrow> Inl (option_name @ '' needs a value'') | v # rest' \<Rightarrow> Inr (v, rest'))"

definition takeInt :: "string \<Rightarrow> nat \<Rightarrow> string list \<Rightarrow> string + (int \<times> string list)" where
  "takeInt option_name minValue rest =
     (case takeValue option_name rest of
        Inl e \<Rightarrow> Inl e
      | Inr (text, rest') \<Rightarrow>
          (case stoi text of
             Number v \<Rightarrow>
               if v < int minValue then Inl (option_name @ '' must be at least '' @ to_string minValue) else Inr (v, rest')
           | _ \<Rightarrow> Inl (option_name @ '' expects a number, got '' @ quoted text)))"

definition parseSpeed :: "'d floats \<Rightarrow> string \<Rightarrow> string + 'd" where
  "parseSpeed fl text =
     (case stod fl text of
        None \<Rightarrow> Inl (''--speed expects a number, got '' @ quoted text)
      | Some v \<Rightarrow> if negative fl v then Inl ''--speed cannot be negative'' else Inr v)"

definition parseFormat :: "string \<Rightarrow> string + payload_format" where
  "parseFormat text =
     (if text = ''auto'' then Inr FormatAuto
      else if text = ''text'' then Inr FormatText
      else if text = ''hex'' then Inr FormatHex
      else if text = ''raw'' then Inr FormatRaw
      else Inl (''--format expects auto, text, hex, or raw; got '' @ quoted text))"

definition parseOrigin :: "string \<Rightarrow> string + origin" where
  "parseOrigin text =
     (if text = ''any'' then Inr Origin_Any
      else if text = ''local'' then Inr Origin_Local
      else if text = ''mesh'' then Inr Origin_Mesh
      else Inl (''--origin expects any, local, or mesh; got '' @ quoted text))"

definition isOption :: "string \<Rightarrow> bool" where
  "isOption arg \<longleftrightarrow> length arg > 1 \<and> hd arg = CHR ''-''"

text \<open>One option, with its value read from the arguments after it.\<close>

definition with_value ::
  "string \<Rightarrow> (string \<Rightarrow> string + 'v) \<Rightarrow> ('v \<Rightarrow> 'o) \<Rightarrow> string list \<Rightarrow> string + ('o \<times> string list)" where
  "with_value arg parse store rest =
     (case takeValue arg rest of
        Inl e \<Rightarrow> Inl e
      | Inr (text, rest') \<Rightarrow> (case parse text of Inl e \<Rightarrow> Inl e | Inr v \<Rightarrow> Inr (store v, rest')))"

definition with_int :: "string \<Rightarrow> nat \<Rightarrow> (int \<Rightarrow> 'o) \<Rightarrow> string list \<Rightarrow> string + ('o \<times> string list)" where
  "with_int arg minValue store rest =
     (case takeInt arg minValue rest of Inl e \<Rightarrow> Inl e | Inr (v, rest') \<Rightarrow> Inr (store v, rest'))"

definition parse_option :: "'d floats \<Rightarrow> string \<Rightarrow> string list \<Rightarrow> 'd options \<Rightarrow> string + ('d options \<times> string list)" where
  "parse_option fl arg rest out =
     (if arg = ''-a'' \<or> arg = ''--address'' then with_value arg Inr (\<lambda>v. out\<lparr>opt_address := v\<rparr>) rest
      else if arg = ''--id'' then with_value arg Inr (\<lambda>v. out\<lparr>opt_clientId := v\<rparr>) rest
      else if arg = ''-f'' \<or> arg = ''--format'' then with_value arg parseFormat (\<lambda>v. out\<lparr>opt_format := v\<rparr>) rest
      else if arg = ''-n'' \<or> arg = ''--count'' then with_int arg 0 (\<lambda>v. out\<lparr>opt_count := v, opt_countGiven := True\<rparr>) rest
      else if arg = ''-t'' \<or> arg = ''--timeout'' then with_int arg 1 (\<lambda>v. out\<lparr>opt_timeoutMs := v\<rparr>) rest
      else if arg = ''--origin'' then with_value arg parseOrigin (\<lambda>v. out\<lparr>opt_origin := v\<rparr>) rest
      else if arg = ''--max-bytes'' then with_int arg 1 (\<lambda>v. out\<lparr>opt_maxBytes := v\<rparr>) rest
      else if arg = ''--speed'' then with_value arg (parseSpeed fl) (\<lambda>v. out\<lparr>opt_speed := v\<rparr>) rest
      else if arg = ''--include-control'' then Inr (out\<lparr>opt_includeControl := True\<rparr>, rest)
      else if arg = ''--preserve-uuids'' then Inr (out\<lparr>opt_preserveUuids := True\<rparr>, rest)
      else Inl (''unknown option '' @ quoted arg))"

lemma with_value_rest: "with_value arg parse store rest = Inr (out, rest') \<Longrightarrow> length rest' \<le> length rest"
  by (auto simp: with_value_def takeValue_def split: sum.splits list.splits)

lemma with_int_rest: "with_int arg m store rest = Inr (out, rest') \<Longrightarrow> length rest' \<le> length rest"
  by (auto simp: with_int_def takeInt_def takeValue_def split: sum.splits list.splits stoi_result.splits if_splits)

lemma parse_option_rest:
  assumes "parse_option fl arg rest out = Inr (out', rest')"
  shows "length rest' \<le> length rest"
  using assms unfolding parse_option_def by (simp split: if_split_asm add: with_value_rest with_int_rest)

text \<open>The loop over the arguments: an error, or the options, the command's specification, and whether help was asked for,
  which ends it.\<close>

function parse_loop ::
  "'d floats \<Rightarrow> string list \<Rightarrow> command_spec option \<Rightarrow> 'd options \<Rightarrow> string + (bool \<times> command_spec option \<times> 'd options)" where
  "parse_loop fl [] spec out = Inr (False, spec, out)"
| "parse_loop fl (arg # rest) spec out =
     (if arg = ''-h'' \<or> arg = ''--help'' then Inr (True, spec, out\<lparr>opt_help := True\<rparr>)
      else if arg = ''-v'' \<or> arg = ''--verbose'' then parse_loop fl rest spec (out\<lparr>opt_verbose := True\<rparr>)
      else if isOption arg
      then (case parse_option fl arg rest out of
              Inl e \<Rightarrow> Inl e
            | Inr (out', rest') \<Rightarrow> parse_loop fl rest' spec out')
      else if opt_command out = CmdNone
      then (case findCommand arg of
              None \<Rightarrow> Inl (''unknown command '' @ quoted arg)
            | Some s \<Rightarrow> parse_loop fl rest (Some s) (out\<lparr>opt_command := cs_command s\<rparr>))
      else parse_loop fl rest spec (out\<lparr>opt_args := opt_args out @ [arg]\<rparr>))"
  by pat_completeness auto

termination
  by (relation "measure (\<lambda>(fl, args, spec, out). length args)") (auto dest: parse_option_rest simp: less_Suc_eq_le)

definition parseArguments :: "'d floats \<Rightarrow> string option \<Rightarrow> string list \<Rightarrow> string + 'd options" where
  "parseArguments fl wispAddress argv =
     (case parse_loop fl (tl argv) None (default_options fl) of
        Inl e \<Rightarrow> Inl e
      | Inr (True, _, out) \<Rightarrow> Inr out
      | Inr (False, None, out) \<Rightarrow> Inl ''no command given''
      | Inr (False, Some spec, out) \<Rightarrow>
          if length (opt_args out) < cs_minArgs spec
          then Inl (commandName (opt_command out) @ '' needs at least '' @ to_string (cs_minArgs spec) @ '' argument(s)'')
          else if length (opt_args out) > cs_maxArgs spec
          then Inl (commandName (opt_command out) @ '' takes at most '' @ to_string (cs_maxArgs spec) @ '' argument(s)'')
          else if opt_address out = ''''
          then Inr (out\<lparr>opt_address := (case wispAddress of Some a \<Rightarrow> a | None \<Rightarrow> DEFAULT_ADDRESS)\<rparr>)
          else Inr out)"

text \<open>The help text, a line per element; each ends with a newline.\<close>

definition usageText :: string where
  "usageText = concat (map (\<lambda>l. l @ [CHR 0x0A])
     [''wisp-cli - command-line client for a Wisp broker'',
      [],
      ''Usage:'',
      (''  wisp-cli pub <topic> [data]   publish a message; reads stdin if data is omitted or '' @ [CHR 0x22] @ ''-'' @ [CHR 0x22]),
      (''  wisp-cli sub <topic>...       print messages arriving on those topics ('' @ [CHR 0x22] @ ''*'' @ [CHR 0x22] @ '' = every topic)''),
      ''  wisp-cli req <topic> [data]   send a request, print the reply, exit 1 if none arrives'',
      ''  wisp-cli stats                print broker statistics (one report, then exit)'',
      ''  wisp-cli tap [endpoint]       print every message a broker processes, control traffic included'',
      ''  wisp-cli record <file> [endpoint]'',
      ''                                capture everything a broker processes to <file>'',
      ''  wisp-cli replay <file>        publish a capture back to a broker, at its original pace'',
      [],
      ''Options:'',
      ''  -a, --address ADDR   broker endpoint (default tcp://127.0.0.1:5555, or $WISP_ADDRESS)'',
      ''      --id ID          client id to connect as (default wisp-cli-<pid>-<random>)'',
      ''  -f, --format FMT     payload rendering: auto, text, hex, raw (default auto)'',
      ''  -n, --count N        stop after N messages; 0 runs until interrupted'',
      ''                       (default 0 for sub and tap, 1 for stats)'',
      ''  -t, --timeout MS     connect and request timeout (default 5000)'',
      ''      --origin WHERE   sub: which messages to print - any, local (published on this'',
      ''                       broker), or mesh (carried in from a peer). Default any; a'',
      ''                       local subscription is not carried across peer links at all'',
      ''      --max-bytes N    payload bytes to render before truncating (default 64)'',
      (''  -v, --verbose        show the client library'' @ [CHR 0x27] @ ''s own log output''),
      ''  -h, --help           this text'',
      [],
      ''Replay options:'',
      ''      --speed N        multiplier on the captured pacing (default 1.0); 0 sends unpaced'',
      ''      --include-control'',
      ''                       also replay the __KEY__ control traffic in the capture. Off by'',
      ''                       default because it is destructive: a captured __SET_CLUSTER__'',
      ''                       would move the broker to another mesh'',
      ''      --preserve-uuids keep the message ids the original broker stamped. Off by default:'',
      ''                       a broker discards ids it still remembers, so such a replay is'',
      ''                       dropped wholesale by the very broker that recorded the capture.'',
      ''                       For testing deduplication, not for reproducing traffic'',
      [],
      ''The tap endpoint defaults to $WISP_INSPECTOR_SOCK, else ipc:///tmp/broker_inspector.sock.'',
      ''A broker started with --inspector-port N can be tapped remotely: wisp-cli tap tcp://host:N'',
      [],
      ''Examples:'',
      (''  wisp-cli sub '' @ [CHR 0x27] @ ''*'' @ [CHR 0x27] @ ''                            watch everything flowing through a broker''),
      (''  wisp-cli pub telemetry '' @ [CHR 0x27] @ ''{'' @ [CHR 0x22] @ ''temp'' @ [CHR 0x22] @ '':21}'' @ [CHR 0x27] @ ''         publish a JSON payload''),
      ''  cat frame.bin | wisp-cli pub camera/frame    publish binary data from stdin'',
      ''  wisp-cli req config/get name -t 1000         request/reply with a 1 s timeout'',
      ''  wisp-cli stats -n 0                          stream broker statistics every second'',
      ''  wisp-cli record incident.wisp -n 5000        capture 5000 messages for later replay'',
      ''  wisp-cli replay incident.wisp --speed 0      re-publish a capture as fast as it is taken''])"

section \<open>Every set of options can be written\<close>

fun format_name :: "payload_format \<Rightarrow> string" where
  "format_name FormatAuto = ''auto''"
| "format_name FormatText = ''text''"
| "format_name FormatHex = ''hex''"
| "format_name FormatRaw = ''raw''"

definition origin_name :: "origin \<Rightarrow> string" where
  "origin_name scp = (if scp = Origin_Any then ''any'' else if scp = Origin_Local then ''local'' else ''mesh'')"

text \<open>A command line for given options.\<close>

definition options_line :: "('d \<Rightarrow> string) \<Rightarrow> 'd options \<Rightarrow> string list" where
  "options_line show_float out =
     [commandName (opt_command out), ''--address'', opt_address out, ''--id'', opt_clientId out,
      ''--format'', format_name (opt_format out)] @
     (if opt_countGiven out then [''--count'', to_string (nat (opt_count out))] else []) @
     [''--timeout'', to_string (nat (opt_timeoutMs out)), ''--origin'', origin_name (opt_origin out),
      ''--max-bytes'', to_string (nat (opt_maxBytes out)), ''--speed'', show_float (opt_speed out)] @
     (if opt_verbose out then [''--verbose''] else []) @
     (if opt_includeControl out then [''--include-control''] else []) @
     (if opt_preserveUuids out then [''--preserve-uuids''] else []) @ opt_args out"

definition options_ok :: "'d floats \<Rightarrow> ('d \<Rightarrow> string) \<Rightarrow> 'd options \<Rightarrow> bool" where
  "options_ok fl show_float out \<longleftrightarrow>
     opt_command out \<noteq> CmdNone \<and> \<not> opt_help out \<and> list_all (\<lambda>a. \<not> isOption a) (opt_args out) \<and>
     (\<exists>spec. findCommand (commandName (opt_command out)) = Some spec \<and>
        cs_minArgs spec \<le> length (opt_args out) \<and> length (opt_args out) \<le> cs_maxArgs spec) \<and>
     opt_address out \<noteq> '''' \<and> valid_scope (opt_origin out) \<and>
     0 \<le> opt_count out \<and> opt_count out < 2 ^ 31 \<and> (\<not> opt_countGiven out \<longrightarrow> opt_count out = 0) \<and>
     1 \<le> opt_timeoutMs out \<and> opt_timeoutMs out < 2 ^ 31 \<and> 1 \<le> opt_maxBytes out \<and> opt_maxBytes out < 2 ^ 31 \<and>
     stod fl (show_float (opt_speed out)) = Some (opt_speed out) \<and> \<not> negative fl (opt_speed out)"

lemma parse_value_options:
  "parse_loop fl (''--address'' # v # rest) spec out = parse_loop fl rest spec (out\<lparr>opt_address := v\<rparr>)"
  "parse_loop fl (''--id'' # v # rest) spec out = parse_loop fl rest spec (out\<lparr>opt_clientId := v\<rparr>)"
  "parse_loop fl (''--verbose'' # rest) spec out = parse_loop fl rest spec (out\<lparr>opt_verbose := True\<rparr>)"
  "parse_loop fl (''--include-control'' # rest) spec out = parse_loop fl rest spec (out\<lparr>opt_includeControl := True\<rparr>)"
  "parse_loop fl (''--preserve-uuids'' # rest) spec out = parse_loop fl rest spec (out\<lparr>opt_preserveUuids := True\<rparr>)"
  by (simp_all add: isOption_def parse_option_def with_value_def takeValue_def)

lemma parse_named_options:
  "parse_loop fl (''--format'' # format_name f # rest) spec out = parse_loop fl rest spec (out\<lparr>opt_format := f\<rparr>)"
  "valid_scope scp \<Longrightarrow> parse_loop fl (''--origin'' # origin_name scp # rest) spec out = parse_loop fl rest spec (out\<lparr>opt_origin := scp\<rparr>)"
  "stod fl s = Some x \<Longrightarrow> \<not> negative fl x \<Longrightarrow>
     parse_loop fl (''--speed'' # s # rest) spec out = parse_loop fl rest spec (out\<lparr>opt_speed := x\<rparr>)"
  by (cases f; simp add: isOption_def parse_option_def with_value_def takeValue_def parseFormat_def)
    (auto simp: isOption_def parse_option_def with_value_def takeValue_def parseOrigin_def origin_name_def valid_scope_def parseSpeed_def)

lemma stoi_nat: "0 \<le> n \<Longrightarrow> n < 2 ^ 31 \<Longrightarrow> stoi (to_string (nat n)) = Number n"
  using stoi_to_string[of "[]" "nat n"] by (simp add: nat_less_iff)

lemma parse_int_options:
  "0 \<le> n \<Longrightarrow> n < 2 ^ 31 \<Longrightarrow> parse_loop fl (''--count'' # to_string (nat n) # rest) spec out =
     parse_loop fl rest spec (out\<lparr>opt_count := n, opt_countGiven := True\<rparr>)"
  "1 \<le> n \<Longrightarrow> n < 2 ^ 31 \<Longrightarrow> parse_loop fl (''--timeout'' # to_string (nat n) # rest) spec out =
     parse_loop fl rest spec (out\<lparr>opt_timeoutMs := n\<rparr>)"
  "1 \<le> n \<Longrightarrow> n < 2 ^ 31 \<Longrightarrow> parse_loop fl (''--max-bytes'' # to_string (nat n) # rest) spec out =
     parse_loop fl rest spec (out\<lparr>opt_maxBytes := n\<rparr>)"
  using stoi_nat[of n] by (simp_all add: isOption_def parse_option_def with_int_def takeInt_def takeValue_def)

lemma parse_arguments_left:
  "list_all (\<lambda>a. \<not> isOption a) as \<Longrightarrow> opt_command out \<noteq> CmdNone \<Longrightarrow>
   parse_loop fl as spec out = Inr (False, spec, out\<lparr>opt_args := opt_args out @ as\<rparr>)"
proof (induction as arbitrary: out)
  case (Cons a as)
  then have "a \<noteq> ''-h''" "a \<noteq> ''--help''" "a \<noteq> ''-v''" "a \<noteq> ''--verbose''" by (auto simp: isOption_def)
  then show ?case using Cons by simp
qed simp

lemma command_names:
  "c \<noteq> CmdNone \<Longrightarrow> \<exists>spec. findCommand (commandName c) = Some spec \<and> cs_command spec = c \<and> \<not> isOption (commandName c)"
  by (cases c) (simp_all add: findCommand_def commandName_def COMMANDS_def isOption_def)

lemma parse_command:
  assumes "opt_command out = CmdNone" and "c \<noteq> CmdNone" and "findCommand (commandName c) = Some spec"
  shows "parse_loop fl (commandName c # rest) s out = parse_loop fl rest (Some spec) (out\<lparr>opt_command := c\<rparr>)"
proof -
  have "\<not> isOption (commandName c)" "cs_command spec = c" using command_names[OF assms(2)] assms(3) by auto
  moreover from this(1) have "commandName c \<noteq> ''-h''" "commandName c \<noteq> ''--help''" "commandName c \<noteq> ''-v''" "commandName c \<noteq> ''--verbose''"
    by (auto simp: isOption_def)
  ultimately show ?thesis using assms(1,3) by simp
qed

declare parse_loop.simps(2) [simp del]

lemma parse_flags:
  "parse_loop fl ((if b then [''--verbose''] else []) @ rest) spec out = parse_loop fl rest spec (if b then out\<lparr>opt_verbose := True\<rparr> else out)"
  "parse_loop fl ((if b then [''--include-control''] else []) @ rest) spec out =
     parse_loop fl rest spec (if b then out\<lparr>opt_includeControl := True\<rparr> else out)"
  "parse_loop fl ((if b then [''--preserve-uuids''] else []) @ rest) spec out =
     parse_loop fl rest spec (if b then out\<lparr>opt_preserveUuids := True\<rparr> else out)"
  by (simp_all add: parse_value_options)

lemma parse_count:
  "0 \<le> n \<Longrightarrow> n < 2 ^ 31 \<Longrightarrow> parse_loop fl ((if b then [''--count'', to_string (nat n)] else []) @ rest) spec out =
     parse_loop fl rest spec (if b then out\<lparr>opt_count := n, opt_countGiven := True\<rparr> else out)"
  by (simp add: parse_int_options)

lemma parse_line:
  assumes "options_ok fl show_float out" and "findCommand (commandName (opt_command out)) = Some spec"
  shows "parse_loop fl (options_line show_float out) None (default_options fl) = Inr (False, Some spec, out)"
proof -
  note ok = assms(1)[unfolded options_ok_def]
  let ?d = "default_options fl"
  have cmd: "opt_command ?d = CmdNone" "opt_command out \<noteq> CmdNone" using ok by (simp_all add: default_options_def)
  have n: "0 \<le> opt_count out" "opt_count out < 2 ^ 31" "1 \<le> opt_timeoutMs out" "opt_timeoutMs out < 2 ^ 31"
    "1 \<le> opt_maxBytes out" "opt_maxBytes out < 2 ^ 31" "valid_scope (opt_origin out)"
    "stod fl (show_float (opt_speed out)) = Some (opt_speed out)" "\<not> negative fl (opt_speed out)" using ok by auto
  define o1 where "o1 = ?d\<lparr>opt_command := opt_command out, opt_address := opt_address out, opt_clientId := opt_clientId out,
    opt_format := opt_format out\<rparr>"
  define o2 where "o2 = (if opt_countGiven out then o1\<lparr>opt_count := opt_count out, opt_countGiven := True\<rparr> else o1)"
  define o3 where "o3 = o2\<lparr>opt_timeoutMs := opt_timeoutMs out, opt_origin := opt_origin out, opt_maxBytes := opt_maxBytes out,
    opt_speed := opt_speed out\<rparr>"
  define o4 where "o4 = (if opt_verbose out then o3\<lparr>opt_verbose := True\<rparr> else o3)"
  define o5 where "o5 = (if opt_includeControl out then o4\<lparr>opt_includeControl := True\<rparr> else o4)"
  define o6 where "o6 = (if opt_preserveUuids out then o5\<lparr>opt_preserveUuids := True\<rparr> else o5)"
  have o6: "o6 = out\<lparr>opt_args := []\<rparr>"
    using ok by (simp add: o6_def o5_def o4_def o3_def o2_def o1_def default_options_def)
  have "parse_loop fl (options_line show_float out) None ?d = parse_loop fl (opt_args out) (Some spec) o6"
    unfolding options_line_def append_Cons append_Nil parse_command[OF cmd assms(2)] parse_value_options(1,2) parse_named_options(1)
      parse_count[OF n(1,2)] parse_int_options(2)[OF n(3,4)] parse_named_options(2)[OF n(7)] parse_int_options(3)[OF n(5,6)]
      parse_named_options(3)[OF n(8,9)] parse_flags
    by (simp only: o1_def[symmetric] o2_def[symmetric] o3_def[symmetric] o4_def[symmetric] o5_def[symmetric] o6_def[symmetric])
  then show ?thesis using parse_arguments_left[of "opt_args out" o6 fl "Some spec"] ok o6 by simp
qed

text \<open>C33. Every legal set of options can be given on the command line and is parsed to itself, whatever
  the environment holds; and a line asking for help is never an error for what stands after the request.\<close>

theorem arguments_roundtrip:
  assumes "options_ok fl show_float out"
  shows "parseArguments fl env (prog # options_line show_float out) = Inr out \<and>
    (\<exists>out'. parseArguments fl env (prog # ''--help'' # rest) = Inr out' \<and> opt_help out')"
proof
  obtain spec where spec: "findCommand (commandName (opt_command out)) = Some spec"
    "cs_minArgs spec \<le> length (opt_args out)" "length (opt_args out) \<le> cs_maxArgs spec"
    using assms by (auto simp: options_ok_def)
  then show "parseArguments fl env (prog # options_line show_float out) = Inr out"
    using parse_line[OF assms spec(1)] assms by (simp add: parseArguments_def options_ok_def)
qed (simp add: parseArguments_def parse_loop.simps)

definition int_floats :: "int floats" where
  "int_floats = \<lparr>stod = (\<lambda>s. case stoi s of Number v \<Rightarrow> Some v | _ \<Rightarrow> None), negative = (\<lambda>v. v < 0), float_one = 1\<rparr>"

definition demo_options :: "int options" where
  "demo_options = (default_options int_floats)\<lparr>opt_command := CmdSubscribe, opt_args := [''t'', ''-''], opt_address := ''tcp://h:1'',
     opt_clientId := ''me'', opt_count := 3, opt_countGiven := True, opt_origin := Origin_Mesh, opt_verbose := True\<rparr>"

theorem arguments_roundtrip_witness:
  "parseArguments int_floats None (''wisp-cli'' # options_line (\<lambda>n. to_string (nat n)) demo_options) = Inr demo_options"
proof -
  have "options_ok int_floats (\<lambda>n. to_string (nat n)) demo_options"
    using stoi_nat[of 1]
    by (simp add: options_ok_def demo_options_def default_options_def int_floats_def valid_scope_def isOption_def findCommand_def
        commandName_def COMMANDS_def UNLIMITED_ARGS_def)
  from arguments_roundtrip[OF this] show ?thesis by blast
qed

end
