(* ===== verification/Recording.thy ===== *)
theory Recording
  imports Byte_Order Wire_Frame
begin

text \<open>Capture files, \<^verbatim>\<open>cli/recording.cpp\<close>. A file is the bytes in it, an open reader the bytes it has still to read;
  the answers of \<^verbatim>\<open>fopen\<close>, \<^verbatim>\<open>fwrite\<close> and \<^verbatim>\<open>fclose\<close> are parameters, the text of a system error too. Times are
  microseconds.\<close>

section \<open>Fixed-width integers\<close>

definition appendLe32 :: "string \<Rightarrow> u32 \<Rightarrow> string" where
  "appendLe32 out v = fold (\<lambda>i s. s @ [char_of (unat (drop_bit (8 * i) v AND 0xff))]) [0..<4] out"

definition appendLe64 :: "string \<Rightarrow> int \<Rightarrow> string" where
  "appendLe64 out v =
     (let bits = word_of_int v :: u64 in fold (\<lambda>i s. s @ [char_of (unat (drop_bit (8 * i) bits AND 0xff))]) [0..<8] out)"

definition readLe32 :: "string \<Rightarrow> u32" where
  "readLe32 bytes = fold (\<lambda>i v. v OR push_bit (8 * i) (of_char (bytes ! i))) [0..<4] 0"

definition readLe64 :: "string \<Rightarrow> int" where
  "readLe64 bytes = sint (fold (\<lambda>i v. v OR push_bit (8 * i) (of_char (bytes ! i))) [0..<8] 0 :: u64)"

section \<open>Writing\<close>

definition RECORDING_MAGIC :: string where
  "RECORDING_MAGIC = ''WISPREC1''"

record record_writer =
  rw_file :: "string option"
  rw_count :: u64
  rw_startMicros :: int

definition new_writer :: record_writer where
  "new_writer = \<lparr>rw_file = None, rw_count = 0, rw_startMicros = 0\<rparr>"

text \<open>The result of an operation of the writer: the error it leaves, if any.\<close>

definition writer_open :: "bool \<Rightarrow> bool \<Rightarrow> string \<Rightarrow> string \<Rightarrow> record_writer \<Rightarrow> string option \<times> record_writer" where
  "writer_open opened written errno path w =
     (if \<not> opened then (Some (''could not open '' @ path @ '' for writing: '' @ errno), w\<lparr>rw_file := None\<rparr>)
      else if \<not> written
      then (Some (''could not write the capture header to '' @ path @ '': '' @ errno), w\<lparr>rw_file := Some ''''\<rparr>)
      else (None, \<lparr>rw_file = Some RECORDING_MAGIC, rw_count = 0, rw_startMicros = 0\<rparr>))"

definition record_bytes :: "header_codec \<Rightarrow> int \<Rightarrow> envelope \<Rightarrow> string" where
  "record_bytes pb offset e =
     (let headerFrame = encodeHeader pb (header e)
      in appendLe32 (appendLe32 (appendLe64 '''' offset) (of_nat (length headerFrame))) (of_nat (length (payload e))) @
         headerFrame @ payload e)"

definition writer_write :: "header_codec \<Rightarrow> bool \<Rightarrow> string \<Rightarrow> int \<Rightarrow> envelope \<Rightarrow> record_writer \<Rightarrow> string option \<times> record_writer" where
  "writer_write pb written errno timestamp e w =
     (case rw_file w of
        None \<Rightarrow> (Some ''capture file is not open'', w)
      | Some file \<Rightarrow>
          (let w1 = (if rw_count w = 0 then w\<lparr>rw_startMicros := timestamp\<rparr> else w);
               bytes = record_bytes pb (timestamp - rw_startMicros w1) e
           in if \<not> written then (Some (''could not write to the capture file: '' @ errno), w1)
              else (None, w1\<lparr>rw_file := Some (file @ bytes), rw_count := rw_count w1 + 1\<rparr>)))"

definition writer_close :: "bool \<Rightarrow> string \<Rightarrow> record_writer \<Rightarrow> string option \<times> record_writer" where
  "writer_close closed errno w =
     (case rw_file w of
        None \<Rightarrow> (None, w)
      | Some _ \<Rightarrow>
          (if closed then None else Some (''could not close the capture file: '' @ errno), w\<lparr>rw_file := None\<rparr>))"

section \<open>Reading\<close>

datatype read_result = ReadRecord envelope int | ReadEnd | ReadError string

definition reader_open :: "string option \<Rightarrow> string \<Rightarrow> string \<Rightarrow> string + string" where
  "reader_open file path errno =
     (case file of
        None \<Rightarrow> Inl (''could not open '' @ path @ '': '' @ errno)
      | Some bytes \<Rightarrow>
          if length (take 8 bytes) \<noteq> 8 \<or> take 8 bytes \<noteq> RECORDING_MAGIC then Inl (path @ '' is not a Wisp capture file'')
          else Inr (drop 8 bytes))"

definition reader_read :: "header_codec \<Rightarrow> string \<Rightarrow> read_result \<times> string" where
  "reader_read pb file =
     (let fixed = take 16 file; file1 = drop 16 file
      in if length fixed = 0 then (ReadEnd, file1)
         else if length fixed \<noteq> 16 then (ReadError ''capture ends mid-record (truncated while being written?)'', file1)
         else
           (let offset = readLe64 fixed;
                headerLength = unat (readLe32 (drop 8 fixed));
                payloadLength = unat (readLe32 (drop 12 fixed))
            in if headerLength = 0 \<or> headerLength > MAX_MESSAGE_SIZE_BYTES \<or> payloadLength > MAX_MESSAGE_SIZE_BYTES
               then (ReadError ''capture holds an implausible record size (corrupt file?)'', file1)
               else
                 (let headerFrame = take headerLength file1; file2 = drop headerLength file1
                  in if length headerFrame \<noteq> headerLength then (ReadError ''capture ends inside a message header'', file2)
                     else
                       (let pl = take payloadLength file2; file3 = drop payloadLength file2
                        in if payloadLength > 0 \<and> length pl \<noteq> payloadLength
                           then (ReadError ''capture ends inside a message payload'', file3)
                           else
                             (case decodeHeaderFrame pb headerFrame of
                                None \<Rightarrow> (ReadError ''capture holds a message header this build cannot decode'', file3)
                              | Some h \<Rightarrow> (ReadRecord \<lparr>header = h, payload = pl\<rparr> offset, file3))))))"

lemma reader_read_shorter:
  assumes "reader_read pb file = (ReadRecord e offset, rest)"
  shows "length rest < length file"
  using assms by (auto simp: reader_read_def Let_def min_def split: if_splits option.splits)

text \<open>All the records of an open file, and how it ends; a record takes at least its sixteen fixed bytes.\<close>

function read_all :: "header_codec \<Rightarrow> string \<Rightarrow> (envelope \<times> int) list \<times> read_result" where
  "read_all pb file =
     (case reader_read pb file of
        (ReadRecord e offset, rest) \<Rightarrow> (let (rs, final) = read_all pb rest in ((e, offset) # rs, final))
      | (r, _) \<Rightarrow> ([], r))"
  by pat_completeness auto

termination
  by (relation "measure (\<lambda>(pb, file). length file)") (auto dest: reader_read_shorter[OF sym])

declare read_all.simps [simp del]

section \<open>Integers\<close>

lemma fold_append_bytes: "fold (\<lambda>i s. s @ [f i]) xs out = out @ map f xs"
  by (induction xs arbitrary: out) simp_all

lemma length_appendLe [simp]:
  "length (appendLe32 out v) = length out + 4" "length (appendLe64 out n) = length out + 8"
  by (simp_all add: appendLe32_def appendLe64_def fold_append_bytes Let_def)

lemma of_char_byte: "(of_char (char_of (unat (w AND 0xff :: 'a :: len word)) :: char) :: 'a word) = take_bit 8 w"
proof -
  have m: "w AND 0xff = take_bit 8 w" by (simp add: take_bit_eq_mask mask_eq_exp_minus_1)
  have "unat (take_bit 8 w) < 256"
    using take_bit_nat_less_exp[of 8 "unat w"] by (simp add: unsigned_take_bit_eq)
  then have "(of_char (char_of (unat (take_bit 8 w)) :: char) :: nat) = unat (take_bit 8 w)" by simp
  then have "of_nat (of_char (char_of (unat (take_bit 8 w)) :: char) :: nat) = take_bit 8 w" by simp
  then show ?thesis unfolding m by (metis of_nat_of_char)
qed

lemma merge_bytes:
  "(\<And>i. i < n \<Longrightarrow> of_char (bytes ! i) = (take_bit 8 (drop_bit (8 * i) w) :: 'a :: len word)) \<Longrightarrow>
   fold (\<lambda>i v. v OR push_bit (8 * i) (of_char (bytes ! i))) [0..<n] 0 = take_bit (8 * n) w"
proof (induction n)
  case (Suc n)
  have "take_bit (8 * n) w OR push_bit (8 * n) (take_bit 8 (drop_bit (8 * n) w)) = take_bit (8 * Suc n) w"
    by (rule bit_word_eqI) (auto simp: bit_simps)
  then show ?case using Suc by simp
qed simp

lemma readLe32_append:
  assumes "take 4 bytes = appendLe32 [] v"
  shows "readLe32 bytes = v"
proof -
  have "bytes ! i = char_of (unat (drop_bit (8 * i) v AND 0xff))" if "i < 4" for i
    using that arg_cong[OF assms, of "\<lambda>s. s ! i"] by (simp add: appendLe32_def fold_append_bytes del: upt_Suc)
  then have "readLe32 bytes = take_bit (8 * 4) v" unfolding readLe32_def by (intro merge_bytes) (simp add: of_char_byte)
  then show ?thesis by (simp add: take_bit_word_eq_self)
qed

lemma readLe64_append:
  assumes "take 8 bytes = appendLe64 [] n" and "- (2 ^ 63) \<le> n" and "n < 2 ^ 63"
  shows "readLe64 bytes = n"
proof -
  let ?w = "word_of_int n :: u64"
  have "bytes ! i = char_of (unat (drop_bit (8 * i) ?w AND 0xff))" if "i < 8" for i
    using that arg_cong[OF assms(1), of "\<lambda>s. s ! i"] by (simp add: appendLe64_def fold_append_bytes Let_def del: upt_Suc)
  then have "fold (\<lambda>i v. v OR push_bit (8 * i) (of_char (bytes ! i))) [0..<8] 0 = take_bit (8 * 8) ?w"
    by (intro merge_bytes) (simp add: of_char_byte)
  then have "readLe64 bytes = sint ?w" unfolding readLe64_def by (simp only:) (simp add: take_bit_word_eq_self)
  then show ?thesis using assms(2,3) by (simp add: signed_of_int signed_take_bit_int_eq_self)
qed

section \<open>Records\<close>

definition recordable :: "header_codec \<Rightarrow> envelope \<times> int \<Rightarrow> bool" where
  "recordable pb r \<longleftrightarrow>
     length (encodeHeader pb (header (fst r))) \<le> MAX_MESSAGE_SIZE_BYTES \<and> length (payload (fst r)) \<le> MAX_MESSAGE_SIZE_BYTES \<and>
     - (2 ^ 63) \<le> snd r \<and> snd r < 2 ^ 63"

abbreviation record_of :: "header_codec \<Rightarrow> envelope \<times> int \<Rightarrow> string" where
  "record_of pb r \<equiv> record_bytes pb (snd r) (fst r)"

lemma record_layout:
  assumes "recordable pb r"
  obtains fixed where "record_of pb r = fixed @ encodeHeader pb (header (fst r)) @ payload (fst r)" "length fixed = 16"
    "readLe64 fixed = snd r" "unat (readLe32 (drop 8 fixed)) = length (encodeHeader pb (header (fst r)))"
    "unat (readLe32 (drop 12 fixed)) = length (payload (fst r))"
proof -
  let ?h = "of_nat (length (encodeHeader pb (header (fst r)))) :: u32" and ?p = "of_nat (length (payload (fst r))) :: u32"
  define fixed where "fixed = appendLe64 [] (snd r) @ appendLe32 [] ?h @ appendLe32 [] ?p"
  have app: "appendLe32 out v = out @ appendLe32 [] v" for out v by (simp add: appendLe32_def fold_append_bytes)
  have "record_of pb r = fixed @ encodeHeader pb (header (fst r)) @ payload (fst r)"
    unfolding record_bytes_def fixed_def Let_def by (subst app, subst (2) app) simp
  moreover have "length fixed = 16" by (simp add: fixed_def)
  moreover have "readLe64 fixed = snd r"
    by (rule readLe64_append) (use assms in \<open>simp_all add: fixed_def recordable_def\<close>)
  moreover have "readLe32 (drop 8 fixed) = ?h" "readLe32 (drop 12 fixed) = ?p"
    by (rule readLe32_append, simp add: fixed_def)+
  ultimately show thesis
    using assms that[of fixed] by (simp add: recordable_def MAX_MESSAGE_SIZE_BYTES_def unat_of_nat)
qed

lemma read_record:
  assumes "codec_ok pb" and "recordable pb r"
  shows "reader_read pb (record_of pb r @ rest) = (ReadRecord (fst r) (snd r), rest)"
proof -
  obtain fixed where f: "record_of pb r = fixed @ encodeHeader pb (header (fst r)) @ payload (fst r)" "length fixed = 16"
    "readLe64 fixed = snd r" "unat (readLe32 (drop 8 fixed)) = length (encodeHeader pb (header (fst r)))"
    "unat (readLe32 (drop 12 fixed)) = length (payload (fst r))" using record_layout[OF assms(2)] .
  have "encodeHeader pb (header (fst r)) \<noteq> []" by (simp add: encodeHeader_def)
  then show ?thesis using assms f by (auto simp: reader_read_def Let_def recordable_def)
qed

lemma read_truncated:
  assumes "codec_ok pb" and "recordable pb r" and "n < length (record_of pb r)"
  shows "fst (reader_read pb (take n (record_of pb r))) = (if n = 0 then ReadEnd else ReadError
    (if n < 16 then ''capture ends mid-record (truncated while being written?)''
     else if n < 16 + length (encodeHeader pb (header (fst r))) then ''capture ends inside a message header''
     else ''capture ends inside a message payload''))"
proof -
  obtain fixed where f: "record_of pb r = fixed @ encodeHeader pb (header (fst r)) @ payload (fst r)" "length fixed = 16"
    "readLe64 fixed = snd r" "unat (readLe32 (drop 8 fixed)) = length (encodeHeader pb (header (fst r)))"
    "unat (readLe32 (drop 12 fixed)) = length (payload (fst r))" using record_layout[OF assms(2)] .
  define h p where "h = encodeHeader pb (header (fst r))" and "p = payload (fst r)"
  have h: "h \<noteq> []" by (simp add: h_def encodeHeader_def)
  have len: "n < 16 + length h + length p" using assms(3) f(1,2) by (simp add: h_def p_def)
  have sz: "length h \<le> MAX_MESSAGE_SIZE_BYTES" "length p \<le> MAX_MESSAGE_SIZE_BYTES" using assms(2) by (simp_all add: recordable_def h_def p_def)
  note f' = f(2) f(4,5)[folded h_def p_def]
  consider "n = 0" | "0 < n" "n < 16" | "16 \<le> n" "n < 16 + length h" | "16 + length h \<le> n" by linarith
  then show ?thesis unfolding f(1) h_def[symmetric] p_def[symmetric]
    by cases (use h len sz f' in \<open>auto simp: reader_read_def Let_def\<close>)
qed

section \<open>Captures\<close>

abbreviation records_of :: "header_codec \<Rightarrow> (envelope \<times> int) list \<Rightarrow> string" where
  "records_of pb rs \<equiv> concat (map (record_of pb) rs)"

lemma read_all_Nil: "read_all pb [] = ([], ReadEnd)"
  by (simp add: read_all.simps reader_read_def)

lemma read_all_record:
  assumes "codec_ok pb" and "recordable pb r"
  shows "read_all pb (record_of pb r @ rest) = (r # fst (read_all pb rest), snd (read_all pb rest))"
  by (subst read_all.simps) (simp add: read_record[OF assms] case_prod_beta)

lemma read_all_stop: "fst (reader_read pb file) = r \<Longrightarrow> (\<And>e n. r \<noteq> ReadRecord e n) \<Longrightarrow> read_all pb file = ([], r)"
  by (subst read_all.simps) (cases r; auto split: prod.splits)

text \<open>What a reader makes of a capture cut off after \<^verbatim>\<open>n\<close> bytes: the complete records, and a clean end exactly on a
  record boundary.\<close>

lemma read_all_truncated:
  assumes "codec_ok pb" and "list_all (recordable pb) rs"
  shows "\<exists>k\<le>length rs. fst (read_all pb (take n (records_of pb rs))) = take k rs \<and>
    (snd (read_all pb (take n (records_of pb rs))) = ReadEnd \<and> take n (records_of pb rs) = records_of pb (take k rs) \<or>
     (\<exists>msg. snd (read_all pb (take n (records_of pb rs))) = ReadError msg) \<and> k < length rs \<and>
       length (records_of pb (take k rs)) < n \<and> n < length (records_of pb (take (Suc k) rs)))"
  using assms(2)
proof (induction rs arbitrary: n)
  case (Cons r rs)
  have r: "recordable pb r" using Cons.prems by simp
  show ?case
  proof (cases "length (record_of pb r) \<le> n")
    case True
    let ?m = "n - length (record_of pb r)"
    have t: "take n (records_of pb (r # rs)) = record_of pb r @ take ?m (records_of pb rs)" using True by simp
    obtain k where "k \<le> length rs \<and> fst (read_all pb (take ?m (records_of pb rs))) = take k rs \<and>
      (snd (read_all pb (take ?m (records_of pb rs))) = ReadEnd \<and> take ?m (records_of pb rs) = records_of pb (take k rs) \<or>
       (\<exists>msg. snd (read_all pb (take ?m (records_of pb rs))) = ReadError msg) \<and> k < length rs \<and>
         length (records_of pb (take k rs)) < ?m \<and> ?m < length (records_of pb (take (Suc k) rs)))"
      using Cons.IH[of ?m] Cons.prems by auto
    then show ?thesis
      unfolding t read_all_record[OF assms(1) r] using True by (intro exI[of _ "Suc k"]) auto
  next
    case False
    let ?t = "take n (record_of pb r)"
    have t: "take n (records_of pb (r # rs)) = ?t" using False by simp
    have e: "read_all pb ?t = ([], fst (reader_read pb ?t))"
      by (rule read_all_stop[OF refl]) (use read_truncated[OF assms(1) r, of n] False in auto)
    show ?thesis
      unfolding t e using read_truncated[OF assms(1) r, of n] False by (intro exI[of _ 0]) auto
  qed
qed (simp add: read_all_Nil)

lemma read_all_complete:
  assumes "codec_ok pb" and "list_all (recordable pb) rs"
  shows "read_all pb (records_of pb rs) = (rs, ReadEnd)"
  using assms(2) by (induction rs) (simp_all add: read_all_Nil read_all_record[OF assms(1)])

text \<open>The writer, handed messages and the times they are written at.\<close>

definition write_all :: "header_codec \<Rightarrow> (int \<times> envelope) list \<Rightarrow> record_writer \<Rightarrow> record_writer" where
  "write_all pb es w = fold (\<lambda>(ts, e) w. snd (writer_write pb True '''' ts e w)) es w"

lemma write_all_open:
  assumes "rw_file w = Some bytes" and "0 < unat (rw_count w)" and "unat (rw_count w) + length es < 2 ^ 64"
  shows "rw_file (write_all pb es w) = Some (bytes @ records_of pb (map (\<lambda>(ts, e). (e, ts - rw_startMicros w)) es))"
  using assms
proof (induction es arbitrary: w bytes)
  case (Cons x es)
  obtain ts e where x: "x = (ts, e)" by (cases x)
  let ?w = "snd (writer_write pb True [] ts e w)"
  have c: "rw_count w \<noteq> 0" using Cons.prems(2) by auto
  have w: "?w = w\<lparr>rw_file := Some (bytes @ record_bytes pb (ts - rw_startMicros w) e), rw_count := rw_count w + 1\<rparr>"
    using Cons.prems(1) c by (simp add: writer_write_def Let_def)
  have n: "unat (rw_count w + 1) = unat (rw_count w) + 1" using Cons.prems(3) by (simp add: unat_word_ariths)
  show ?case using Cons.IH[of ?w] Cons.prems n by (simp add: write_all_def x w)
qed (simp add: write_all_def)

lemma capture_file:
  assumes "es = (t0, e0) # es'" and "length es < 2 ^ 64"
  shows "rw_file (write_all pb es (snd (writer_open True True errno path w0))) =
    Some (RECORDING_MAGIC @ records_of pb (map (\<lambda>(ts, e). (e, ts - t0)) es))"
proof -
  let ?w = "\<lparr>rw_file = Some (RECORDING_MAGIC @ record_bytes pb 0 e0), rw_count = 1, rw_startMicros = t0\<rparr>"
  have "write_all pb es (snd (writer_open True True errno path w0)) = write_all pb es' ?w"
    by (simp add: write_all_def assms(1) writer_open_def writer_write_def Let_def)
  then show ?thesis using write_all_open[of ?w _ es' pb] assms by simp
qed


definition demo_capture :: "(int \<times> envelope) list" where
  "demo_capture = [(1000, makeControl CONNECT ''a'' ''''), (1250, makeControl SUBSCRIBE ''a'' ''t'')]"


end
