(* ===== verification/Cli_Commands.thy ===== *)
theory Cli_Commands
  imports Cli_Session Cli_Options Recording Logger Uuid Broker_State "HOL-Library.Signed_Division"
begin

text \<open>The commands of \<^verbatim>\<open>cli/commands.cpp\<close> and \<^verbatim>\<open>cli/main.cpp\<close>. A command works on the state of the process (what it
  wrote to the two streams, the logger, its session, the workers its sessions stopped, the file it writes) and gives
  the exit status. What it asks the outside is the record \<^verbatim>\<open>cli_world\<close>.\<close>

section \<open>State and outside world\<close>

datatype cli_output = Out string | Err string

record cli =
  cli_out :: "cli_output list"
  cli_log :: logger
  cli_session :: broker_session
  cli_stopped :: "envelope zmq_worker list"
  cli_file :: "string option"

text \<open>What a tap round finds: events of the socket monitor, and the frames of a group that became readable in time.
  Like the looks of a session, the rounds end when the interrupt flag is found set.\<close>

datatype tap_event = TapConnected string | TapDisconnected string

record tap_round =
  tr_events :: "tap_event list"
  tr_frames :: "string list option"

text \<open>The answers of stdio for a capture being written: whether it opens, takes the header, takes each record (by its
  index) and closes.\<close>

record stdio =
  io_opens :: bool
  io_header :: bool
  io_writes :: "nat \<Rightarrow> bool"
  io_closes :: bool
  io_errno :: string

text \<open>In the order of the commands that use them: the exception of a worker's constructor, the process id, two uuids, the
  environment, the answers of the first and the second \<^verbatim>\<open>sync\<close>, standard input, the text of the time when the n-th piece
  of output is written, protobuf, the looks of the session, the tap (the error of connecting, its rounds), the capture
  written (stdio and the clock at the n-th record) or read, and the interrupt flag as the n-th iteration of a replay
  finds it. \<^verbatim>\<open>cw_rates\<close> prints the two rates of a statistics message, which are floating point computations.\<close>

record cli_world =
  cw_thrown :: "string option"
  cw_pid :: nat
  cw_id_uuid :: string
  cw_reply_uuid :: string
  cw_log_level :: "string option"
  cw_inspector_sock :: "string option"
  cw_sync :: bool
  cw_confirm :: bool
  cw_stdin :: string
  cw_time :: "nat \<Rightarrow> string"
  cw_pool :: any_printer
  cw_codec :: header_codec
  cw_stats_type :: "system_stats message_type"
  cw_rates :: "u64 \<times> u64 \<times> time \<Rightarrow> string \<times> string"
  cw_looks :: "look list"
  cw_tap_refused :: "string option"
  cw_tap :: "tap_round list"
  cw_io :: stdio
  cw_clock :: "nat \<Rightarrow> int"
  cw_capture :: "string option"
  cw_errno :: string
  cw_interrupted :: "nat \<Rightarrow> bool"

definition NEWLINE :: string where "NEWLINE = [CHR 0x0A]"

text \<open>\<^verbatim>\<open>c_str()\<close> ends at the first NUL; \<^verbatim>\<open>%-24s\<close> pads on the right and \<^verbatim>\<open>%6s\<close> on the left.\<close>

definition c_str :: "string \<Rightarrow> string" where
  "c_str s = takeWhile (\<lambda>c. c \<noteq> CHR 0x00) s"

definition pad_right :: "nat \<Rightarrow> string \<Rightarrow> string" where
  "pad_right n s = s @ replicate (n - length s) (CHR '' '')"

definition pad_left :: "nat \<Rightarrow> string \<Rightarrow> string" where
  "pad_left n s = replicate (n - length s) (CHR '' '') @ s"

definition pad_zero :: "nat \<Rightarrow> string \<Rightarrow> string" where
  "pad_zero n s = replicate (n - length s) (CHR ''0'') @ s"

definition emit :: "cli_output list \<Rightarrow> cli \<Rightarrow> cli" where
  "emit os c = c\<lparr>cli_out := cli_out c @ os\<rparr>"

definition report_error :: "string \<Rightarrow> cli \<Rightarrow> cli" where
  "report_error text c = emit [Err (''error: '' @ text @ NEWLINE)] c"

section \<open>Helpers\<close>

definition defaultClientId :: "nat \<Rightarrow> string \<Rightarrow> string" where
  "defaultClientId pid uuid = ''wisp-cli-'' @ to_string pid @ ''-'' @ take 8 uuid"

definition applyLogLevel :: "cli_world \<Rightarrow> 'd options \<Rightarrow> cli \<Rightarrow> cli" where
  "applyLogLevel world opts c =
     (if opt_verbose opts then c\<lparr>cli_log := setMinLevel Debug (cli_log c)\<rparr>
      else if cw_log_level world = None then c\<lparr>cli_log := setMinLevel Error (cli_log c)\<rparr>
      else c)"

definition openSession :: "cli_world \<Rightarrow> 'd options \<Rightarrow> cli \<Rightarrow> bool \<times> cli" where
  "openSession world opts c =
     (let c1 = applyLogLevel world opts c;
          cid = (if opt_clientId opts = '''' then defaultClientId (cw_pid world) (cw_id_uuid world) else opt_clientId opts);
          (err, s) = session_open (cw_thrown world) (opt_address opts) cid (cli_session c1);
          c2 = c1\<lparr>cli_session := s\<rparr>
      in case err of
           Some e \<Rightarrow> (False, report_error (c_str e) c2)
         | None \<Rightarrow>
             if \<not> session_sync (cw_sync world) s
             then (False, report_error (''no broker answered at '' @ c_str (opt_address opts) @ '' within '' @
                     int_text (opt_timeoutMs opts) @ '' ms'') c2)
             else (True, c2))"

text \<open>The session is a local object of the command: leaving it closes the session on every path.\<close>

definition close_session :: "cli \<Rightarrow> cli" where
  "close_session c =
     (let (w, s) = session_close (cli_session c)
      in c\<lparr>cli_session := s, cli_stopped := cli_stopped c @ (case w of None \<Rightarrow> [] | Some w' \<Rightarrow> [w'])\<rparr>)"

definition with_session :: "cli_world \<Rightarrow> 'd options \<Rightarrow> (cli \<Rightarrow> int \<times> cli) \<Rightarrow> cli \<Rightarrow> int \<times> cli" where
  "with_session world opts body c =
     (let (ok, c1) = openSession world opts (c\<lparr>cli_session := new_session\<rparr>);
          (status, c2) = (if ok then body c1 else (1, c1))
      in (status, close_session c2))"

definition payloadArgument :: "cli_world \<Rightarrow> 'd options \<Rightarrow> string" where
  "payloadArgument world opts =
     (if length (opt_args opts) < 2 \<or> opt_args opts ! 1 = ''-'' then cw_stdin world else opt_args opts ! 1)"

definition printMessageLine :: "cli_world \<Rightarrow> 'd options \<Rightarrow> envelope \<Rightarrow> cli \<Rightarrow> cli" where
  "printMessageLine world opts e c =
     emit [Out (if opt_format opts = FormatRaw then payload e
        else cw_time world (length (cli_out c)) @ ''  '' @ pad_right 24 (c_str (topic (header e))) @ '' '' @
          pad_right 24 (c_str (sender_id (header e))) @ '' '' @
          c_str (renderPayload (cw_pool world) (payload e) (opt_format opts) (opt_maxBytes opts)) @ NEWLINE)] c"

definition formatUptime :: "int \<Rightarrow> string" where
  "formatUptime seconds =
     int_text (seconds sdiv 3600) @ ''h '' @ pad_zero 2 (int_text ((seconds smod 3600) sdiv 60)) @ ''m '' @
     pad_zero 2 (int_text (seconds smod 60)) @ ''s''"

definition client_line :: "client_info \<Rightarrow> cli_output" where
  "client_line ci =
     Out (''  '' @ pad_right 32 (c_str (ci_id ci)) @ '' '' @ pad_left 6 (to_string (unat (ci_subscription_count ci))) @ '' '' @
       pad_left 8 (to_string (unat (ci_dropped_messages ci))) @ NEWLINE)"

definition printStats :: "cli_world \<Rightarrow> system_stats \<Rightarrow> cli \<Rightarrow> cli" where
  "printStats world st c =
     (let (msgs, kb) = cw_rates world (st_rates st)
      in emit ([Out (''broker '' @ c_str (st_broker_id st) @ ''   cluster '' @
                  (if st_cluster st = '''' then ''(discovery off)'' else c_str (st_cluster st)) @
                  ''   uptime '' @ formatUptime (st_uptime_sec st) @ NEWLINE),
                Out (''clients '' @ to_string (st_clients_count st) @ ''   peers '' @ to_string (st_peers_count st) @ ''   '' @ msgs @
                  '' msg/s   '' @ kb @ '' KB/s   total '' @ int_text (sint (st_total_msgs st)) @
                  ''   dropped '' @ to_string (unat (st_total_dropped st)) @
                  ''   rejected subs '' @ to_string (unat (st_total_rejected_subs st)) @ NEWLINE)] @
               (if st_connected_clients st \<noteq> []
                then Out (''  '' @ pad_right 32 ''client'' @ '' '' @ pad_left 6 ''subs'' @ '' '' @ pad_left 8 ''dropped'' @ NEWLINE) #
                  map client_line (st_connected_clients st)
                else []) @
               [Out NEWLINE]) c)"

definition tapEndpoint :: "cli_world \<Rightarrow> 'd options \<Rightarrow> string" where
  "tapEndpoint world opts =
     (case opt_args opts of
        a # _ \<Rightarrow> a
      | [] \<Rightarrow> (case cw_inspector_sock world of Some e \<Rightarrow> e | None \<Rightarrow> DEFAULT_TAP_ENDPOINT))"

definition ARROW :: string where
  "ARROW = [CHR 0xE2, CHR 0x86, CHR 0x92]"

definition routingLabel :: "message_header \<Rightarrow> string" where
  "routingLabel h =
     (if topic h = '''' \<or> topic h = handler_key h then handler_key h
      else handler_key h @ '' '' @ ARROW @ '' '' @ topic h)"

fun tap_event_line :: "tap_event \<Rightarrow> cli_output" where
  "tap_event_line (TapConnected address) = Err (''# attached to '' @ address @ NEWLINE)"
| "tap_event_line (TapDisconnected address) = Err (''# detached from '' @ address @ '' (waiting)'' @ NEWLINE)"

section \<open>Publishing and subscribing\<close>

text \<open>The second \<^verbatim>\<open>sync\<close> of a command.\<close>

definition confirm :: "cli_world \<Rightarrow> string \<Rightarrow> 'd options \<Rightarrow> cli \<Rightarrow> bool \<times> cli" where
  "confirm world what opts c =
     (if session_sync (cw_confirm world) (cli_session c) then (True, c)
      else (False, report_error (''the broker did not confirm '' @ what @ '' within '' @ int_text (opt_timeoutMs opts) @ '' ms'') c))"

definition subscribe_topic :: "string \<Rightarrow> origin \<Rightarrow> cli \<Rightarrow> cli" where
  "subscribe_topic t scp c = c\<lparr>cli_session := snd (session_subscribe t scp (cli_session c))\<rparr>"

definition runPublish :: "cli_world \<Rightarrow> 'd options \<Rightarrow> cli \<Rightarrow> int \<times> cli" where
  "runPublish world opts c =
     (let t = hd (opt_args opts); pl = payloadArgument world opts
      in with_session world opts (\<lambda>c1.
           let (ok, s) = session_publish t pl '''' (cli_session c1); c2 = c1\<lparr>cli_session := s\<rparr>
           in if \<not> ok then (1, report_error (''the send pipe would not take the message for '' @ quoted (c_str t)) c2)
              else (case confirm world ''the message'' opts c2 of (ok', c3) \<Rightarrow> (if ok' then 0 else 1, c3))) c)"

text \<open>The loop of the streaming commands. \<^verbatim>\<open>consume\<close> prints a message and says whether it counts.\<close>

function stream_loop :: "(envelope \<Rightarrow> cli \<Rightarrow> bool \<times> cli) \<Rightarrow> int \<Rightarrow> int \<Rightarrow> look list \<Rightarrow> cli \<Rightarrow> int \<times> cli" where
  "stream_loop consume limit delivered [] c = (delivered, c)"
| "stream_loop consume limit delivered (l # looks) c =
     (let s0 = session_deliver (lk_arrivals l) (cli_session c)
      in if limit = 0 \<or> delivered < limit
         then (case session_receive looks s0 of
                 (None, later, s) \<Rightarrow> stream_loop consume limit delivered later (c\<lparr>cli_session := s\<rparr>)
               | (Some e, later, s) \<Rightarrow>
                   (let (counts, c1) = consume e (c\<lparr>cli_session := s\<rparr>)
                    in stream_loop consume limit (if counts then delivered + 1 else delivered) later c1))
         else (delivered, c\<lparr>cli_session := s0\<rparr>))"
  by pat_completeness auto

termination
  by (relation "measure (\<lambda>(consume, limit, delivered, looks, c). length looks)")
    (auto dest!: session_receive_looks[OF sym] simp: less_Suc_eq_le)

definition runSubscribe :: "cli_world \<Rightarrow> 'd options \<Rightarrow> cli \<Rightarrow> int \<times> cli" where
  "runSubscribe world opts =
     with_session world opts (\<lambda>c1.
       let c2 = fold (\<lambda>t. subscribe_topic t (opt_origin opts)) (opt_args opts) c1
       in case confirm world ''the subscriptions'' opts c2 of
            (False, c3) \<Rightarrow> (1, c3)
          | (True, c3) \<Rightarrow>
              (0, snd (stream_loop (\<lambda>e c. (True, printMessageLine world opts e c)) (opt_count opts) 0 (cw_looks world) c3)))"

function await_reply :: "string \<Rightarrow> look list \<Rightarrow> cli \<Rightarrow> envelope option \<times> cli" where
  "await_reply replyTopic [] c = (None, c)"
| "await_reply replyTopic (l # looks) c =
     (let s0 = session_deliver (lk_arrivals l) (cli_session c)
      in if lk_deadline l then (None, c\<lparr>cli_session := s0\<rparr>)
         else (case session_receive looks s0 of
                 (None, later, s) \<Rightarrow> await_reply replyTopic later (c\<lparr>cli_session := s\<rparr>)
               | (Some e, later, s) \<Rightarrow>
                   if topic (header e) \<noteq> replyTopic then await_reply replyTopic later (c\<lparr>cli_session := s\<rparr>)
                   else (Some e, c\<lparr>cli_session := s\<rparr>)))"
  by pat_completeness auto

termination
  by (relation "measure (\<lambda>(replyTopic, looks, c). length looks)")
    (auto dest!: session_receive_looks[OF sym] simp: less_Suc_eq_le)

definition runRequest :: "cli_world \<Rightarrow> 'd options \<Rightarrow> cli \<Rightarrow> int \<times> cli" where
  "runRequest world opts c =
     (let t = hd (opt_args opts); pl = payloadArgument world opts
      in with_session world opts (\<lambda>c1.
           let replyTopic = t @ ''.'' @ cw_reply_uuid world
           in case confirm world ''the reply subscription'' opts (subscribe_topic replyTopic Origin_Any c1) of
                (False, c2) \<Rightarrow> (1, c2)
              | (True, c2) \<Rightarrow>
                  (let (ok, s) = session_publish t pl replyTopic (cli_session c2); c3 = c2\<lparr>cli_session := s\<rparr>
                   in if \<not> ok then (1, report_error (''the send pipe would not take the request for '' @ quoted (c_str t)) c3)
                      else
                        (case await_reply replyTopic (cw_looks world) c3 of
                           (Some e, c4) \<Rightarrow>
                             (0, emit [Out (if opt_format opts = FormatRaw then payload e
                                else c_str (renderPayload (cw_pool world) (payload e) (opt_format opts) (opt_maxBytes opts)) @ NEWLINE)] c4)
                         | (None, c4) \<Rightarrow>
                             (1, report_error (''no reply on '' @ quoted (c_str t) @ '' within '' @ int_text (opt_timeoutMs opts) @ '' ms'') c4)))) c)"

section \<open>Statistics\<close>

definition stats_consume :: "cli_world \<Rightarrow> envelope \<Rightarrow> cli \<Rightarrow> bool \<times> cli" where
  "stats_consume world e c =
     (if topic (header e) \<noteq> SYS_STATS then (False, c)
      else case tryUnpack (cw_stats_type world) (payload e) of
             None \<Rightarrow> (False, emit [Err (''warning: could not decode a statistics message'' @ NEWLINE)] c)
           | Some st \<Rightarrow> (True, printStats world st c))"

definition runStats :: "cli_world \<Rightarrow> 'd options \<Rightarrow> cli \<Rightarrow> int \<times> cli" where
  "runStats world opts =
     with_session world opts (\<lambda>c1.
       case confirm world ''the statistics subscription'' opts (subscribe_topic SYS_STATS Origin_Any c1) of
         (False, c2) \<Rightarrow> (1, c2)
       | (True, c2) \<Rightarrow>
           (let limit = (if opt_countGiven opts then opt_count opts else 1);
                (delivered, c3) = stream_loop (stats_consume world) limit 0 (cw_looks world) c2
            in (if delivered > 0 \<or> limit = 0 then 0 else 1, c3)))"

section \<open>The tap\<close>

text \<open>The loop of \<^verbatim>\<open>readTap\<close>. The consumer carries a state of its own and may end the loop.\<close>

fun tap_loop ::
  "header_codec \<Rightarrow> (envelope \<Rightarrow> nat \<Rightarrow> 's \<times> cli \<Rightarrow> bool \<times> 's \<times> cli) \<Rightarrow> int \<Rightarrow> int \<Rightarrow> tap_round list \<Rightarrow> 's \<times> cli \<Rightarrow>
   int \<times> 's \<times> cli" where
  "tap_loop pb consume limit delivered [] (st, c) = (0, st, c)"
| "tap_loop pb consume limit delivered (r # rounds) (st, c) =
     (if limit = 0 \<or> delivered < limit
      then
        (let c1 = emit (map tap_event_line (tr_events r)) c
         in case Option.bind (tr_frames r) (wire_recv pb) of
              None \<Rightarrow> tap_loop pb consume limit delivered rounds (st, c1)
            | Some (e, wireBytes) \<Rightarrow>
                (let (go_on, st2, c2) = consume e wireBytes (st, c1)
                 in if \<not> go_on then (1, st2, c2) else tap_loop pb consume limit (delivered + 1) rounds (st2, c2)))
      else (0, st, c))"

definition readTap ::
  "cli_world \<Rightarrow> (envelope \<Rightarrow> nat \<Rightarrow> 's \<times> cli \<Rightarrow> bool \<times> 's \<times> cli) \<Rightarrow> 'd options \<Rightarrow> 's \<times> cli \<Rightarrow> int \<times> 's \<times> cli" where
  "readTap world consume opts stc =
     (let (st, c) = stc; c1 = applyLogLevel world opts c
      in case cw_tap_refused world of
           Some what \<Rightarrow>
             (1, st, report_error (''could not attach to the tap at '' @ c_str (tapEndpoint world opts) @ '': '' @ what) c1)
         | None \<Rightarrow> tap_loop (cw_codec world) consume (opt_count opts) 0 (cw_tap world) (st, c1))"

definition tap_consume :: "cli_world \<Rightarrow> 'd options \<Rightarrow> envelope \<Rightarrow> nat \<Rightarrow> unit \<times> cli \<Rightarrow> bool \<times> unit \<times> cli" where
  "tap_consume world opts e wireBytes uc =
     (let c = snd uc
      in (True, (), emit [Out (if opt_format opts = FormatRaw then payload e
           else cw_time world (length (cli_out c)) @ ''  '' @ pad_right 28 (c_str (routingLabel (header e))) @ '' '' @
             pad_right 24 (c_str (sender_id (header e))) @ '' '' @ pad_left 6 (to_string wireBytes) @ ''B  '' @
             c_str (renderPayload (cw_pool world) (payload e) (opt_format opts) (opt_maxBytes opts)) @ NEWLINE)] c))"

definition runTap :: "cli_world \<Rightarrow> 'd options \<Rightarrow> cli \<Rightarrow> int \<times> cli" where
  "runTap world opts c =
     (let (status, _, c1) = readTap world (tap_consume world opts) opts ((), c) in (status, c1))"

text \<open>The state of the recording consumer is the writer with the number of calls so far.\<close>

definition record_consume ::
  "cli_world \<Rightarrow> envelope \<Rightarrow> nat \<Rightarrow> (nat \<times> record_writer) \<times> cli \<Rightarrow> bool \<times> (nat \<times> record_writer) \<times> cli" where
  "record_consume world e wireBytes stc =
     (let ((i, w), c) = stc;
          (err, w') = writer_write (cw_codec world) (io_writes (cw_io world) i) (io_errno (cw_io world)) (cw_clock world i) e w
      in case err of
           None \<Rightarrow> (True, (i + 1, w'), c)
         | Some m \<Rightarrow> (False, (i + 1, w'), report_error (c_str m) c))"

definition runRecord :: "cli_world \<Rightarrow> 'd options \<Rightarrow> cli \<Rightarrow> int \<times> cli" where
  "runRecord world opts c =
     (let path = hd (opt_args opts); tapOpts = opts\<lparr>opt_args := tl (opt_args opts)\<rparr>; io = cw_io world;
          (err, w) = writer_open (io_opens io) (io_header io) (io_errno io) path new_writer
      in case err of
           Some m \<Rightarrow> (1, report_error (c_str m) (c\<lparr>cli_file := rw_file w\<rparr>))
         | None \<Rightarrow>
             (let (status, (_, w1), c1) =
                    readTap world (record_consume world) tapOpts ((0, w), emit [Err (''# recording to '' @ c_str path @ NEWLINE)] c);
                  captured = rw_count w1;
                  c2 = c1\<lparr>cli_file := rw_file w1\<rparr>;
                  (err', _) = writer_close (io_closes io) (io_errno io) w1
              in case err' of
                   Some m \<Rightarrow> (1, report_error (c_str m) c2)
                 | None \<Rightarrow> (status, emit [Err (''# captured '' @ to_string (unat captured) @ '' message(s)'' @ NEWLINE)] c2)))"

section \<open>Replay\<close>

definition replay_message :: "'d options \<Rightarrow> envelope \<Rightarrow> envelope" where
  "replay_message opts e =
     (if opt_preserveUuids opts then e else e\<lparr>header := (header e)\<lparr>message_uuid := '''', origin_broker_id := ''''\<rparr>\<rparr>)"

definition replay_skips :: "'d options \<Rightarrow> envelope \<Rightarrow> bool" where
  "replay_skips opts e \<longleftrightarrow> \<not> opt_includeControl opts \<and> isReservedKey (handler_key (header e))"

text \<open>The loop. Holding a message until it is due changes when it is sent and nothing else, also when the wait is
  interrupted. The value is the error, if any, the two counters, and the session.\<close>

function replay_loop ::
  "header_codec \<Rightarrow> 'd options \<Rightarrow> (nat \<Rightarrow> bool) \<Rightarrow> nat \<Rightarrow> string \<Rightarrow> u64 \<Rightarrow> u64 \<Rightarrow> broker_session \<Rightarrow>
   string option \<times> u64 \<times> u64 \<times> broker_session" where
  "replay_loop pb opts interrupted i bytes sent skipped s =
     (if interrupted i then (None, sent, skipped, s)
      else
        (case reader_read pb bytes of
           (ReadError m, _) \<Rightarrow> (Some (c_str m @ '' (after '' @ to_string (unat sent) @ '' message(s))''), sent, skipped, s)
         | (ReadEnd, _) \<Rightarrow> (None, sent, skipped, s)
         | (ReadRecord e offset, rest) \<Rightarrow>
             if replay_skips opts e then replay_loop pb opts interrupted (i + 1) rest sent (skipped + 1) s
             else
               (let (ok, s') = publishEnvelope (replay_message opts e) s
                in if \<not> ok
                   then (Some (''the send pipe would not take message '' @ to_string (unat (sent + 1))), sent, skipped, s')
                   else replay_loop pb opts interrupted (i + 1) rest (sent + 1) skipped s')))"
  by pat_completeness auto

termination
  by (relation "measure (\<lambda>(pb, opts, interrupted, i, bytes, sent, skipped, s). length bytes)")
    (auto dest: reader_read_shorter[OF sym])

declare replay_loop.simps [simp del]

definition PRESERVE_NOTE :: string where
  "PRESERVE_NOTE = ''# --preserve-uuids: a broker discards messages whose ids it still remembers, so some or all of this replay may not be delivered''"

definition replay_body :: "cli_world \<Rightarrow> string \<Rightarrow> 'd options \<Rightarrow> cli \<Rightarrow> int \<times> cli" where
  "replay_body world bytes opts c =
     (let c1 = (if opt_preserveUuids opts then emit [Err (PRESERVE_NOTE @ NEWLINE)] c else c);
          (err, sent, skipped, s) = replay_loop (cw_codec world) opts (cw_interrupted world) 0 bytes 0 0 (cli_session c1);
          c2 = c1\<lparr>cli_session := s\<rparr>
      in case err of
           Some m \<Rightarrow> (1, report_error m c2)
         | None \<Rightarrow>
             (case confirm world ''the replay'' opts c2 of
                (False, c3) \<Rightarrow> (1, c3)
              | (True, c3) \<Rightarrow>
                  (0, emit ([Err (''# replayed '' @ to_string (unat sent) @ '' message(s)'')] @
                         (if skipped > 0 then [Err ('', skipped '' @ to_string (unat skipped) @ '' control message(s)'')] else []) @
                         [Err NEWLINE]) c3)))"

definition runReplay :: "cli_world \<Rightarrow> 'd options \<Rightarrow> cli \<Rightarrow> int \<times> cli" where
  "runReplay world opts c =
     (case reader_open (cw_capture world) (hd (opt_args opts)) (cw_errno world) of
        Inl m \<Rightarrow> (1, report_error (c_str m) c)
      | Inr bytes \<Rightarrow> with_session world opts (replay_body world bytes opts) c)"

section \<open>The program\<close>

fun run_command :: "command \<Rightarrow> cli_world \<Rightarrow> 'd options \<Rightarrow> cli \<Rightarrow> int \<times> cli" where
  "run_command CmdPublish = runPublish"
| "run_command CmdSubscribe = runSubscribe"
| "run_command CmdRequest = runRequest"
| "run_command CmdStats = runStats"
| "run_command CmdTap = runTap"
| "run_command CmdRecord = runRecord"
| "run_command CmdReplay = runReplay"
| "run_command CmdNone = (\<lambda>_ _ c. (2, emit [Err usageText] c))"

text \<open>\<^verbatim>\<open>main\<close>. The handler for an exception escaping a command is left out: nothing modelled throws.\<close>

definition cli_main :: "'d floats \<Rightarrow> string option \<Rightarrow> string list \<Rightarrow> cli_world \<Rightarrow> cli \<Rightarrow> int \<times> cli" where
  "cli_main fl wispAddress argv world c =
     (case parseArguments fl wispAddress argv of
        Inl e \<Rightarrow> (2, emit [Err (''error: '' @ c_str e @ NEWLINE @ NEWLINE @ usageText)] c)
      | Inr opts \<Rightarrow>
          if opt_help opts then (0, emit [Out usageText] c) else run_command (opt_command opts) world opts c)"

definition new_cli :: "string option \<Rightarrow> cli" where
  "new_cli wispLogLevel =
     \<lparr>cli_out = [], cli_log = new_logger wispLogLevel, cli_session = new_session, cli_stopped = [], cli_file = None\<rparr>"

section \<open>Every command\<close>

lemma emit_frame [simp]:
  "cli_session (emit os c) = cli_session c" "cli_stopped (emit os c) = cli_stopped c" "cli_file (emit os c) = cli_file c"
  "cli_log (emit os c) = cli_log c" "cli_out (emit os c) = cli_out c @ os"
  by (simp_all add: emit_def)

lemma report_error_frame [simp]:
  "cli_session (report_error m c) = cli_session c" "cli_stopped (report_error m c) = cli_stopped c"
  "cli_file (report_error m c) = cli_file c"
  by (simp_all add: report_error_def)

lemma session_close_closed [simp]: "\<not> bs_open (snd (session_close s))"
  by (simp add: session_close_def Let_def)

text \<open>However its body ends, a command leaves its session closed.\<close>

lemma with_session_closed: "\<not> bs_open (cli_session (snd (with_session world opts body c)))"
  by (simp add: with_session_def close_session_def case_prod_beta Let_def)

lemma with_session_status: "(\<And>c'. fst (body c') \<in> {0, 1}) \<Longrightarrow> fst (with_session world opts body c) \<in> {0, 1}"
  by (auto simp: with_session_def case_prod_beta Let_def)

lemma tap_loop_status: "fst (tap_loop pb consume limit d rounds stc) \<in> {0, 1}"
proof (induction rounds arbitrary: d stc)
  case Nil
  then show ?case by (cases stc) simp
next
  case (Cons r rounds)
  then show ?case by (cases stc) (auto simp: Let_def split: option.splits prod.splits)
qed

lemma readTap_status: "fst (readTap world consume opts stc) \<in> {0, 1}"
  using tap_loop_status[of "cw_codec world" consume "opt_count opts" 0 "cw_tap world" "(fst stc, applyLogLevel world opts (snd stc))"]
  by (simp add: readTap_def case_prod_beta Let_def split: option.splits)

lemma run_command_status:
  assumes "k \<noteq> CmdNone"
  shows "fst (run_command k world opts c) \<in> {0, 1}"
proof (cases k)
  case CmdPublish
  show ?thesis unfolding CmdPublish run_command.simps runPublish_def Let_def
    by (rule with_session_status) (auto split: prod.splits)
next
  case CmdSubscribe
  show ?thesis unfolding CmdSubscribe run_command.simps runSubscribe_def
    by (rule with_session_status) (auto simp: Let_def split: prod.splits bool.splits)
next
  case CmdRequest
  show ?thesis unfolding CmdRequest run_command.simps runRequest_def Let_def
    by (rule with_session_status) (auto split: prod.splits bool.splits option.splits)
next
  case CmdStats
  show ?thesis unfolding CmdStats run_command.simps runStats_def
    by (rule with_session_status) (auto simp: Let_def split: prod.splits bool.splits)
next
  case CmdTap
  show ?thesis using readTap_status[of world "tap_consume world opts" opts "((), c)"]
    by (simp add: CmdTap runTap_def case_prod_beta)
next
  case CmdRecord
  show ?thesis using readTap_status[of world "record_consume world" "opts\<lparr>opt_args := tl (opt_args opts)\<rparr>"]
    by (auto simp: CmdRecord runRecord_def case_prod_beta Let_def split: option.splits)
next
  case CmdReplay
  have "fst (replay_body world bytes opts c') \<in> {0, 1}" for bytes c'
    by (simp add: replay_body_def Let_def case_prod_beta split: option.splits bool.splits)
  then show ?thesis using with_session_status[of "replay_body world _ opts" world opts c]
    by (auto simp: CmdReplay runReplay_def split: sum.splits)
qed (simp add: assms)

text \<open>A streaming command never prints more messages than it was asked for.\<close>

lemma stream_loop_limit: "0 < limit \<Longrightarrow> delivered \<le> limit \<Longrightarrow> fst (stream_loop consume limit delivered looks c) \<le> limit"
proof (induction consume limit delivered looks c rule: stream_loop.induct)
  case (2 consume limit delivered l looks c)
  then show ?case by (auto simp: Let_def split: option.splits prod.splits)
qed simp

text \<open>A request that succeeds answers with a message on its own reply topic.\<close>

lemma await_reply_topic: "await_reply replyTopic looks c = (Some e, c') \<Longrightarrow> topic (header e) = replyTopic"
proof (induction replyTopic looks c rule: await_reply.induct)
  case (2 replyTopic l looks c)
  then show ?case by (auto simp: Let_def split: option.splits prod.splits if_splits)
qed simp

section \<open>What a session hands to its worker\<close>

text \<open>A session with room for \<^verbatim>\<open>n\<close> messages whose control queue is empty.\<close>

definition published :: "envelope zmq_worker \<Rightarrow> envelope list" where
  "published w = m_queue (m_outboundQueue w)"

definition publish_room :: "nat \<Rightarrow> broker_session \<Rightarrow> envelope list \<Rightarrow> bool" where
  "publish_room n s es \<longleftrightarrow>
     bs_open s \<and>
     (case bs_worker s of
        None \<Rightarrow> False
      | Some w \<Rightarrow> m_controlQueue w = new_queue CONTROL_BACKLOG_LIMIT \<and> published w = es \<and>
          \<not> m_stop (m_outboundQueue w) \<and> length es + n \<le> m_maxSize (m_outboundQueue w))"

lemma publish_taken:
  assumes "publish_room (Suc n) s es"
  shows "\<exists>s'. publishEnvelope e s = (True, s') \<and> publish_room n s' (es @ [e]) \<and> bs_config s' = bs_config s"
  using assms by (auto simp: publish_room_def publishEnvelope_def published_def writeMessage_def enqueue_def queue_ops
      split: option.splits)

lemma openSession_answered:
  assumes "cw_thrown world = None" and "cw_sync world" and "n \<le> default_max_size" and "cli_session c = new_session"
  shows "\<exists>c1. openSession world opts c = (True, c1) \<and> publish_room n (cli_session c1) [] \<and> cli_stopped c1 = cli_stopped c"
  using assms by (simp add: openSession_def Let_def session_open_def session_sync_def publish_room_def published_def
      applyLogLevel_def worker_start_def new_worker_def new_queue_def)

lemma close_session_stops:
  assumes "publish_room n (cli_session c) es"
  shows "\<exists>w. cli_stopped (close_session c) = cli_stopped c @ [w] \<and> published w = es \<and>
    m_queue (m_controlQueue w) = [makeControl DISCONNECT (cfg_clientId (bs_config (cli_session c))) '''']"
  using assms
  by (auto simp: publish_room_def close_session_def session_close_def sendControl_def write_control_def writeControlMessage_def
      enqueue_def queue_ops new_queue_def CONTROL_BACKLOG_LIMIT_def worker_stop_def published_def Let_def split: option.splits)

lemma with_session_stops:
  assumes "cw_thrown world = None" and "cw_sync world" and "n \<le> default_max_size"
    and body: "\<And>c1. publish_room n (cli_session c1) [] \<Longrightarrow> cli_stopped c1 = cli_stopped c \<Longrightarrow>
      \<exists>c2 k. body c1 = (status, c2) \<and> publish_room k (cli_session c2) es \<and> cli_stopped c2 = cli_stopped c"
  shows "\<exists>c2 w. with_session world opts body c = (status, c2) \<and> cli_stopped c2 = cli_stopped c @ [w] \<and> published w = es \<and>
    (\<exists>cid. m_queue (m_controlQueue w) = [makeControl DISCONNECT cid ''''])"
proof -
  obtain c1 where c1: "openSession world opts (c\<lparr>cli_session := new_session\<rparr>) = (True, c1)" "publish_room n (cli_session c1) []"
    "cli_stopped c1 = cli_stopped c"
    using openSession_answered[OF assms(1-3), of "c\<lparr>cli_session := new_session\<rparr>" opts] by auto
  then obtain c2 k where c2: "body c1 = (status, c2)" "publish_room k (cli_session c2) es" "cli_stopped c2 = cli_stopped c"
    using body by blast
  obtain w where w: "cli_stopped (close_session c2) = cli_stopped c2 @ [w]" "published w = es"
    "m_queue (m_controlQueue w) = [makeControl DISCONNECT (cfg_clientId (bs_config (cli_session c2))) []]"
    using close_session_stops[OF c2(2)] by blast
  have "with_session world opts body c = (status, close_session c2)" by (simp add: with_session_def c1(1) c2(1))
  then show ?thesis using w c2(3) by auto
qed

lemma confirm_answered: "publish_room n (cli_session c) es \<Longrightarrow> cw_confirm world \<Longrightarrow> confirm world what opts c = (True, c)"
  by (simp add: confirm_def session_sync_def publish_room_def)

text \<open>A publish confirmed by the broker exits with zero and hands over exactly the message asked for.\<close>

lemma runPublish_confirmed:
  assumes "cw_thrown world = None" and "cw_sync world" and "cw_confirm world"
  shows "\<exists>c2 w cid. runPublish world opts c = (0, c2) \<and> cli_stopped c2 = cli_stopped c @ [w] \<and>
    published w = [\<lparr>header = empty_header\<lparr>handler_key := hd (opt_args opts), sender_id := cid, topic := hd (opt_args opts)\<rparr>,
      payload = payloadArgument world opts\<rparr>]"
proof -
  let ?m = "\<lambda>s. \<lparr>header = empty_header\<lparr>handler_key := hd (opt_args opts), sender_id := cfg_clientId (bs_config s), topic := hd (opt_args opts)\<rparr>,
      payload = payloadArgument world opts\<rparr>"
  obtain c1 where c1: "openSession world opts (c\<lparr>cli_session := new_session\<rparr>) = (True, c1)" "publish_room (Suc 0) (cli_session c1) []"
    "cli_stopped c1 = cli_stopped c"
    using openSession_answered[OF assms(1,2), of "Suc 0" "c\<lparr>cli_session := new_session\<rparr>" opts] by (auto simp: default_max_size_def)
  obtain s where s: "publishEnvelope (?m (cli_session c1)) (cli_session c1) = (True, s)" "publish_room 0 s [?m (cli_session c1)]"
    using publish_taken[OF c1(2), of "?m (cli_session c1)"] by auto
  have p: "session_publish (hd (opt_args opts)) (payloadArgument world opts) [] (cli_session c1) = (True, s)"
    using s(1) c1(2) by (simp add: session_publish_def publish_room_def empty_header_def)
  have "runPublish world opts c = (0, close_session (c1\<lparr>cli_session := s\<rparr>))"
    using confirm_answered[of 0 "c1\<lparr>cli_session := s\<rparr>" "[?m (cli_session c1)]" world "''the message''" opts] s(2) assms(3)
    by (simp add: runPublish_def Let_def with_session_def c1(1) p)
  moreover obtain w where "cli_stopped (close_session (c1\<lparr>cli_session := s\<rparr>)) = cli_stopped c1 @ [w]" "published w = [?m (cli_session c1)]"
    using close_session_stops[of 0 "c1\<lparr>cli_session := s\<rparr>"] s(2) by auto
  ultimately show ?thesis using c1(3) by auto
qed

section \<open>A capture replayed\<close>

lemma replay_all:
  "read_all pb bytes = (rs, ReadEnd) \<Longrightarrow> publish_room (length rs) s es \<Longrightarrow>
    \<exists>sent' skipped' s' k. replay_loop pb opts (\<lambda>_. False) i bytes sent skipped s = (None, sent', skipped', s') \<and>
      publish_room k s' (es @ map (replay_message opts) (filter (\<lambda>e. \<not> replay_skips opts e) (map fst rs)))"
proof (induction rs arbitrary: bytes i sent skipped s es)
  case Nil
  then show ?case
    by (subst (asm) read_all.simps, subst replay_loop.simps) (auto split: read_result.splits prod.splits if_splits)
next
  case (Cons r rs)
  obtain rest where rd: "reader_read pb bytes = (ReadRecord (fst r) (snd r), rest)" and ra: "read_all pb rest = (rs, ReadEnd)"
    using Cons.prems(1) by (subst (asm) read_all.simps) (auto split: read_result.splits prod.splits)
  show ?case
  proof (cases "replay_skips opts (fst r)")
    case True
    have "publish_room (length rs) s es" using Cons.prems(2) by (auto simp: publish_room_def split: option.splits)
    then show ?thesis using Cons.IH[OF ra] True by (subst replay_loop.simps) (simp add: rd)
  next
    case False
    obtain s1 where s1: "publishEnvelope (replay_message opts (fst r)) s = (True, s1)"
      "publish_room (length rs) s1 (es @ [replay_message opts (fst r)])"
      using publish_taken Cons.prems(2) by (metis length_Cons)
    then show ?thesis using Cons.IH[OF ra s1(2)] False by (subst replay_loop.simps) (simp add: rd)
  qed
qed

text \<open>What a recording captures: the groups of the rounds that decode, each at the time of its write.\<close>

definition received :: "header_codec \<Rightarrow> tap_round list \<Rightarrow> envelope list" where
  "received pb rounds = map fst (List.map_filter (\<lambda>r. Option.bind (tr_frames r) (wire_recv pb)) rounds)"

lemma received_simps:
  "received pb [] = []"
  "received pb (r # rounds) = (case Option.bind (tr_frames r) (wire_recv pb) of None \<Rightarrow> received pb rounds | Some p \<Rightarrow> fst p # received pb rounds)"
  by (simp_all add: received_def List.map_filter_simps split: option.splits)

definition stamped :: "(nat \<Rightarrow> int) \<Rightarrow> nat \<Rightarrow> envelope list \<Rightarrow> (int \<times> envelope) list" where
  "stamped clock i es = zip (map clock [i..<i + length es]) es"

lemma stamped_Cons: "stamped clock i (e # es) = (clock i, e) # stamped clock (Suc i) es"
  by (simp add: stamped_def upt_conv_Cons del: upt_Suc)

lemma length_stamped [simp]: "length (stamped clock i es) = length es"
  by (simp add: stamped_def)

lemma map_snd_stamped [simp]: "map (\<lambda>x. snd x) (stamped clock i es) = es"
  by (simp add: stamped_def)

lemma writer_write_ok:
  "rw_file w = Some f \<Longrightarrow>
   writer_write pb True m ts e w = (None, snd (writer_write pb True '''' ts e w)) \<and>
   (\<exists>f'. rw_file (snd (writer_write pb True '''' ts e w)) = Some f')"
  by (simp add: writer_write_def Let_def)

lemma record_loop:
  assumes "\<forall>i. io_writes (cw_io world) i"
  shows "rw_file w = Some f \<Longrightarrow>
    \<exists>k c'. tap_loop (cw_codec world) (record_consume world) 0 d rounds ((i, w), c) =
      (0, (k, write_all (cw_codec world) (stamped (cw_clock world) i (received (cw_codec world) rounds)) w), c')"
proof (induction rounds arbitrary: d i w f c)
  case Nil
  then show ?case by (simp add: write_all_def stamped_def received_simps)
next
  case (Cons r rounds)
  let ?c = "emit (map tap_event_line (tr_events r)) c"
  show ?case
  proof (cases "Option.bind (tr_frames r) (wire_recv (cw_codec world))")
    case None
    then show ?thesis using Cons.IH[OF Cons.prems, of d i ?c] by (simp add: received_simps)
  next
    case (Some en)
    obtain e n where en: "en = (e, n)" by (cases en)
    let ?w = "snd (writer_write (cw_codec world) True [] (cw_clock world i) e w)"
    note w = writer_write_ok[OF Cons.prems, of "cw_codec world" "io_errno (cw_io world)" "cw_clock world i" e]
    have cs: "record_consume world e n ((i, w), ?c) = (True, (i + 1, ?w), ?c)"
      using w assms by (simp add: record_consume_def case_prod_beta)
    obtain f' where "rw_file ?w = Some f'" using w by blast
    from Cons.IH[OF this, of "d + 1" "i + 1" ?c] show ?thesis
      using cs Some by (auto simp: en write_all_def stamped_Cons received_simps)
  qed
qed

definition stdio_works :: "stdio \<Rightarrow> bool" where
  "stdio_works io \<longleftrightarrow> io_opens io \<and> io_header io \<and> io_closes io \<and> (\<forall>i. io_writes io i)"

lemma runRecord_bytes:
  assumes "stdio_works (cw_io world)" and "cw_tap_refused world = None" and "opt_count opts = 0"
  shows "\<exists>c'. runRecord world opts c = (0, c') \<and>
    cli_file c' = rw_file (write_all (cw_codec world) (stamped (cw_clock world) 0 (received (cw_codec world) (cw_tap world)))
      (snd (writer_open True True '''' (hd (opt_args opts)) new_writer)))"
proof -
  let ?w = "snd (writer_open True True [] (hd (opt_args opts)) new_writer)" and ?io = "cw_io world"
  let ?c = "applyLogLevel world (opts\<lparr>opt_args := tl (opt_args opts)\<rparr>) (emit [Err (''# recording to '' @ c_str (hd (opt_args opts)) @ NEWLINE)] c)"
  have io: "io_opens ?io" "io_header ?io" "io_closes ?io" "\<forall>i. io_writes ?io i" using assms(1) by (auto simp: stdio_works_def)
  have o: "writer_open True True (io_errno ?io) (hd (opt_args opts)) new_writer = (None, ?w)" "rw_file ?w = Some RECORDING_MAGIC"
    by (simp_all add: writer_open_def)
  obtain k c' where "tap_loop (cw_codec world) (record_consume world) 0 0 (cw_tap world) ((0, ?w), ?c) =
      (0, (k, write_all (cw_codec world) (stamped (cw_clock world) 0 (received (cw_codec world) (cw_tap world))) ?w), c')"
    using record_loop[OF io(4) o(2)] by blast
  moreover have "fst (writer_close True m w) = None" for m w by (simp add: writer_close_def split: option.splits)
  ultimately show ?thesis
    using assms(2,3) io(1-3) o(1) by (auto simp: runRecord_def readTap_def Let_def case_prod_beta)
qed

text \<open>The replay of a capture that reads back as \<^verbatim>\<open>rs\<close>, to a broker that answers.\<close>

lemma runReplay_answered:
  assumes "cw_thrown world = None" and "cw_sync world" and "cw_confirm world" and "cw_interrupted world = (\<lambda>_. False)"
    and "cw_capture world = Some (RECORDING_MAGIC @ bytes)" and "read_all (cw_codec world) bytes = (rs, ReadEnd)"
    and "length rs \<le> default_max_size"
  shows "\<exists>c2 w. runReplay world opts c = (0, c2) \<and> cli_stopped c2 = cli_stopped c @ [w] \<and>
    published w = map (replay_message opts) (filter (\<lambda>e. \<not> replay_skips opts e) (map fst rs)) \<and>
    (\<exists>cid. m_queue (m_controlQueue w) = [makeControl DISCONNECT cid ''''])"
proof -
  have "reader_open (cw_capture world) (hd (opt_args opts)) (cw_errno world) = Inr bytes"
    by (simp add: assms(5) reader_open_def RECORDING_MAGIC_def)
  then have r: "runReplay world opts c = with_session world opts (replay_body world bytes opts) c" by (simp add: runReplay_def)
  show ?thesis unfolding r
  proof (rule with_session_stops[OF assms(1,2,7)])
    fix c1 :: cli
    assume c1: "publish_room (length rs) (cli_session c1) []" "cli_stopped c1 = cli_stopped c"
    let ?c = "if opt_preserveUuids opts then emit [Err (PRESERVE_NOTE @ NEWLINE)] c1 else c1"
    have eq: "cli_session ?c = cli_session c1" "cli_stopped ?c = cli_stopped c1" by simp_all
    obtain sent skipped s k where l: "replay_loop (cw_codec world) opts (\<lambda>_. False) 0 bytes 0 0 (cli_session c1) = (None, sent, skipped, s)"
      "publish_room k s (map (replay_message opts) (filter (\<lambda>e. \<not> replay_skips opts e) (map fst rs)))"
      using replay_all[OF assms(6) c1(1), of opts 0 0 0] by auto
    have "confirm world ''the replay'' opts (?c\<lparr>cli_session := s\<rparr>) = (True, ?c\<lparr>cli_session := s\<rparr>)"
      by (rule confirm_answered[OF _ assms(3)]) (use l(2) in simp)
    then have "\<exists>os. replay_body world bytes opts c1 = (0, emit os (?c\<lparr>cli_session := s\<rparr>))"
      unfolding replay_body_def Let_def eq assms(4) l(1) prod.case option.case by auto
    then show "\<exists>c2 k. replay_body world bytes opts c1 = (0, c2) \<and>
        publish_room k (cli_session c2) (map (replay_message opts) (filter (\<lambda>e. \<not> replay_skips opts e) (map fst rs))) \<and>
        cli_stopped c2 = cli_stopped c"
      using l(2) c1(2) eq by (auto split: if_splits)
  qed
qed


definition demo_world :: cli_world where
  "demo_world =
     \<lparr>cw_thrown = None, cw_pid = 7, cw_id_uuid = ''12345678'', cw_reply_uuid = ''r'', cw_log_level = None, cw_inspector_sock = None,
      cw_sync = True, cw_confirm = True, cw_stdin = ''x'', cw_time = (\<lambda>_. ''12:00''), cw_pool = (\<lambda>_ _. None), cw_codec = marked_codec,
      cw_stats_type = \<lparr>GetTypeName = ''s'', SerializeAsString = (\<lambda>_. ''''), ParseFromArray = (\<lambda>_. None)\<rparr>,
      cw_rates = (\<lambda>_. (''0'', ''0'')), cw_looks = [], cw_tap_refused = None,
      cw_tap = [\<lparr>tr_events = [TapConnected ''e''], tr_frames = Some (group_frames None (encodeHeader marked_codec (makeControlHeader CONNECT ''a'' '''')) '''')\<rparr>,
        \<lparr>tr_events = [], tr_frames = None\<rparr>,
        \<lparr>tr_events = [], tr_frames = Some (group_frames None (encodeHeader marked_codec (empty_header\<lparr>handler_key := ''t'', topic := ''t'', message_uuid := ''u'', origin_broker_id := ''b''\<rparr>)) ''x'')\<rparr>],
      cw_io = \<lparr>io_opens = True, io_header = True, io_writes = (\<lambda>_. True), io_closes = True, io_errno = ''''\<rparr>,
      cw_clock = int, cw_capture = None, cw_errno = '''', cw_interrupted = (\<lambda>_. False)\<rparr>"

abbreviation demo_recorded :: "envelope list" where
  "demo_recorded \<equiv> [makeControl CONNECT ''a'' '''',
     \<lparr>header = empty_header\<lparr>handler_key := ''t'', topic := ''t'', message_uuid := ''u'', origin_broker_id := ''b''\<rparr>, payload = ''x''\<rparr>]"

lemma demo_received: "received (cw_codec demo_world) (cw_tap demo_world) = demo_recorded"
  using codec_ok_marked
  by (simp add: demo_world_def received_simps wire_recv_def group_frames_def makeControl_def)

lemma demo_recordable:
  "list_all (recordable (cw_codec demo_world)) (map (\<lambda>(ts, e). (e, ts - cw_clock demo_world 0)) (stamped (cw_clock demo_world) 0 demo_recorded))"
  by (simp add: demo_world_def stamped_Cons stamped_def[of _ _ "[]"] recordable_def encodeHeader_def marked_codec_def mark_field_def
      MAX_MESSAGE_SIZE_BYTES_def makeControl_def makeControlHeader_def empty_header_def key_defs)


end
