(* ===== verification/Spec2Isabelle.thy ===== *)
theory Spec2Isabelle
  imports
    Subscription_Registry
    Uuid
    Any_Frame
    Zmq_Worker
    Broker_Run
    Connection_Api
    Typed_Messages
    Message_Poller
    Qt_Adapter
    Inspector
    Server_Main
    Cli_Commands
begin

text \<open>
  Wisp: a message broker over ZeroMQ with clients, peer links and LAN discovery.
\<close>

section \<open>The client library against the broker\<close>

lemma client_requests:
  assumes "list_all pending_ok pending" and "list_all client_act_ok as"
    and "s = client_run as (client_start cfg uuid pending)" and "\<not> cs_lost s"
  shows "list_all session_request (control_queue (cs_mgr s))"
    and "m_connected (cs_mgr s) \<Longrightarrow> \<not> reset_pending s \<Longrightarrow> sub_view (control_queue (cs_mgr s)) (cs_view s) = wanted (cs_mgr s)"
  using client_run_ok[OF client_start_ok[OF assms(1)] assms(2), of cfg uuid] assms(3,4)
  by (auto simp: system_ok_def client_inv_def held_def)


lemma demo_online:
  "client_run [StatusChange True] (client_start demo_client [] [(''t'', Some 3, 5, Origin_Local)]) =
     \<lparr>cs_mgr = demo_manager True [(''t'', [\<lparr>ce_instance = 5, ce_func = Some 3, ce_scope = Origin_Local\<rparr>])] 1
        [makeControl CONNECT ''c'' '''', (makeControl SUBSCRIBE ''c'' ''t'')\<lparr>payload := encodeSubscribeScope Origin_Local\<rparr>] 1 [],
      cs_batch = [], cs_view = Map.empty, cs_lost = False\<rparr>"
proof -
  have a: "Origin_Local \<noteq> Origin_Any" by (simp add: origin_defs)
  have m: "client_start demo_client [] [(''t'', Some 3, 5, Origin_Local)] =
      \<lparr>cs_mgr = demo_manager False [(''t'', [\<lparr>ce_instance = 5, ce_func = Some 3, ce_scope = Origin_Local\<rparr>])] 1 [] 0 [],
       cs_batch = [], cs_view = Map.empty, cs_lost = False\<rparr>"
    by (simp add: client_start_def cm_init_def demo_start performRegistration_def Let_def a)
  show ?thesis
    by (simp add: m client_run_def client_exec_def statusHandler_def demo_send Let_def createSubscribeEnvelope_def
        createControlEnvelope_def unionScope_def widen_def)
qed


end
